(* ===== verification/Prelude.thy ===== *)
theory Prelude
  imports Main "HOL-Library.Word" "HOL-Library.Sublist" "HOL-Library.List_Lexorder"
    "HOL-Library.Char_ord" "HOL-Library.Product_Lexorder"
begin

text \<open>
  Shared vocabulary of the development: the fixed-width integers of the C++ sources, the
  conversion between text and bytes, the double-ended list operations of
  \<^verbatim>\<open>std::list\<close>, and the generic facts on words and lists that the component
  theories use. The collections \<open>config_defs\<close> and \<open>op_defs\<close> gather
  the configuration constants and the definitions that the proofs of a component unfold.
\<close>

section \<open>Fixed-width integers\<close>

type_synonym u8 = "8 word"
type_synonym u16 = "16 word"
type_synonym u32 = "32 word"
type_synonym u64 = "64 word"
type_synonym byte = "8 word"

type_synonym blob = "byte list"
type_synonym hash = "byte list"

named_theorems config_defs "values of the configuration constants"
named_theorems op_defs "definitions of the operations of a component"

lemma word_max_le_iff [simp]: "max (a :: 'a::len word) b \<le> c \<longleftrightarrow> a \<le> c \<and> b \<le> c"
  by auto

lemma word_less_min_iff [simp]: "c < min (a :: 'a::len word) b \<longleftrightarrow> c < a \<and> c < b"
  by auto

lemma unat_inc:
  fixes i :: "'a::len word"
  assumes "i \<noteq> - 1"
  shows "unat (i + 1) = unat i + 1"
proof -
  have "1 + i \<noteq> 0"
    using assms eq_neg_iff_add_eq_0 [of i 1] by (simp add: add.commute)
  then show ?thesis
    using unatSuc [of i] by (simp add: add.commute)
qed

lemma unat_sum_list:
  fixes ws :: "u64 list"
  assumes "sum_list (map unat ws) < 2 ^ 64"
  shows "unat (sum_list ws) = sum_list (map unat ws)"
  using assms by (induction ws) (simp_all add: unat_word_ariths)

lemma if_max_min:
  "(if a < b then b else a) = max a (b :: 'a::linorder)"
  "(if a \<le> b then b else a) = max a b"
  "(if b < a then b else a) = min a b"
  by (auto simp: max_def min_def)

lemma unat_dec_pos:
  fixes a :: "'a::len word"
  assumes "a \<noteq> 0"
  shows "unat (a - 1) = unat a - 1"
  by (meson assms measure_unat unat_minus_one)

section \<open>Text and bytes\<close>

text \<open>
  A \<^verbatim>\<open>std::string\<close> is a sequence of 8-bit characters. Text is modelled as
  \<open>string\<close>, binary data as a list of bytes; the two are isomorphic.
\<close>

definition byte_of_char :: "char \<Rightarrow> byte" where
  "byte_of_char c = word_of_nat (of_char c)"

definition char_of_byte :: "byte \<Rightarrow> char" where
  "char_of_byte b = char_of (unat b)"

lemma unat_byte_of_char [simp]: "unat (byte_of_char c) = of_char c"
proof -
  have "(of_char c :: nat) < 256"
    by (rule nat_of_char_less_256)
  then show ?thesis
    by (simp add: byte_of_char_def unat_of_nat)
qed

lemma char_of_byte_of_char [simp]: "char_of_byte (byte_of_char c) = c"
  by (simp add: char_of_byte_def)

lemma byte_of_char_of_byte [simp]: "byte_of_char (char_of_byte b) = b"
proof -
  have "unat b < 256"
    using unsigned_less [of b, where ?'a = nat] by simp
  then show ?thesis
    by (simp add: byte_of_char_def char_of_byte_def)
qed

lemma map_char_byte [simp]: "map char_of_byte (map byte_of_char s) = s"
  by (simp add: comp_def)

section \<open>Lists\<close>

lemma butlast_snoc_id [simp]: "butlast (xs @ [x]) = xs"
  by simp

lemma butlast_Nil_iff: "butlast xs = [] \<longleftrightarrow> length xs \<le> 1"
  by (cases xs rule: rev_cases) auto

lemma length_filter_partition:
  "length (filter P xs) + length (filter (\<lambda>x. \<not> P x) xs) = length xs"
  by (induction xs) auto

lemma filter_id_if: "(\<And>x. x \<in> set xs \<Longrightarrow> P x) \<Longrightarrow> filter P xs = xs"
  by (induction xs) auto

lemma subseq_set: "subseq xs ys \<Longrightarrow> set xs \<subseteq> set ys"
  by (induction rule: list_emb.induct) auto

lemma distinct_map_subseq: "subseq xs ys \<Longrightarrow> distinct (map f ys) \<Longrightarrow> distinct (map f xs)"
  by (induction rule: list_emb.induct) (auto dest: subseq_set)

text \<open>
  Removing from \<open>ys\<close> every element whose key occurs among the keys of \<open>xs\<close>
  removes exactly \<open>length xs\<close> elements, when the keys of both lists are distinct and those
  of \<open>xs\<close> all occur in \<open>ys\<close>.
\<close>

lemma length_filter_notin_keys:
  assumes "distinct (map f ys)" and "distinct (map f xs)" and "f ` set xs \<subseteq> f ` set ys"
  shows "length (filter (\<lambda>y. f y \<notin> f ` set xs) ys) = length ys - length xs"
proof -
  have "map f (filter (\<lambda>y. f y \<in> f ` set xs) ys) = filter (\<lambda>k. k \<in> f ` set xs) (map f ys)"
    by (simp add: filter_map comp_def)
  moreover have "distinct (filter (\<lambda>k. k \<in> f ` set xs) (map f ys))"
    using assms(1) by simp
  moreover have "set (filter (\<lambda>k. k \<in> f ` set xs) (map f ys)) = f ` set xs"
    using assms(3) by auto
  ultimately have "length (filter (\<lambda>y. f y \<in> f ` set xs) ys) = card (f ` set xs)"
    by (metis distinct_card length_map)
  also have "\<dots> = length xs"
    using assms(2) by (metis distinct_card length_map list.set_map)
  finally have "length (filter (\<lambda>y. f y \<in> f ` set xs) ys) = length xs" .
  with length_filter_partition [of "\<lambda>y. f y \<in> f ` set xs" ys] show ?thesis
    by simp
qed

end
