(* ===== verification/Graft_Config.thy ===== *)
theory Graft_Config
  imports Prelude
begin

text \<open>
  The constants of \<^verbatim>\<open>src/graft_rta_config.h\<close> and of
  \<^verbatim>\<open>src/cryptonote_config.h\<close> that the modelled components read.
  Every constant is in the collection \<open>config_defs\<close>.
\<close>

section \<open>Coin amounts and stake tiers\<close>

definition COIN :: u64 where [config_defs]: "COIN = 10000000000"

definition TIER1_STAKE_AMOUNT :: u64 where [config_defs]: "TIER1_STAKE_AMOUNT = COIN * 50000"
definition TIER2_STAKE_AMOUNT :: u64 where [config_defs]: "TIER2_STAKE_AMOUNT = COIN * 90000"
definition TIER3_STAKE_AMOUNT :: u64 where [config_defs]: "TIER3_STAKE_AMOUNT = COIN * 150000"
definition TIER4_STAKE_AMOUNT :: u64 where [config_defs]: "TIER4_STAKE_AMOUNT = COIN * 250000"

definition TIERS_COUNT :: nat where [config_defs]: "TIERS_COUNT = 4"

section \<open>Stake transactions\<close>

definition STAKE_TRANSACTION_PROCESSING_DB_VERSION :: u8 where
  [config_defs]: "STAKE_TRANSACTION_PROCESSING_DB_VERSION = 13"

definition STAKE_MIN_UNLOCK_TIME :: u64 where [config_defs]: "STAKE_MIN_UNLOCK_TIME = 10"
definition STAKE_MAX_UNLOCK_TIME_V15 :: u64 where [config_defs]: "STAKE_MAX_UNLOCK_TIME_V15 = 5000"
definition STAKE_MAX_UNLOCK_TIME :: u64 where [config_defs]: "STAKE_MAX_UNLOCK_TIME = 23040"
definition STAKE_VALIDATION_PERIOD :: u64 where [config_defs]: "STAKE_VALIDATION_PERIOD = 6"
definition TRUSTED_RESTAKING_PERIOD :: u64 where [config_defs]: "TRUSTED_RESTAKING_PERIOD = 6"
definition SUPERNODE_HISTORY_SIZE :: u64 where [config_defs]: "SUPERNODE_HISTORY_SIZE = 100"

end
