(* ===== verification/Interfaces.thy ===== *)
theory Interfaces
  imports Prelude
begin

text \<open>
  Contracts that several components share, each a locale that the providing component
  interprets on its own operations. \<open>undo_log\<close> is the contract of a log of blocks that
  can be unrolled when the blockchain is reorganised.
\<close>

section \<open>Folding an operation that may throw\<close>

fun fold_err :: "('b \<Rightarrow> 's \<Rightarrow> 'e + 's) \<Rightarrow> 'b list \<Rightarrow> 's \<Rightarrow> 'e + 's" where
  "fold_err f [] s = Inr s"
| "fold_err f (b # bs) s = (case f b s of Inl e \<Rightarrow> Inl e | Inr t \<Rightarrow> fold_err f bs t)"

text \<open>\<open>P\<close> holds before every step of the fold.\<close>

fun along :: "('b \<Rightarrow> 's \<Rightarrow> 'e + 's) \<Rightarrow> ('b \<Rightarrow> 's \<Rightarrow> bool) \<Rightarrow> 'b list \<Rightarrow> 's \<Rightarrow> bool" where
  "along f P [] s = True"
| "along f P (b # bs) s = (P b s \<and> (case f b s of Inl e \<Rightarrow> True | Inr t \<Rightarrow> along f P bs t))"

section \<open>Logs that can be unrolled\<close>

text \<open>
  \<open>push\<close> appends a block, \<open>pop\<close> removes the last one. As long as there is room
  in the bounded history, popping undoes pushing as far as \<open>view\<close> can see.
\<close>

locale undo_log =
  fixes push :: "'b \<Rightarrow> 's \<Rightarrow> 'e + 's"
    and pop :: "'s \<Rightarrow> 's"
    and ok :: "'s \<Rightarrow> bool"
    and fits :: "'b \<Rightarrow> 's \<Rightarrow> bool"
    and room :: "'s \<Rightarrow> nat"
    and view :: "'s \<Rightarrow> 'v"
  assumes ok_push: "ok s \<Longrightarrow> fits b s \<Longrightarrow> push b s = Inr t \<Longrightarrow> ok t"
    and room_push: "ok s \<Longrightarrow> fits b s \<Longrightarrow> push b s = Inr t \<Longrightarrow> room s \<le> Suc (room t)"
    and view_pop_push: "ok s \<Longrightarrow> fits b s \<Longrightarrow> push b s = Inr t \<Longrightarrow> 0 < room s \<Longrightarrow> view (pop t) = view s"
    and view_pop_cong: "view s = view t \<Longrightarrow> view (pop s) = view (pop t)"
begin

lemma ok_pushes: "ok s \<Longrightarrow> along push fits bs s \<Longrightarrow> fold_err push bs s = Inr t \<Longrightarrow> ok t"
  by (induction bs arbitrary: s) (auto split: sum.splits dest: ok_push)

lemma view_pops_pushes:
  "ok s \<Longrightarrow> along push fits bs s \<Longrightarrow> fold_err push bs s = Inr t \<Longrightarrow> length bs \<le> room s \<Longrightarrow>
   view ((pop ^^ length bs) t) = view s"
proof (induction bs arbitrary: s)
  case Nil
  then show ?case by simp
next
  case (Cons b bs)
  then obtain u where u: "push b s = Inr u" "fits b s" "along push fits bs u" "fold_err push bs u = Inr t"
    by (auto split: sum.splits)
  with Cons.prems have "ok u" and "length bs \<le> room u" and room: "0 < room s"
    using ok_push room_push by fastforce+
  with u Cons.IH have "view ((pop ^^ length bs) t) = view u"
    by blast
  then have "view (pop ((pop ^^ length bs) t)) = view (pop u)"
    by (rule view_pop_cong)
  also have "\<dots> = view s"
    using Cons.prems(1) u room by (blast intro: view_pop_push)
  finally show ?case by simp
qed

end

end
