(* ===== verification/Varint.thy ===== *)
theory Varint
  imports Prelude
begin

text \<open>
  Model of \<^verbatim>\<open>src/common/varint.h\<close>: variable length integers of seven bits per
  byte, the least significant ones first, written for any unsigned type and read with the
  checks for overflow and for a non-canonical last byte. The reader returns the number of
  bytes read or an error code, the value, and what is left of the input.
\<close>

unbundle bit_operations_syntax

section \<open>Writing and reading\<close>

definition EVARINT_OVERFLOW :: int where "EVARINT_OVERFLOW = - 1"
definition EVARINT_REPRESENT :: int where "EVARINT_REPRESENT = - 2"

lemma unat_drop_bit_7: "unat (drop_bit 7 i) = unat i div 2 ^ 7"
  by (simp only: unat_drop_bit_eq) (simp only: drop_bit_eq_div)

lemma drop_bit_7_less: "\<not> unat (i :: 'a::len word) < 0x80 \<Longrightarrow> unat (drop_bit 7 i) < unat i"
  unfolding unat_drop_bit_7 by (intro div_less_dividend) auto

function write_varint :: "'a::len word \<Rightarrow> byte list" where
  "write_varint i =
     (if \<not> unat i < 0x80 then ((ucast i AND 0x7f) OR 0x80) # write_varint (drop_bit 7 i)
      else [ucast i])"
  by auto

termination
  by (relation "measure unat") (auto intro: drop_bit_7_less)

declare write_varint.simps [simp del]

text \<open>
  The loop of \<open>read_varint\<close>, from the shift \<open>shift\<close> on: \<open>n\<close> is the
  variable \<^verbatim>\<open>read\<close> of the code. A reader that meets the end of the input
  returns what it has, also in the middle of a number.
\<close>

fun read_varint_loop :: "nat \<Rightarrow> nat \<Rightarrow> int \<Rightarrow> 'a::len word \<Rightarrow> byte list \<Rightarrow> int \<times> 'a word \<times> byte list" where
  "read_varint_loop bits shift n write [] = (n, write, [])"
| "read_varint_loop bits shift n write (byte # rest) =
     (if bits \<le> shift + 7 \<and> 2 ^ (bits - shift) \<le> unat byte then (EVARINT_OVERFLOW, write, rest)
      else if byte = 0 \<and> shift \<noteq> 0 then (EVARINT_REPRESENT, write, rest)
      else
        let write = write OR push_bit shift (ucast (byte AND 0x7f))
        in if byte AND 0x80 = 0 then (n + 1, write, rest)
           else read_varint_loop bits (shift + 7) (n + 1) write rest)"

definition read_varint :: "byte list \<Rightarrow> int \<times> 'a::len word \<times> byte list" where
  "read_varint bs = read_varint_loop LENGTH('a) 0 0 0 bs"

section \<open>Reading what was written\<close>

lemma write_varint_not_Nil [simp]: "write_varint i \<noteq> []"
  by (subst write_varint.simps) simp

lemma and_0x7f: "b AND 0x7f = take_bit 7 (b :: byte)"
  by (simp add: take_bit_eq_mask mask_eq_exp_minus_1)

lemma and_0x80: "b AND 0x80 = 0 \<longleftrightarrow> \<not> bit (b :: byte) 7"
  using and_exp_eq_0_iff_not_bit [of b 7] by simp

lemma or_0x80: "b OR 0x80 = set_bit 7 (b :: byte)"
  by (simp add: set_bit_eq_or)

lemma or_push_bit_split:
  "(w OR push_bit n (ucast (take_bit 7 (ucast i) :: byte))) OR push_bit (n + 7) (drop_bit 7 i) =
   w OR push_bit n (i :: 'a::len word)"
proof (rule bit_word_eqI)
  fix m
  assume "m < LENGTH('a)"
  then show "bit ((w OR push_bit n (ucast (take_bit 7 (ucast i) :: byte))) OR push_bit (n + 7) (drop_bit 7 i)) m =
      bit (w OR push_bit n i) m"
    by (cases "n + 7 \<le> m") (auto simp: bit_simps)
qed

lemma continuation_byte:
  fixes b :: byte
  shows "take_bit 7 (set_bit 7 (take_bit 7 b)) = take_bit 7 b" and "bit (set_bit 7 b) 7"
    and "set_bit 7 b \<noteq> 0"
proof -
  show "take_bit 7 (set_bit 7 (take_bit 7 b)) = take_bit 7 b"
    by (rule bit_eqI) (auto simp: bit_simps)
  show "bit (set_bit 7 b) 7"
    by (simp add: bit_simps)
  then show "set_bit 7 b \<noteq> 0"
    by (metis bit_0_eq bot_apply bot_bool_def)
qed

lemma final_byte:
  fixes i :: "'a::len word"
  assumes "unat i < 0x80"
  shows "take_bit 7 i = i" and "ucast (take_bit 7 (ucast i) :: byte) = i" and "\<not> bit (ucast i :: byte) 7"
    and "unat (ucast i :: byte) = unat i" and "ucast (ucast i :: byte) = i"
proof -
  show i: "take_bit 7 i = i"
    using assms by (simp add: word_eq_iff_unsigned [where 'a = nat] unsigned_take_bit_eq take_bit_nat_eq_self)
  have bits: "bit i n \<Longrightarrow> n < 7" for n
    by (metis i bit_take_bit_iff)
  show "ucast (take_bit 7 (ucast i) :: byte) = i"
    by (intro bit_word_eqI) (auto simp: bit_simps dest: bits)
  show "ucast (ucast i :: byte) = i"
    by (intro bit_word_eqI) (auto simp: bit_simps dest: bits)
  show "\<not> bit (ucast i :: byte) 7"
    using bits [of 7] by (auto simp: bit_simps)
  show "unat (ucast i :: byte) = unat i"
    using assms by (simp add: unsigned_ucast_eq take_bit_nat_eq_self)
qed

lemma read_varint_loop_write:
  fixes i w :: "'a::len word"
  assumes "unat i < 2 ^ (LENGTH('a) - shift)" and "shift < LENGTH('a)" and "shift \<noteq> 0 \<Longrightarrow> i \<noteq> 0"
  shows "read_varint_loop LENGTH('a) shift n w (write_varint i @ rest) =
    (n + int (length (write_varint i)), w OR push_bit shift i, rest)"
  using assms
proof (induction i arbitrary: shift n w rule: write_varint.induct)
  case (1 i)
  show ?case
  proof (cases "unat i < 0x80")
    case True
    then have "ucast i = (0 :: byte) \<longrightarrow> shift = 0"
      using 1(4) final_byte(4) by (metis unat_eq_zero)
    with True 1 show ?thesis
      by (subst (1 2) write_varint.simps) (auto simp: final_byte and_0x7f and_0x80)
  next
    case False
    let ?b = "set_bit 7 (take_bit 7 (ucast i)) :: byte"
    have shift: "\<not> LENGTH('a) \<le> shift + 7"
    proof
      assume "LENGTH('a) \<le> shift + 7"
      then have "(2 :: nat) ^ (LENGTH('a) - shift) \<le> 2 ^ 7"
        by (intro power_increasing) auto
      with 1(2) False show False by simp
    qed
    have "LENGTH('a) - shift = LENGTH('a) - (shift + 7) + 7"
      using shift by simp
    then have exp: "(2 :: nat) ^ (LENGTH('a) - shift) = 2 ^ (LENGTH('a) - (shift + 7)) * 2 ^ 7"
      by (simp only: power_add)
    have less: "unat (drop_bit 7 i) < 2 ^ (LENGTH('a) - (shift + 7))"
      using 1(2) unfolding exp unat_drop_bit_7 by (rule less_mult_imp_div_less)
    have nz: "drop_bit 7 i \<noteq> 0"
      using False unat_drop_bit_7 [of i] by auto
    have w: "write_varint i = ?b # write_varint (drop_bit 7 i)"
      using False by (subst write_varint.simps) (simp add: and_0x7f or_0x80)
    show ?thesis
      using 1(1) [OF False less _ nz] shift
      by (simp add: w continuation_byte or_push_bit_split and_0x7f and_0x80)
  qed
qed

lemma read_write_varint:
  "read_varint (write_varint i @ rest) = (int (length (write_varint i)), i :: 'a::len word, rest)"
  by (simp add: read_varint_def read_varint_loop_write)

section \<open>Writing what was read\<close>

lemma byte_split: "bit (b :: byte) 7 \<Longrightarrow> set_bit 7 (take_bit 7 b) = b"
  by (rule bit_word_eqI) (auto simp: bit_simps less_Suc_eq numeral_eq_Suc)

lemma unat_byte_less: "\<not> bit (b :: byte) 7 \<longleftrightarrow> unat b < 0x80"
proof
  assume "\<not> bit b 7"
  then have "take_bit 7 b = b"
    by (intro bit_word_eqI) (auto simp: bit_simps less_Suc_eq numeral_eq_Suc)
  then have "unat b = take_bit 7 (unat b)"
    by (metis unsigned_take_bit_eq)
  then show "unat b < 0x80"
    using take_bit_nat_less_exp [of 7 "unat b"] by simp
next
  assume "unat b < 0x80"
  then show "\<not> bit b 7" using final_byte(3) [of b] by simp
qed

lemma join_drop:
  fixes i :: "'a::len word"
  assumes "unat i < 2 ^ (LENGTH('a) - 7)" and "7 < LENGTH('a)"
  shows "drop_bit 7 (ucast (take_bit 7 b :: byte) OR push_bit 7 i) = i"
    and "take_bit 7 (ucast (ucast (take_bit 7 b :: byte) OR push_bit 7 i) :: byte) = take_bit 7 b"
proof -
  have "take_bit (LENGTH('a) - 7) i = i"
    using assms(1) by (simp add: word_eq_iff_unsigned [where 'a = nat] unsigned_take_bit_eq take_bit_nat_eq_self)
  then have bits: "bit i n \<Longrightarrow> n < LENGTH('a) - 7" for n
    by (metis bit_take_bit_iff)
  show "drop_bit 7 (ucast (take_bit 7 b :: byte) OR push_bit 7 i) = i"
    by (rule bit_word_eqI) (auto simp: bit_simps dest: bits)
  show "take_bit 7 (ucast (ucast (take_bit 7 b :: byte) OR push_bit 7 i) :: byte) = take_bit 7 b"
    using assms(2) by (intro bit_word_eqI) (auto simp: bit_simps)
qed

lemma exp_split_7:
  "\<not> l \<le> shift + 7 \<Longrightarrow> (2 :: nat) ^ (l - shift) = 2 ^ (l - (shift + 7)) * 2 ^ 7"
proof -
  assume "\<not> l \<le> shift + 7"
  then have "l - shift = l - (shift + 7) + 7" by simp
  then show ?thesis by (simp only: power_add)
qed

lemma write_varint_final:
  fixes b :: byte
  assumes "unat b < 0x80" and "unat b < 2 ^ LENGTH('a)"
  shows "write_varint (ucast b :: 'a::len word) = [b]" and "unat (ucast b :: 'a word) = unat b"
proof -
  show u: "unat (ucast b :: 'a word) = unat b"
    using assms(2) by (simp add: unsigned_ucast_eq take_bit_nat_eq_self)
  then have "ucast (ucast b :: 'a word) = b"
    using final_byte(4) [of "ucast b :: 'a word"] assms(1) by (simp add: word_eq_iff_unsigned [where 'a = nat])
  with u assms(1) show "write_varint (ucast b :: 'a word) = [b]"
    by (subst write_varint.simps) simp
qed

lemma write_varint_continue:
  fixes i :: "'a::len word"
  assumes "bit b 7" and "i \<noteq> 0" and "unat i < 2 ^ (LENGTH('a) - (shift + 7))" and "\<not> LENGTH('a) \<le> shift + 7"
    and j: "j = ucast (take_bit 7 b) OR push_bit 7 i"
  shows "write_varint j = b # write_varint i" and "unat j < 2 ^ (LENGTH('a) - shift)" and "j \<noteq> 0"
    and "(w OR push_bit shift (ucast (take_bit 7 b))) OR push_bit (shift + 7) i = w OR push_bit shift j"
proof -
  have "(2 :: nat) ^ (LENGTH('a) - (shift + 7)) \<le> 2 ^ (LENGTH('a) - 7)"
    by (intro power_increasing) auto
  with assms(3) have "unat i < 2 ^ (LENGTH('a) - 7)" by (rule less_le_trans)
  then have i: "drop_bit 7 j = i" "take_bit 7 (ucast j :: byte) = take_bit 7 b"
    unfolding j using assms(4) by (intro join_drop; simp)+
  have div: "unat j div 2 ^ 7 = unat i"
    using unat_drop_bit_7 [of j] i(1) by simp
  moreover have "unat i \<noteq> 0" using assms(2) by (simp add: unat_eq_zero)
  ultimately have big: "\<not> unat j < 0x80" by auto
  with i byte_split [OF assms(1)] show "write_varint j = b # write_varint i"
    by (subst write_varint.simps) (simp add: and_0x7f or_0x80)
  show "unat j < 2 ^ (LENGTH('a) - shift)"
    using div assms(3) exp_split_7 [OF assms(4)] by (metis div_less_iff_less_mult zero_less_numeral zero_less_power)
  show "j \<noteq> 0" using big by auto
  show "(w OR push_bit shift (ucast (take_bit 7 b))) OR push_bit (shift + 7) i = w OR push_bit shift j"
    using or_push_bit_split [of w shift j] i by simp
qed

lemma read_varint_loop_canonical:
  fixes w v :: "'a::len word"
  assumes "read_varint_loop LENGTH('a) shift n w bs = (m, v, rest)" and "0 \<le> m" and "shift < LENGTH('a)"
  shows "(rest = [] \<and> list_all (\<lambda>b. bit b 7) bs) \<or>
    (\<exists>i. bs = write_varint i @ rest \<and> v = w OR push_bit shift i \<and>
       unat i < 2 ^ (LENGTH('a) - shift) \<and> (shift \<noteq> 0 \<longrightarrow> i \<noteq> 0))"
  using assms
proof (induction bs arbitrary: shift n w)
  case Nil
  then show ?case by simp
next
  case (Cons b bs)
  have over: "\<not> (LENGTH('a) \<le> shift + 7 \<and> 2 ^ (LENGTH('a) - shift) \<le> unat b)" and repr: "\<not> (b = 0 \<and> shift \<noteq> 0)"
    using Cons.prems(1,2) by (auto simp: EVARINT_OVERFLOW_def EVARINT_REPRESENT_def split: if_splits)
  show ?case
  proof (cases "bit b 7")
    case False
    then have small: "unat b < 0x80"
      using unat_byte_less by blast
    have less: "unat b < 2 ^ (LENGTH('a) - shift)"
      using over small power_increasing [of 7 "LENGTH('a) - shift" "2 :: nat"] by fastforce
    then have "unat b < 2 ^ LENGTH('a)"
      using power_increasing [of "LENGTH('a) - shift" "LENGTH('a)" "2 :: nat"] by (auto intro: less_le_trans)
    note wf = write_varint_final [OF small this]
    have "bs = rest" "v = w OR push_bit shift (ucast b)"
      using Cons.prems(1) over repr False final_byte(1) [OF small] by (auto simp: and_0x7f and_0x80)
    then show ?thesis
      using wf less repr by (intro disjI2 exI [of _ "ucast b"]) (auto simp: unat_eq_zero [symmetric])
  next
    case True
    then have "128 \<le> unat b" using unat_byte_less [of b] by simp
    with over have shift: "\<not> LENGTH('a) \<le> shift + 7"
      using power_increasing [of "LENGTH('a) - shift" 7 "2 :: nat"] by (auto simp: le_diff_conv)
    let ?w = "w OR push_bit shift (ucast (take_bit 7 b))"
    have "read_varint_loop LENGTH('a) (shift + 7) (n + 1) ?w bs = (m, v, rest)"
      using Cons.prems(1) over repr True by (auto simp: and_0x7f and_0x80)
    from Cons.IH [OF this Cons.prems(2)] shift consider "rest = []" "list_all (\<lambda>b. bit b 7) bs"
      | i where "bs = write_varint i @ rest" "v = ?w OR push_bit (shift + 7) i"
          "unat i < 2 ^ (LENGTH('a) - (shift + 7))" "i \<noteq> 0"
      by auto
    then show ?thesis
    proof cases
      case 1
      with True show ?thesis by simp
    next
      case (2 i)
      from write_varint_continue [OF True 2(4,3) shift refl] 2(1,2) show ?thesis
        by (metis append_Cons)
    qed
  qed
qed

lemma read_varint_canonical:
  assumes "read_varint bs = (n, v :: 'a::len word, rest)" and "0 \<le> n"
  shows "bs = write_varint v @ rest \<or> (rest = [] \<and> list_all (\<lambda>b. bit b 7) bs)"
  using read_varint_loop_canonical [of 0 0 0 bs n v rest] assms by (auto simp: read_varint_def)

lemma length_write_varint: "unat i < 2 ^ (7 * Suc n) \<Longrightarrow> length (write_varint i) \<le> Suc n"
proof (induction n arbitrary: i)
  case 0
  then show ?case by (subst write_varint.simps) simp
next
  case (Suc n)
  show ?case
  proof (cases "unat i < 0x80")
    case True
    then show ?thesis by (subst write_varint.simps) simp
  next
    case False
    have "7 * Suc (Suc n) = 7 * Suc n + 7" by simp
    then have "unat i < 2 ^ (7 * Suc n) * 2 ^ 7"
      using Suc.prems by (simp only: power_add)
    then have "unat (drop_bit 7 i) < 2 ^ (7 * Suc n)"
      unfolding unat_drop_bit_7 by (rule less_mult_imp_div_less)
    from Suc.IH [OF this] False show ?thesis by (subst write_varint.simps) simp
  qed
qed

lemma length_write_varint_u64: "length (write_varint (i :: u64)) \<le> 10"
proof -
  have "unat i < 2 ^ 64" using unsigned_less [of i, where ?'a = nat] by simp
  also have "(2 :: nat) ^ 64 \<le> 2 ^ (7 * Suc 9)" by (rule power_increasing) simp_all
  finally show ?thesis using length_write_varint [of i 9] by simp
qed



end
