(* ===== verification/Binary_Archive.thy ===== *)
theory Binary_Archive
  imports Varint
begin

text \<open>
  Model of the binary archives of \<^verbatim>\<open>src/serialization\<close>
  (\<^verbatim>\<open>binary_archive.h\<close>, \<^verbatim>\<open>serialization.h\<close>, \<^verbatim>\<open>container.h\<close>,
  \<^verbatim>\<open>string.h\<close>, \<^verbatim>\<open>crypto.h\<close>, \<^verbatim>\<open>binary_utils.h\<close>).
  A saver gives the bytes it writes, or \<open>None\<close> where the code returns false. A loader
  takes the bytes that are left to the value and the bytes left after it, or to \<open>None\<close> where
  the code returns false or finds the stream no longer good, either of which makes every
  enclosing \<^verbatim>\<open>do_serialize\<close> return false.
  The locale \<open>codec\<close> is the contract of a saver and a loader: what is saved is loaded back,
  whatever follows it. The relation \<open>codes\<close> states it for one value and is closed under the
  sequencing of fields, so that the contract of an object follows from those of its fields.
\<close>

unbundle bit_operations_syntax

type_synonym 'a saver = "'a \<Rightarrow> byte list option"
type_synonym 'a loader = "byte list \<Rightarrow> ('a \<times> byte list) option"

section \<open>Sequencing of fields\<close>

text \<open>
  The macros \<^verbatim>\<open>FIELD\<close> and \<^verbatim>\<open>VARINT_FIELD\<close>: the fields are written one
  after the other until one fails, and read until one fails. A guard is a statement
  \<^verbatim>\<open>if (...) return false\<close> between two fields.
\<close>

fun save_all :: "byte list option list \<Rightarrow> byte list option" where
  "save_all [] = Some []"
| "save_all (s # ss) =
     (case s of
        None \<Rightarrow> None
      | Some b \<Rightarrow> (case save_all ss of None \<Rightarrow> None | Some bs \<Rightarrow> Some (b @ bs)))"

definition save_guard :: "bool \<Rightarrow> byte list option" where
  "save_guard b = (if b then Some [] else None)"

definition load_return :: "'a \<Rightarrow> 'a loader" where
  "load_return x bs = Some (x, bs)"

definition load_bind :: "'a loader \<Rightarrow> ('a \<Rightarrow> 'b loader) \<Rightarrow> 'b loader" where
  "load_bind load k bs = (case load bs of None \<Rightarrow> None | Some (x, bs) \<Rightarrow> k x bs)"

definition load_guard :: "bool \<Rightarrow> unit loader" where
  "load_guard b bs = (if b then Some ((), bs) else None)"

section \<open>Integers and blobs\<close>

text \<open>\<open>serialize_uint\<close> of the saving archive, for the last \<open>n\<close> of \<^verbatim>\<open>sizeof(T)\<close> bytes.\<close>

fun uint_bytes :: "nat \<Rightarrow> 'a::len word \<Rightarrow> byte list" where
  "uint_bytes 0 v = []"
| "uint_bytes (Suc n) v = ucast (v AND 0xff) # uint_bytes n (if 1 < size v div 8 then drop_bit 8 v else v)"

definition save_uint :: "'a::len word saver" where
  "save_uint v = Some (uint_bytes (size v div 8) v)"

text \<open>\<open>serialize_uint\<close> of the loading archive: a failed \<^verbatim>\<open>get\<close> leaves the stream bad.\<close>

fun load_uint_loop :: "nat \<Rightarrow> nat \<Rightarrow> 'a::len word \<Rightarrow> 'a word loader" where
  "load_uint_loop 0 shift ret bs = Some (ret, bs)"
| "load_uint_loop (Suc n) shift ret [] = None"
| "load_uint_loop (Suc n) shift ret (b # bs) = load_uint_loop n (shift + 8) (ret + push_bit shift (ucast b)) bs"

definition load_uint :: "'a::len word loader" where
  "load_uint bs = load_uint_loop (LENGTH('a) div 8) 0 0 bs"

text \<open>A blob of a fixed length, such as a hash or a key.\<close>

definition save_blob :: "blob saver" where
  "save_blob buf = Some buf"

definition load_blob :: "nat \<Rightarrow> blob loader" where
  "load_blob len bs = (if length bs < len then None else Some (take len bs, drop len bs))"

section \<open>Variable length integers\<close>

definition save_varint :: "'a::len word saver" where
  "save_varint v = Some (write_varint v)"

text \<open>
  \<open>serialize_uvarint\<close> of the loading archive reads through the stream buffer and drops the
  result code of \<open>read_varint\<close>: the stream stays good and the value is what was read so far.
\<close>

definition load_varint :: "'a::len word loader" where
  "load_varint bs = (case read_varint bs of (_, v, rest) \<Rightarrow> Some (v, rest))"

section \<open>Strings and containers\<close>

definition save_string :: "string saver" where
  "save_string str =
     save_all [save_varint (word_of_nat (length str) :: u64), save_blob (map byte_of_char str)]"

text \<open>The sanity check of the string and container loaders: \<open>remaining_bytes() < cnt\<close> fails.\<close>

definition load_remaining :: "nat \<Rightarrow> unit loader" where
  "load_remaining cnt bs = (if length bs < cnt then None else Some ((), bs))"

definition load_string :: "string loader" where
  "load_string =
     load_bind load_varint (\<lambda>sz :: u64.
     load_bind (load_remaining (unat sz)) (\<lambda>_.
     load_bind (load_blob (unat sz)) (\<lambda>buf.
     load_return (map char_of_byte buf))))"

fun load_elements :: "'a loader \<Rightarrow> nat \<Rightarrow> 'a list loader" where
  "load_elements load 0 = load_return []"
| "load_elements load (Suc n) =
     load_bind load (\<lambda>e. load_bind (load_elements load n) (\<lambda>v. load_return (e # v)))"

definition save_container :: "'a saver \<Rightarrow> 'a list saver" where
  "save_container save v = save_all (save_varint (word_of_nat (length v) :: u64) # map save v)"

definition load_container :: "'a loader \<Rightarrow> 'a list loader" where
  "load_container load =
     load_bind load_varint (\<lambda>cnt :: u64.
     load_bind (load_remaining (unat cnt)) (\<lambda>_. load_elements load (unat cnt)))"

text \<open>
  A vector without a count, whose size \<open>n\<close> is known from elsewhere: the saver checks it, the
  loader resizes the vector to it (\<^verbatim>\<open>PREPARE_CUSTOM_VECTOR_SERIALIZATION\<close>).
\<close>

definition save_sized :: "nat \<Rightarrow> 'a saver \<Rightarrow> 'a list saver" where
  "save_sized n save v = save_all (save_guard (length v = n) # map save v)"

definition load_sized :: "nat \<Rightarrow> 'a loader \<Rightarrow> 'a list loader" where
  "load_sized n load = load_elements load n"

section \<open>Whole blobs\<close>

definition dump_binary :: "'a saver \<Rightarrow> 'a \<Rightarrow> blob option" where
  "dump_binary save v = save v"

definition parse_binary :: "'a loader \<Rightarrow> blob \<Rightarrow> 'a option" where
  "parse_binary load b =
     (case load b of
        None \<Rightarrow> None
      | Some (v, rest) \<Rightarrow> if rest = [] then Some v else None)"

section \<open>What is saved is loaded back\<close>

definition codes :: "byte list option \<Rightarrow> 'a loader \<Rightarrow> 'a \<Rightarrow> bool" where
  "codes s load x \<longleftrightarrow> (\<exists>bs. s = Some bs \<and> (\<forall>rest. load (bs @ rest) = Some (x, rest)))"

lemma codesI: "(\<And>rest. load (bs @ rest) = Some (x, rest)) \<Longrightarrow> codes (Some bs) load x"
  by (simp add: codes_def)

lemma codesE:
  assumes "codes s load x"
  obtains bs where "s = Some bs" and "\<And>rest. load (bs @ rest) = Some (x, rest)"
  using assms by (auto simp: codes_def)

lemma codes_Nil [intro]: "codes (save_all []) (load_return x) x"
  by (simp add: codes_def load_return_def)

lemma codes_ret: "x = y \<Longrightarrow> codes (save_all []) (load_return x) y"
  using codes_Nil by simp

lemma codes_Cons [intro]:
  "codes s load x \<Longrightarrow> codes (save_all ss) (k x) y \<Longrightarrow> codes (save_all (s # ss)) (load_bind load k) y"
  by (auto simp: codes_def load_bind_def)

lemma save_all_ConsE:
  assumes "save_all (s # ss) = Some bs"
  obtains b bs' where "s = Some b" and "save_all ss = Some bs'" and "bs = b @ bs'"
  using assms by (auto split: option.splits)

lemma save_all_not_Nil: "s \<noteq> Some [] \<Longrightarrow> save_all (s # ss) \<noteq> Some []"
  by (auto split: option.splits)

lemma save_all_Some: "save_all (Some b # ss) = map_option ((@) b) (save_all ss)"
  by (auto split: option.splits)

declare save_all.simps [simp del]

lemma save_varint_not_Nil: "save_varint v \<noteq> Some []"
  by (simp add: save_varint_def)

lemma codes_guard [intro]: "b \<Longrightarrow> codes (save_guard b) (load_guard b) ()"
  by (simp add: codes_def save_guard_def load_guard_def)

text \<open>A field that is not written.\<close>

lemma codes_skip: "(\<And>bs. load bs = Some (x, bs)) \<Longrightarrow> codes (save_all ss) (k x) y \<Longrightarrow> codes (save_all ss) (load_bind load k) y"
  by (auto simp: codes_def load_bind_def)

lemma codes_parse: "codes s load x \<Longrightarrow> s = Some b \<Longrightarrow> parse_binary load b = Some x"
  by (auto simp: codes_def parse_binary_def dest: spec [of _ "[]"])

lemma codes_parse_trailing: "codes s load x \<Longrightarrow> s = Some b \<Longrightarrow> rest \<noteq> [] \<Longrightarrow> parse_binary load (b @ rest) = None"
  by (auto simp: codes_def parse_binary_def)

lemma codes_unique: "codes s load x \<Longrightarrow> codes s load y \<Longrightarrow> x = y"
  by (auto simp: codes_def)

locale codec =
  fixes save :: "'a saver"
    and load :: "'a loader"
    and fits :: "'a \<Rightarrow> bool"
  assumes codes: "fits x \<Longrightarrow> codes (save x) load x"
begin

lemma dump_parse: "fits x \<Longrightarrow> \<exists>b. dump_binary save x = Some b \<and> parse_binary load b = Some x"
  using codes codes_parse by (metis codesE dump_binary_def)

lemma save_inj: "fits x \<Longrightarrow> fits y \<Longrightarrow> save x = save y \<Longrightarrow> x = y"
  using codes codes_unique by metis

lemma codes_elements: "list_all fits v \<Longrightarrow> codes (save_all (map save v)) (load_elements load (length v)) v"
proof (induction v)
  case (Cons x v)
  then have x: "codes (save x) load x" and v: "codes (save_all (map save v)) (load_elements load (length v)) v"
    using codes by auto
  from v have "codes (save_all (map save v)) (load_bind (load_elements load (length v)) (\<lambda>v. load_return (x # v))) (x # v)"
    by (auto simp: codes_def load_bind_def load_return_def)
  with x show ?case
    by (auto intro: codes_Cons)
qed (use codes_Nil in auto)

end

text \<open>The containers also rely on encodings that are not empty, because of the sanity check.\<close>

locale nonempty_codec = codec +
  assumes save_not_Nil: "fits x \<Longrightarrow> save x \<noteq> Some []"
begin

lemma length_save_elements:
  "list_all fits v \<Longrightarrow> save_all (map save v) = Some bs \<Longrightarrow> length v \<le> length bs"
proof (induction v arbitrary: bs)
  case (Cons x v)
  then obtain b bs' where "save x = Some b" "save_all (map save v) = Some bs'" "bs = b @ bs'"
    by (auto elim: save_all_ConsE)
  moreover from this Cons.prems have "Suc 0 \<le> length b"
    using save_not_Nil [of x] by (cases b) auto
  moreover have "length v \<le> length bs'"
    using Cons.IH Cons.prems(1) calculation(2) by simp
  ultimately show ?case by simp
qed (simp add: save_all.simps(1))

end

section \<open>The codecs of the basic types\<close>

lemma length_uint_bytes [simp]: "length (uint_bytes n v) = n"
  by (induction n v rule: uint_bytes.induct) simp_all

lemma low_byte: "ucast (ucast (v AND 0xff) :: byte) = take_bit 8 (v :: 'a::len word)"
proof -
  have mask8: "(0xff :: 'a word) = mask 8" by (simp add: mask_eq_exp_minus_1)
  show ?thesis
    unfolding mask8 by (rule bit_word_eqI) (auto simp: bit_simps)
qed

lemma take_bit_byte_split:
  "take_bit 8 v + push_bit 8 (take_bit n (drop_bit 8 v)) = take_bit (n + 8) (v :: 'a::len word)"
  using bits_ident [of 8 "take_bit (n + 8) v"] by (simp add: drop_bit_take_bit min_def add.commute)

lemma load_uint_loop_bytes:
  fixes v ret :: "'a::len word"
  assumes "16 \<le> LENGTH('a)"
  shows "load_uint_loop n shift ret (uint_bytes n v @ rest) = Some (ret + push_bit shift (take_bit (8 * n) v), rest)"
proof (induction n arbitrary: shift ret v)
  case (Suc n)
  have wide: "1 < size v div 8"
    using div_le_mono [OF assms, of 8] by (simp add: word_size)
  have "push_bit shift (take_bit 8 v) + push_bit (shift + 8) (take_bit (8 * n) (drop_bit 8 v)) =
      push_bit shift (take_bit (8 * Suc n) v)"
    using arg_cong [OF take_bit_byte_split [of v "8 * n"], of "push_bit shift"]
    by (simp add: push_bit_add add.commute)
  with Suc wide show ?case
    by (simp add: low_byte add.assoc)
qed simp

lemma codes_uint:
  assumes "16 \<le> LENGTH('a)" and "8 dvd LENGTH('a)"
  shows "codes (save_uint v) load_uint (v :: 'a::len word)"
  using load_uint_loop_bytes [OF assms(1), of "LENGTH('a) div 8" 0 0 v] assms(2)
  by (auto simp: save_uint_def load_uint_def word_size take_bit_word_eq_self intro!: codesI)

lemma save_uint_not_Nil: "8 \<le> LENGTH('a) \<Longrightarrow> save_uint (v :: 'a::len word) \<noteq> Some []"
proof -
  assume "8 \<le> LENGTH('a)"
  then have "0 < LENGTH('a) div 8" by (simp add: div_greater_zero_iff)
  then have "length (uint_bytes (size v div 8) v) \<noteq> 0" by (simp add: word_size)
  then show ?thesis unfolding save_uint_def by fastforce
qed

lemma byte_and_0xff: "(b :: byte) AND 0xff = b"
proof -
  have "(0xff :: byte) = - 1" by simp
  then show ?thesis by (simp only: and.right_neutral)
qed

interpretation u64_codec: nonempty_codec "save_uint :: u64 saver" load_uint "\<lambda>_. True"
  by unfold_locales (simp_all add: codes_uint save_uint_not_Nil)

interpretation u32_codec: nonempty_codec "save_uint :: u32 saver" load_uint "\<lambda>_. True"
  by unfold_locales (simp_all add: codes_uint save_uint_not_Nil)

interpretation u8_codec: nonempty_codec "save_uint :: u8 saver" load_uint "\<lambda>_. True"
  by unfold_locales
    (simp_all add: save_uint_not_Nil, simp add: codes_def save_uint_def load_uint_def word_size byte_and_0xff)

definition blob_fits :: "nat \<Rightarrow> blob \<Rightarrow> bool" where
  "blob_fits len b \<longleftrightarrow> length b = len"

lemma codes_blob: "codes (save_blob b) (load_blob (length b)) b"
  by (simp add: codes_def save_blob_def load_blob_def)

lemma codec_blob: "0 < len \<Longrightarrow> nonempty_codec save_blob (load_blob len) (blob_fits len)"
  by unfold_locales (auto simp: blob_fits_def codes_blob, auto simp: save_blob_def)

interpretation key_codec: nonempty_codec save_blob "load_blob 32" "blob_fits 32"
  by (rule codec_blob) simp

interpretation signature_codec: nonempty_codec save_blob "load_blob 64" "blob_fits 64"
  by (rule codec_blob) simp

lemma codes_varint: "codes (save_varint v) load_varint v"
  by (simp add: codes_def load_varint_def save_varint_def read_write_varint)

lemma varint_codec: "nonempty_codec save_varint load_varint (\<lambda>_. True)"
  by unfold_locales (simp_all add: codes_varint, simp add: save_varint_def)

lemma unat_length_u64: "length v < 2 ^ 64 \<Longrightarrow> unat (word_of_nat (length v) :: u64) = length v"
  by (simp add: unsigned_of_nat take_bit_nat_eq_self)

lemma codes_remaining:
  assumes "codes s load x" and "\<And>bs. s = Some bs \<Longrightarrow> n \<le> length bs"
  shows "codes s (load_bind (load_remaining n) (\<lambda>_. load)) x"
  using assms by (auto simp: codes_def load_bind_def load_remaining_def)

definition string_fits :: "string \<Rightarrow> bool" where
  "string_fits str \<longleftrightarrow> length str < 2 ^ 64"

lemma codes_string: "string_fits str \<Longrightarrow> codes (save_string str) load_string str"
proof -
  assume "string_fits str"
  then have sz: "unat (word_of_nat (length str) :: u64) = length str"
    by (simp add: string_fits_def unat_length_u64)
  have "codes (save_all [save_blob (map byte_of_char str)])
      (load_bind (load_remaining (length str)) (\<lambda>_. load_bind (load_blob (length str)) (\<lambda>buf. load_return (map char_of_byte buf)))) str"
    by (simp add: codes_def save_all_Some save_all.simps(1) save_blob_def load_bind_def load_remaining_def load_blob_def load_return_def comp_def)
  with sz show ?thesis
    unfolding save_string_def load_string_def by (intro codes_Cons [OF codes_varint]) simp
qed

interpretation string_codec: nonempty_codec save_string load_string string_fits
  by unfold_locales (auto intro: codes_string, auto simp: save_string_def save_all_not_Nil save_varint_not_Nil)

definition container_fits :: "('a \<Rightarrow> bool) \<Rightarrow> 'a list \<Rightarrow> bool" where
  "container_fits fits v \<longleftrightarrow> list_all fits v \<and> length v < 2 ^ 64"

definition sized_fits :: "nat \<Rightarrow> ('a \<Rightarrow> bool) \<Rightarrow> 'a list \<Rightarrow> bool" where
  "sized_fits n fits v \<longleftrightarrow> list_all fits v \<and> length v = n"

context codec
begin

lemma codes_sized: "sized_fits n fits v \<Longrightarrow> codes (save_sized n save v) (load_sized n load) v"
  using codes_elements [of v]
  by (auto simp: sized_fits_def save_sized_def load_sized_def save_guard_def codes_def save_all_Some)

lemma codec_sized: "codec (save_sized n save) (load_sized n load) (sized_fits n fits)"
  using codes_sized by unfold_locales

end

context nonempty_codec
begin

lemma codes_container: "container_fits fits v \<Longrightarrow> codes (save_container save v) (load_container load) v"
proof -
  assume fits: "container_fits fits v"
  then have cnt: "unat (word_of_nat (length v) :: u64) = length v"
    by (simp add: container_fits_def unat_length_u64)
  have "codes (save_all (map save v)) (load_bind (load_remaining (length v)) (\<lambda>_. load_elements load (length v))) v"
    using fits by (intro codes_remaining codes_elements length_save_elements) (auto simp: container_fits_def)
  with cnt show ?thesis
    unfolding save_container_def load_container_def by (intro codes_Cons [OF codes_varint]) simp
qed

lemma codec_container: "nonempty_codec (save_container save) (load_container load) (container_fits fits)"
  by unfold_locales (auto intro: codes_container, auto simp: save_container_def save_all_not_Nil save_varint_not_Nil)

end

end
