(* ===== verification/Cryptonote_Basic.thy ===== *)
theory Cryptonote_Basic
  imports Binary_Archive
begin

text \<open>
  The data of \<^verbatim>\<open>src/cryptonote_basic/cryptonote_basic.h\<close> up to the transaction prefix,
  with the serializers that its macros define: addresses, the headers and signatures of RTA
  transactions, inputs, outputs and transaction prefixes. Keys, hashes and key images are
  blobs of 32 bytes and signatures blobs of 64 bytes.
\<close>

section \<open>Variants\<close>

text \<open>
  A \<^verbatim>\<open>boost::variant\<close> (\<^verbatim>\<open>src/serialization/variant.h\<close>) is written as its tag
  and its value; the loader dispatches on the tag and fails for an unknown one.
\<close>

definition save_tagged :: "u8 \<Rightarrow> byte list option \<Rightarrow> byte list option" where
  "save_tagged tag s = save_all [save_uint tag, s]"

definition load_fail :: "'a loader" where
  "load_fail bs = None"

definition load_tagged :: "(u8 \<times> 'a loader) list \<Rightarrow> 'a loader" where
  "load_tagged alternatives =
     load_bind load_uint (\<lambda>t :: u8. case map_of alternatives t of None \<Rightarrow> load_fail | Some load \<Rightarrow> load)"

text \<open>The loader of an alternative with one or more fields, as a function of the loaded fields.\<close>

definition load_map :: "('a \<Rightarrow> 'b) \<Rightarrow> 'a loader \<Rightarrow> 'b loader" where
  "load_map f load = load_bind load (\<lambda>x. load_return (f x))"

lemma codes_map: "codes s load x \<Longrightarrow> y = f x \<Longrightarrow> codes s (load_map f load) y"
  by (auto simp: codes_def load_map_def load_bind_def load_return_def)

lemma codes_tagged:
  "codes s (case map_of alternatives tag of None \<Rightarrow> load_fail | Some load \<Rightarrow> load) x \<Longrightarrow>
   codes (save_tagged tag s) (load_tagged alternatives) x"
  unfolding save_tagged_def load_tagged_def
  by (rule codes_Cons [OF u8_codec.codes]) (auto simp: codes_def save_all_Some save_all.simps(1))

lemma save_tagged_not_Nil: "save_tagged tag s \<noteq> Some []"
  unfolding save_tagged_def by (intro save_all_not_Nil save_uint_not_Nil) simp

section \<open>Addresses and RTA data\<close>

record account_public_address =
  m_spend_public_key :: blob
  m_view_public_key :: blob

definition save_address :: "account_public_address saver" where
  "save_address a = save_all [save_blob (m_spend_public_key a), save_blob (m_view_public_key a)]"

definition load_address :: "account_public_address loader" where
  "load_address =
     load_bind (load_blob 32) (\<lambda>spend.
     load_bind (load_blob 32) (\<lambda>view.
     load_return \<lparr>m_spend_public_key = spend, m_view_public_key = view\<rparr>))"

definition address_fits :: "account_public_address \<Rightarrow> bool" where
  "address_fits a \<longleftrightarrow> blob_fits 32 (m_spend_public_key a) \<and> blob_fits 32 (m_view_public_key a)"

interpretation address_codec: nonempty_codec save_address load_address address_fits
proof
  show "codes (save_address a) load_address a" if "address_fits a" for a
    using that unfolding save_address_def load_address_def address_fits_def
    by (elim conjE) (rule codes_Cons codes_ret key_codec.codes | simp)+
  show "save_address a \<noteq> Some []" if "address_fits a" for a
    unfolding save_address_def using that key_codec.save_not_Nil
    by (intro save_all_not_Nil) (auto simp: address_fits_def)
qed

record rta_header =
  rta_payment_id :: string
  auth_sample_height :: u64
  rta_keys :: "blob list"

definition save_rta_header :: "rta_header saver" where
  "save_rta_header h =
     save_all [save_string (rta_payment_id h), save_uint (auth_sample_height h), save_container save_blob (rta_keys h)]"

definition load_rta_header :: "rta_header loader" where
  "load_rta_header =
     load_bind load_string (\<lambda>payment_id.
     load_bind load_uint (\<lambda>height.
     load_bind (load_container (load_blob 32)) (\<lambda>keys.
     load_return \<lparr>rta_payment_id = payment_id, auth_sample_height = height, rta_keys = keys\<rparr>)))"

definition rta_header_fits :: "rta_header \<Rightarrow> bool" where
  "rta_header_fits h \<longleftrightarrow> string_fits (rta_payment_id h) \<and> container_fits (blob_fits 32) (rta_keys h)"

interpretation rta_header_codec: nonempty_codec save_rta_header load_rta_header rta_header_fits
proof
  show "codes (save_rta_header h) load_rta_header h" if "rta_header_fits h" for h
    using that unfolding save_rta_header_def load_rta_header_def rta_header_fits_def
    by (elim conjE) (rule codes_Cons codes_ret string_codec.codes u64_codec.codes key_codec.codes_container | simp)+
  show "save_rta_header h \<noteq> Some []" if "rta_header_fits h" for h
    unfolding save_rta_header_def using that string_codec.save_not_Nil
    by (intro save_all_not_Nil) (auto simp: rta_header_fits_def)
qed

record rta_signature =
  rta_key_index :: u64
  rta_signature_data :: blob

definition save_rta_signature :: "rta_signature saver" where
  "save_rta_signature s = save_all [save_uint (rta_key_index s), save_blob (rta_signature_data s)]"

definition load_rta_signature :: "rta_signature loader" where
  "load_rta_signature =
     load_bind load_uint (\<lambda>key_index.
     load_bind (load_blob 64) (\<lambda>signature.
     load_return \<lparr>rta_key_index = key_index, rta_signature_data = signature\<rparr>))"

definition rta_signature_fits :: "rta_signature \<Rightarrow> bool" where
  "rta_signature_fits s \<longleftrightarrow> blob_fits 64 (rta_signature_data s)"

interpretation rta_signature_codec: nonempty_codec save_rta_signature load_rta_signature rta_signature_fits
proof
  show "codes (save_rta_signature s) load_rta_signature s" if "rta_signature_fits s" for s
    using that unfolding save_rta_signature_def load_rta_signature_def rta_signature_fits_def
    by - (rule codes_Cons codes_ret u64_codec.codes signature_codec.codes | simp)+
  show "save_rta_signature s \<noteq> Some []" for s
    unfolding save_rta_signature_def by (intro save_all_not_Nil save_uint_not_Nil) simp
qed

section \<open>Inputs and outputs\<close>

text \<open>Vectors of bytes and of 64-bit integers: the elements of the latter are varints.\<close>

definition save_bytes :: "byte list saver" where
  "save_bytes = save_container save_uint"

definition load_bytes :: "byte list loader" where
  "load_bytes = load_container load_uint"

definition save_u64s :: "u64 list saver" where
  "save_u64s = save_container save_varint"

definition load_u64s :: "u64 list loader" where
  "load_u64s = load_container load_varint"

definition vector_fits :: "'a list \<Rightarrow> bool" where
  "vector_fits v \<longleftrightarrow> length v < 2 ^ 64"

interpretation u64_varint_codec: nonempty_codec "save_varint :: u64 saver" load_varint "\<lambda>_. True"
  by (rule varint_codec)

interpretation bytes_codec: nonempty_codec save_bytes load_bytes vector_fits
  using u8_codec.codec_container
  by (simp add: save_bytes_def load_bytes_def vector_fits_def [abs_def] container_fits_def [abs_def] list_all_iff)

interpretation u64s_codec: nonempty_codec save_u64s load_u64s vector_fits
  using u64_varint_codec.codec_container
  by (simp add: save_u64s_def load_u64s_def vector_fits_def [abs_def] container_fits_def [abs_def] list_all_iff)

record script =
  script_keys :: "blob list"
  script_code :: "byte list"

datatype txout_target_v =
    txout_to_script script
  | txout_to_scripthash hash
  | txout_to_key blob

datatype txin_v =
    txin_gen u64
  | txin_to_script hash u64 "byte list"
  | txin_to_scripthash hash u64 script "byte list"
  | txin_to_key u64 "u64 list" blob

record tx_out =
  out_amount :: u64
  out_target :: txout_target_v

definition save_script :: "script saver" where
  "save_script s = save_all [save_container save_blob (script_keys s), save_bytes (script_code s)]"

definition load_script :: "script loader" where
  "load_script =
     load_bind (load_container (load_blob 32)) (\<lambda>keys.
     load_bind load_bytes (\<lambda>code.
     load_return \<lparr>script_keys = keys, script_code = code\<rparr>))"

fun save_target :: "txout_target_v saver" where
  "save_target (txout_to_script s) = save_tagged 0x0 (save_script s)"
| "save_target (txout_to_scripthash h) = save_tagged 0x1 (save_blob h)"
| "save_target (txout_to_key k) = save_tagged 0x2 (save_blob k)"

definition load_target :: "txout_target_v loader" where
  "load_target = load_tagged
     [(0x0, load_map txout_to_script load_script),
      (0x1, load_map txout_to_scripthash (load_blob 32)),
      (0x2, load_map txout_to_key (load_blob 32))]"

definition save_tx_out :: "tx_out saver" where
  "save_tx_out out = save_all [save_varint (out_amount out), save_target (out_target out)]"

definition load_tx_out :: "tx_out loader" where
  "load_tx_out =
     load_bind load_varint (\<lambda>amount.
     load_bind load_target (\<lambda>target.
     load_return \<lparr>out_amount = amount, out_target = target\<rparr>))"

fun save_txin :: "txin_v saver" where
  "save_txin (txin_gen height) = save_tagged 0xff (save_all [save_varint height])"
| "save_txin (txin_to_script prev prevout sigset) =
     save_tagged 0x0 (save_all [save_blob prev, save_varint prevout, save_bytes sigset])"
| "save_txin (txin_to_scripthash prev prevout s sigset) =
     save_tagged 0x1 (save_all [save_blob prev, save_varint prevout, save_script s, save_bytes sigset])"
| "save_txin (txin_to_key amount key_offsets k_image) =
     save_tagged 0x2 (save_all [save_varint amount, save_u64s key_offsets, save_blob k_image])"

definition load_txin :: "txin_v loader" where
  "load_txin = load_tagged
     [(0xff, load_bind load_varint (\<lambda>height. load_return (txin_gen height))),
      (0x0, load_bind (load_blob 32) (\<lambda>prev. load_bind load_varint (\<lambda>prevout. load_bind load_bytes (\<lambda>sigset.
              load_return (txin_to_script prev prevout sigset))))),
      (0x1, load_bind (load_blob 32) (\<lambda>prev. load_bind load_varint (\<lambda>prevout. load_bind load_script (\<lambda>s.
              load_bind load_bytes (\<lambda>sigset. load_return (txin_to_scripthash prev prevout s sigset)))))),
      (0x2, load_bind load_varint (\<lambda>amount. load_bind load_u64s (\<lambda>key_offsets. load_bind (load_blob 32) (\<lambda>k_image.
              load_return (txin_to_key amount key_offsets k_image)))))]"

definition script_fits :: "script \<Rightarrow> bool" where
  "script_fits s \<longleftrightarrow> container_fits (blob_fits 32) (script_keys s) \<and> vector_fits (script_code s)"

fun target_fits :: "txout_target_v \<Rightarrow> bool" where
  "target_fits (txout_to_script s) = script_fits s"
| "target_fits (txout_to_scripthash h) = blob_fits 32 h"
| "target_fits (txout_to_key k) = blob_fits 32 k"

fun txin_fits :: "txin_v \<Rightarrow> bool" where
  "txin_fits (txin_gen height) = True"
| "txin_fits (txin_to_script prev prevout sigset) = (blob_fits 32 prev \<and> vector_fits sigset)"
| "txin_fits (txin_to_scripthash prev prevout s sigset) = (blob_fits 32 prev \<and> script_fits s \<and> vector_fits sigset)"
| "txin_fits (txin_to_key amount key_offsets k_image) = (vector_fits key_offsets \<and> blob_fits 32 k_image)"

lemma codes_script: "script_fits s \<Longrightarrow> codes (save_script s) load_script s"
  unfolding save_script_def load_script_def script_fits_def
  by (elim conjE) (rule codes_Cons codes_ret key_codec.codes_container bytes_codec.codes | simp)+

interpretation target_codec: nonempty_codec save_target load_target target_fits
proof
  show "codes (save_target t) load_target t" if "target_fits t" for t
    using that unfolding load_target_def
    by (cases t; simp; intro codes_tagged; simp) (rule codes_map codes_script key_codec.codes | simp)+
  show "save_target t \<noteq> Some []" for t
    by (cases t) (simp_all add: save_tagged_not_Nil)
qed

definition tx_out_fits :: "tx_out \<Rightarrow> bool" where
  "tx_out_fits out \<longleftrightarrow> target_fits (out_target out)"

interpretation tx_out_codec: nonempty_codec save_tx_out load_tx_out tx_out_fits
proof
  show "codes (save_tx_out out) load_tx_out out" if "tx_out_fits out" for out
    using that unfolding save_tx_out_def load_tx_out_def tx_out_fits_def
    by - (rule codes_Cons codes_ret codes_varint target_codec.codes | simp)+
  show "save_tx_out out \<noteq> Some []" for out
    unfolding save_tx_out_def by (intro save_all_not_Nil save_varint_not_Nil)
qed

interpretation txin_codec: nonempty_codec save_txin load_txin txin_fits
proof
  show "codes (save_txin i) load_txin i" if "txin_fits i" for i
    using that unfolding load_txin_def
    by (cases i; simp; intro codes_tagged; simp)
      (rule codes_Cons codes_ret codes_varint codes_script key_codec.codes bytes_codec.codes u64s_codec.codes | simp)+
  show "save_txin i \<noteq> Some []" for i
    by (cases i) (simp_all add: save_tagged_not_Nil)
qed

section \<open>Transaction prefixes\<close>

definition CURRENT_TRANSACTION_VERSION :: u64 where
  "CURRENT_TRANSACTION_VERSION = 3"

record transaction_prefix =
  version :: u64
  unlock_time :: u64
  vin :: "txin_v list"
  vout :: "tx_out list"
  extra :: "byte list"

definition version_supported :: "u64 \<Rightarrow> bool" where
  "version_supported v = (\<not> (v = 0 \<or> CURRENT_TRANSACTION_VERSION < v))"

definition save_transaction_prefix :: "transaction_prefix saver" where
  "save_transaction_prefix p =
     save_all [save_varint (version p), save_guard (version_supported (version p)), save_varint (unlock_time p),
       save_container save_txin (vin p), save_container save_tx_out (vout p), save_bytes (extra p)]"

definition load_transaction_prefix :: "transaction_prefix loader" where
  "load_transaction_prefix =
     load_bind load_varint (\<lambda>v.
     load_bind (load_guard (version_supported v)) (\<lambda>_.
     load_bind load_varint (\<lambda>time.
     load_bind (load_container load_txin) (\<lambda>ins.
     load_bind (load_container load_tx_out) (\<lambda>outs.
     load_bind load_bytes (\<lambda>ex.
     load_return \<lparr>version = v, unlock_time = time, vin = ins, vout = outs, extra = ex\<rparr>))))))"

definition prefix_fits :: "transaction_prefix \<Rightarrow> bool" where
  "prefix_fits p \<longleftrightarrow> version_supported (version p) \<and> container_fits txin_fits (vin p) \<and>
     container_fits tx_out_fits (vout p) \<and> vector_fits (extra p)"

interpretation prefix_codec: nonempty_codec save_transaction_prefix load_transaction_prefix prefix_fits
proof
  show "codes (save_transaction_prefix p) load_transaction_prefix p" if "prefix_fits p" for p
    using that unfolding save_transaction_prefix_def load_transaction_prefix_def prefix_fits_def
    by (elim conjE) (rule codes_Cons codes_ret codes_varint codes_guard txin_codec.codes_container
      tx_out_codec.codes_container bytes_codec.codes | simp)+
  show "save_transaction_prefix p \<noteq> Some []" for p
    unfolding save_transaction_prefix_def by (intro save_all_not_Nil save_varint_not_Nil)
qed

end
