(* ===== verification/Stake_Transaction_Storage.thy ===== *)
theory Stake_Transaction_Storage
  imports Graft_Config Interfaces Cryptonote_Basic
begin

text \<open>
  Model of \<^verbatim>\<open>src/cryptonote_core/stake_transaction_storage.{h,cpp}\<close>: the storage
  of the stake transactions found on the blockchain, the window of hashes of the blocks
  processed last, and the table of supernode stakes derived from the transactions.
  Every \<^verbatim>\<open>uint64_t\<close> and \<^verbatim>\<open>size_t\<close> member is a 64-bit word, so
  that the arithmetic wraps as in the code; \<^verbatim>\<open>std::vector\<close> and
  \<^verbatim>\<open>std::list\<close> are lists and the index map is a partial function.
\<close>

section \<open>Data\<close>

record stake_transaction =
  tx_hash :: hash
  tx_amount :: u64
  tx_block_height :: u64
  tx_unlock_time :: u64
  tx_supernode_public_id :: string
  tx_supernode_public_address :: account_public_address
  tx_supernode_signature :: blob
  tx_secret_key :: blob

record supernode_stake =
  stake_amount :: u64
  stake_tier :: nat
  stake_block_height :: u64
  stake_unlock_time :: u64
  stake_public_id :: string
  stake_public_address :: account_public_address

record stake_storage =
  m_storage_file_name :: string
  m_last_processed_block_index :: u64
  m_last_processed_block_hashes :: "hash list"
  m_last_processed_block_hashes_count :: u64
  m_stake_txs :: "stake_transaction list"
  m_supernode_stakes_update_block_number :: u64
  m_supernode_stakes :: "supernode_stake list"
  m_supernode_stake_indexes :: "string \<rightharpoonup> nat"
  m_first_block_number :: u64
  m_need_store :: bool

text \<open>The exceptions the storage, the list and the processor throw.\<close>

datatype stake_error =
    Empty_hash_array
  | Not_next_block_index
  | Not_next_block_height
  | Tier_not_present
  | Storages_already_initialized
  | Block_hash_not_found
  | Parse_failed
  | File_not_readable
  | File_not_saved
  | Out_of_range
  | Null_pointer

definition BLOCK_HASHES_HISTORY_DEPTH :: u64 where
  [config_defs]: "BLOCK_HASHES_HISTORY_DEPTH = 1000"

section \<open>Stake transactions and blocks\<close>

definition is_valid :: "stake_transaction \<Rightarrow> u64 \<Rightarrow> bool" where
  "is_valid tx block_index =
     (let stake_first_valid_block = tx_block_height tx + STAKE_VALIDATION_PERIOD;
          stake_last_valid_block = tx_block_height tx + tx_unlock_time tx + TRUSTED_RESTAKING_PERIOD
      in if block_index < stake_first_valid_block then False
         else if stake_last_valid_block \<le> block_index then False
         else True)"

text \<open>The constructor without the file: \<open>load\<close> is modelled with the serialized form.\<close>

definition new_stake_storage :: "string \<Rightarrow> u64 \<Rightarrow> stake_storage" where
  "new_stake_storage storage_file_name first_block_number =
     \<lparr>m_storage_file_name = storage_file_name,
      m_last_processed_block_index = first_block_number,
      m_last_processed_block_hashes = [],
      m_last_processed_block_hashes_count = 0,
      m_stake_txs = [],
      m_supernode_stakes_update_block_number = 0,
      m_supernode_stakes = [],
      m_supernode_stake_indexes = Map.empty,
      m_first_block_number = first_block_number,
      m_need_store = False\<rparr>"

definition get_tx_count :: "stake_storage \<Rightarrow> nat" where
  "get_tx_count s = length (m_stake_txs s)"

definition has_last_processed_block :: "stake_storage \<Rightarrow> bool" where
  "has_last_processed_block s = (0 < m_last_processed_block_hashes_count s)"

definition add_tx :: "stake_transaction \<Rightarrow> stake_storage \<Rightarrow> stake_storage" where
  "add_tx tx s = s\<lparr>m_stake_txs := m_stake_txs s @ [tx], m_need_store := True\<rparr>"

definition get_last_processed_block_hash :: "stake_storage \<Rightarrow> stake_error + hash" where
  "get_last_processed_block_hash s =
     (if m_last_processed_block_hashes s = [] then Inl Empty_hash_array
      else Inr (last (m_last_processed_block_hashes s)))"

definition add_last_processed_block :: "u64 \<Rightarrow> hash \<Rightarrow> stake_storage \<Rightarrow> stake_error + stake_storage" where
  "add_last_processed_block index hash s =
     (if index \<noteq> m_last_processed_block_index s + 1 then Inl Not_next_block_index
      else
        let s = s\<lparr>m_need_store := True,
                  m_last_processed_block_hashes := m_last_processed_block_hashes s @ [hash]\<rparr>;
            s = (if m_last_processed_block_hashes_count s < BLOCK_HASHES_HISTORY_DEPTH
                 then s\<lparr>m_last_processed_block_hashes_count := m_last_processed_block_hashes_count s + 1\<rparr>
                 else s\<lparr>m_last_processed_block_hashes := tl (m_last_processed_block_hashes s)\<rparr>)
        in Inr (s\<lparr>m_last_processed_block_index := index\<rparr>))"

definition remove_last_processed_block :: "stake_storage \<Rightarrow> stake_storage" where
  "remove_last_processed_block s =
     (if m_last_processed_block_hashes_count s = 0 then s
      else
        let s = s\<lparr>m_need_store := True,
                  m_stake_txs := filter (\<lambda>tx. \<not> tx_block_height tx = m_last_processed_block_index s) (m_stake_txs s)\<rparr>;
            s = s\<lparr>m_last_processed_block_hashes_count := m_last_processed_block_hashes_count s - 1,
                  m_last_processed_block_index := m_last_processed_block_index s - 1,
                  m_last_processed_block_hashes := butlast (m_last_processed_block_hashes s)\<rparr>
        in if m_last_processed_block_hashes s = []
           then s\<lparr>m_stake_txs := [], m_last_processed_block_index := m_first_block_number s\<rparr>
           else s)"

section \<open>Supernode stakes\<close>

definition clear_supernode_stakes :: "stake_storage \<Rightarrow> stake_storage" where
  "clear_supernode_stakes s =
     s\<lparr>m_supernode_stakes := [], m_supernode_stake_indexes := Map.empty,
       m_supernode_stakes_update_block_number := 0\<rparr>"

definition get_tier :: "u64 \<Rightarrow> nat" where
  "get_tier stake =
     0 +
     of_bool (TIER1_STAKE_AMOUNT \<le> stake) +
     of_bool (TIER2_STAKE_AMOUNT \<le> stake) +
     of_bool (TIER3_STAKE_AMOUNT \<le> stake) +
     of_bool (TIER4_STAKE_AMOUNT \<le> stake)"

type_synonym stake_table = "supernode_stake list \<times> (string \<rightharpoonup> nat)"

text \<open>
  The body of the loop of \<open>update_supernode_stakes\<close> for one transaction; a
  \<^verbatim>\<open>continue\<close> of the code is a branch that returns the table. The three updates of
  an existing stake are: skip (obsolete transaction), set (the stake was entered for an
  obsolete transaction), accumulate.
\<close>

definition tx_min_block_height :: "stake_transaction \<Rightarrow> u64" where
  "tx_min_block_height tx = tx_block_height tx + STAKE_VALIDATION_PERIOD"

definition tx_max_block_height :: "stake_transaction \<Rightarrow> u64" where
  "tx_max_block_height tx = tx_block_height tx + tx_unlock_time tx + TRUSTED_RESTAKING_PERIOD"

definition new_supernode_stake :: "bool \<Rightarrow> stake_transaction \<Rightarrow> supernode_stake" where
  "new_supernode_stake obsolete_stake tx =
     (if obsolete_stake
      then \<lparr>stake_amount = 0, stake_tier = 0, stake_block_height = 0, stake_unlock_time = 0,
            stake_public_id = tx_supernode_public_id tx,
            stake_public_address = tx_supernode_public_address tx\<rparr>
      else \<lparr>stake_amount = tx_amount tx, stake_tier = get_tier (tx_amount tx),
            stake_block_height = tx_min_block_height tx,
            stake_unlock_time = tx_max_block_height tx - tx_min_block_height tx,
            stake_public_id = tx_supernode_public_id tx,
            stake_public_address = tx_supernode_public_address tx\<rparr>)"

definition set_stake :: "stake_transaction \<Rightarrow> supernode_stake \<Rightarrow> supernode_stake" where
  "set_stake tx stake =
     stake\<lparr>stake_amount := tx_amount tx, stake_tier := get_tier (tx_amount tx),
           stake_block_height := tx_min_block_height tx,
           stake_unlock_time := tx_max_block_height tx - tx_min_block_height tx\<rparr>"

definition accumulate_stake :: "stake_transaction \<Rightarrow> supernode_stake \<Rightarrow> supernode_stake" where
  "accumulate_stake tx stake =
     (let stake = stake\<lparr>stake_amount := stake_amount stake + tx_amount tx\<rparr>;
          stake = stake\<lparr>stake_tier := get_tier (stake_amount stake)\<rparr>;
          min_block_height = stake_block_height stake;
          max_block_height = min_block_height + stake_unlock_time stake;
          min_block_height = (if min_block_height < tx_min_block_height tx
                              then tx_min_block_height tx else min_block_height);
          max_block_height = (if tx_max_block_height tx < max_block_height
                              then tx_max_block_height tx else max_block_height);
          max_block_height = (if max_block_height \<le> min_block_height
                              then min_block_height else max_block_height)
      in stake\<lparr>stake_block_height := min_block_height,
               stake_unlock_time := max_block_height - min_block_height\<rparr>)"

definition is_obsolete_stake :: "u64 \<Rightarrow> stake_transaction \<Rightarrow> bool" where
  "is_obsolete_stake block_number tx = (\<not> is_valid tx block_number)"

definition is_forgotten_stake :: "u64 \<Rightarrow> stake_transaction \<Rightarrow> bool" where
  "is_forgotten_stake block_number tx =
     (let first_history_block = block_number - SUPERNODE_HISTORY_SIZE
      in tx_block_height tx + tx_unlock_time tx < first_history_block)"

definition add_stake_tx :: "u64 \<Rightarrow> stake_transaction \<Rightarrow> stake_table \<Rightarrow> stake_table" where
  "add_stake_tx block_number tx table =
     (case table of (stakes, indexes) \<Rightarrow>
        if is_obsolete_stake block_number tx \<and> is_forgotten_stake block_number tx then (stakes, indexes)
        else
          let obsolete_stake = is_obsolete_stake block_number tx
          in case indexes (tx_supernode_public_id tx) of
               None \<Rightarrow>
                 (let stakes = stakes @ [new_supernode_stake obsolete_stake tx]
                  in (stakes, indexes(tx_supernode_public_id tx \<mapsto> length stakes - 1)))
             | Some i \<Rightarrow>
                 if obsolete_stake then (stakes, indexes)
                 else if stake_amount (stakes ! i) = 0 then (stakes[i := set_stake tx (stakes ! i)], indexes)
                 else (stakes[i := accumulate_stake tx (stakes ! i)], indexes))"

definition build_stakes :: "u64 \<Rightarrow> stake_transaction list \<Rightarrow> stake_table" where
  "build_stakes block_number txs = fold (add_stake_tx block_number) txs ([], Map.empty)"

definition update_supernode_stakes :: "u64 \<Rightarrow> stake_storage \<Rightarrow> stake_storage" where
  "update_supernode_stakes block_number s =
     (if block_number = m_supernode_stakes_update_block_number s then s
      else
        let (stakes, indexes) = build_stakes block_number (m_stake_txs s)
        in s\<lparr>m_supernode_stakes := stakes, m_supernode_stake_indexes := indexes,
             m_supernode_stakes_update_block_number := block_number\<rparr>)"

definition get_supernode_stakes :: "u64 \<Rightarrow> stake_storage \<Rightarrow> supernode_stake list \<times> stake_storage" where
  "get_supernode_stakes block_number s =
     (let s = update_supernode_stakes block_number s in (m_supernode_stakes s, s))"

definition find_supernode_stake :: "u64 \<Rightarrow> string \<Rightarrow> stake_storage \<Rightarrow> supernode_stake option \<times> stake_storage" where
  "find_supernode_stake block_number supernode_public_id s =
     (let s = update_supernode_stakes block_number s
      in (case m_supernode_stake_indexes s supernode_public_id of
            None \<Rightarrow> None
          | Some i \<Rightarrow> Some (m_supernode_stakes s ! i), s))"

section \<open>Specification of the stake table\<close>

text \<open>
  \<open>table_lookup\<close> is the abstract view of the vector of stakes and its index map: a map
  from supernode ids to stakes. \<open>stake_step\<close> is what one transaction does to the stake of
  its own supernode, with no vector and no index map.
\<close>

definition table_lookup :: "stake_table \<Rightarrow> string \<Rightarrow> supernode_stake option" where
  "table_lookup table pid = (case table of (stakes, indexes) \<Rightarrow>
     (case indexes pid of None \<Rightarrow> None | Some i \<Rightarrow> Some (stakes ! i)))"

definition table_inv :: "stake_table \<Rightarrow> bool" where
  "table_inv table = (case table of (stakes, indexes) \<Rightarrow>
     (\<forall>pid i. indexes pid = Some i \<longleftrightarrow> i < length stakes \<and> stake_public_id (stakes ! i) = pid))"

definition stake_step :: "u64 \<Rightarrow> stake_transaction \<Rightarrow> supernode_stake option \<Rightarrow> supernode_stake option" where
  "stake_step block_number tx so =
     (if is_obsolete_stake block_number tx
      then (if is_forgotten_stake block_number tx \<or> so \<noteq> None then so
            else Some (new_supernode_stake True tx))
      else case so of
             None \<Rightarrow> Some (new_supernode_stake False tx)
           | Some stake \<Rightarrow>
               if stake_amount stake = 0 then Some (set_stake tx stake)
               else Some (accumulate_stake tx stake))"

definition valid_txs :: "u64 \<Rightarrow> stake_transaction list \<Rightarrow> stake_transaction list" where
  "valid_txs n txs = filter (\<lambda>tx. is_valid tx n) txs"

definition amounts_fit :: "u64 \<Rightarrow> stake_transaction list \<Rightarrow> bool" where
  "amounts_fit n txs \<longleftrightarrow>
     (\<forall>tx \<in> set (valid_txs n txs). tx_amount tx \<noteq> 0) \<and>
     (\<Sum>tx \<leftarrow> valid_txs n txs. unat (tx_amount tx)) < 2 ^ 64"

definition id_txs :: "string \<Rightarrow> stake_transaction list \<Rightarrow> stake_transaction list" where
  "id_txs pid txs = filter (\<lambda>tx. tx_supernode_public_id tx = pid) txs"

definition stake_wf :: "u64 \<Rightarrow> supernode_stake \<Rightarrow> bool" where
  "stake_wf n stake \<longleftrightarrow>
     stake_tier stake = get_tier (stake_amount stake) \<and>
     (stake_amount stake \<noteq> 0 \<longrightarrow>
        stake_block_height stake \<le> n \<and> n < stake_block_height stake + stake_unlock_time stake)"

definition amount_or_0 :: "supernode_stake option \<Rightarrow> u64" where
  "amount_or_0 so = (case so of None \<Rightarrow> 0 | Some stake \<Rightarrow> stake_amount stake)"

text \<open>
  The cached table is coherent when it is the one built for the block number it is labelled
  with; the label 0 means that nothing is cached.
\<close>

definition stakes_coherent :: "stake_storage \<Rightarrow> bool" where
  "stakes_coherent s \<longleftrightarrow>
     m_supernode_stakes_update_block_number s = 0 \<or>
     (m_supernode_stakes s, m_supernode_stake_indexes s) =
       build_stakes (m_supernode_stakes_update_block_number s) (m_stake_txs s)"

section \<open>Specification of the block log\<close>

definition storage_inv :: "stake_storage \<Rightarrow> bool" where
  "storage_inv s \<longleftrightarrow>
     unat (m_last_processed_block_hashes_count s) = length (m_last_processed_block_hashes s) \<and>
     length (m_last_processed_block_hashes s) \<le> unat BLOCK_HASHES_HISTORY_DEPTH \<and>
     unat (m_first_block_number s) + length (m_last_processed_block_hashes s)
       \<le> unat (m_last_processed_block_index s) \<and>
     (\<forall>tx \<in> set (m_stake_txs s). tx_block_height tx \<le> m_last_processed_block_index s) \<and>
     (m_last_processed_block_hashes s = [] \<longrightarrow>
        m_last_processed_block_index s = m_first_block_number s \<and> m_stake_txs s = [])"

definition storage_push :: "hash \<times> stake_transaction list \<Rightarrow> stake_storage \<Rightarrow> stake_error + stake_storage" where
  "storage_push b s = (case b of (h, txs) \<Rightarrow>
     add_last_processed_block (m_last_processed_block_index s + 1) h (fold add_tx txs s))"

definition storage_fits :: "hash \<times> stake_transaction list \<Rightarrow> stake_storage \<Rightarrow> bool" where
  "storage_fits b s \<longleftrightarrow>
     m_last_processed_block_index s \<noteq> - 1 \<and>
     (\<forall>tx \<in> set (snd b). tx_block_height tx = m_last_processed_block_index s + 1)"

definition storage_room :: "stake_storage \<Rightarrow> nat" where
  "storage_room s = unat BLOCK_HASHES_HISTORY_DEPTH - length (m_last_processed_block_hashes s)"

definition storage_view :: "stake_storage \<Rightarrow> u64 \<times> hash list \<times> u64 \<times> stake_transaction list \<times> u64" where
  "storage_view s = (m_last_processed_block_index s, m_last_processed_block_hashes s,
     m_last_processed_block_hashes_count s, m_stake_txs s, m_first_block_number s)"

section \<open>The stake table implements the specification\<close>

lemmas [op_defs] = is_valid_def tx_min_block_height_def tx_max_block_height_def

lemma is_valid_iff:
  "is_valid tx n \<longleftrightarrow> tx_min_block_height tx \<le> n \<and> n < tx_max_block_height tx"
  by (auto simp: op_defs Let_def not_less not_le)

lemma accumulate_stake_alt:
  "accumulate_stake tx stake =
     (let lo = max (stake_block_height stake) (tx_min_block_height tx);
          hi = max (min (stake_block_height stake + stake_unlock_time stake) (tx_max_block_height tx)) lo
      in stake\<lparr>stake_amount := stake_amount stake + tx_amount tx,
               stake_tier := get_tier (stake_amount stake + tx_amount tx),
               stake_block_height := lo, stake_unlock_time := hi - lo\<rparr>)"
  unfolding accumulate_stake_def if_max_min by (simp add: Let_def)

lemma accumulate_stake_simps [simp]:
  "stake_amount (accumulate_stake tx stake) = stake_amount stake + tx_amount tx"
  "stake_tier (accumulate_stake tx stake) = get_tier (stake_amount stake + tx_amount tx)"
  "stake_public_id (accumulate_stake tx stake) = stake_public_id stake"
  "stake_public_address (accumulate_stake tx stake) = stake_public_address stake"
  by (simp_all add: accumulate_stake_alt Let_def)

lemma stake_public_id_simps [simp]:
  "stake_public_id (new_supernode_stake b tx) = tx_supernode_public_id tx"
  "stake_public_id (set_stake tx stake) = stake_public_id stake"
  by (simp_all add: new_supernode_stake_def set_stake_def)

lemma table_invD:
  assumes "table_inv (stakes, indexes)" and "indexes pid = Some i"
  shows "i < length stakes" and "stake_public_id (stakes ! i) = pid"
  using assms by (simp_all add: table_inv_def)

lemma table_inv_update:
  assumes "table_inv (stakes, indexes)" and "stake_public_id x = stake_public_id (stakes ! i)"
  shows "table_inv (stakes[i := x], indexes)"
proof -
  have "stake_public_id (stakes[i := x] ! j) = stake_public_id (stakes ! j)" if "j < length stakes" for j
    using that assms(2) by (cases "i = j") simp_all
  with assms(1) show ?thesis
    by (auto simp: table_inv_def)
qed

lemma table_inv_append:
  assumes "table_inv (stakes, indexes)" and "indexes (stake_public_id x) = None"
  shows "table_inv (stakes @ [x], indexes(stake_public_id x \<mapsto> length stakes))"
proof -
  have "indexes (stake_public_id (stakes ! i)) = Some i" if "i < length stakes" for i
    using that assms(1) by (simp add: table_inv_def)
  with assms(2) have fresh: "stake_public_id (stakes ! i) \<noteq> stake_public_id x" if "i < length stakes" for i
    using that by (metis option.distinct(1))
  have "(indexes(stake_public_id x \<mapsto> length stakes)) pid = Some i \<longleftrightarrow>
    i < length (stakes @ [x]) \<and> stake_public_id ((stakes @ [x]) ! i) = pid" for pid i
  proof (cases "i < length stakes")
    case True
    with assms(1) fresh [OF True] show ?thesis
      by (auto simp: table_inv_def nth_append)
  next
    case False
    with assms(1) show ?thesis
      by (auto simp: table_inv_def nth_append less_Suc_eq)
  qed
  then show ?thesis
    by (simp add: table_inv_def)
qed

lemma table_inv_add_stake_tx:
  assumes "table_inv table"
  shows "table_inv (add_stake_tx n tx table)"
proof -
  obtain stakes indexes where table: "table = (stakes, indexes)" by (cases table)
  show ?thesis
  proof (cases "indexes (tx_supernode_public_id tx)")
    case None
    with assms table_inv_append [of stakes indexes "new_supernode_stake (is_obsolete_stake n tx) tx"]
    show ?thesis by (simp add: table add_stake_tx_def Let_def)
  next
    case (Some i)
    with assms show ?thesis
      by (auto simp: table add_stake_tx_def Let_def intro: table_inv_update)
  qed
qed

lemma table_lookup_add_stake_tx:
  assumes "table_inv table"
  shows "table_lookup (add_stake_tx n tx table) pid =
    (if tx_supernode_public_id tx = pid then stake_step n tx (table_lookup table pid)
     else table_lookup table pid)"
proof -
  obtain stakes indexes where table: "table = (stakes, indexes)" by (cases table)
  show ?thesis
  proof (cases "indexes (tx_supernode_public_id tx)")
    case None
    with assms show ?thesis
      by (auto simp: table add_stake_tx_def table_lookup_def stake_step_def Let_def nth_append
          split: option.splits dest: table_invD)
  next
    case (Some i)
    note i = table_invD [OF assms [unfolded table] Some]
    have "indexes pid = Some j \<Longrightarrow> pid \<noteq> tx_supernode_public_id tx \<Longrightarrow> j \<noteq> i" for j
      using i table_invD [OF assms [unfolded table]] by auto
    with i Some show ?thesis
      by (auto simp: table add_stake_tx_def table_lookup_def stake_step_def Let_def
          split: option.splits)
  qed
qed

lemma table_inv_fold: "table_inv table \<Longrightarrow> table_inv (fold (add_stake_tx n) txs table)"
  by (induction txs arbitrary: table) (simp_all add: table_inv_add_stake_tx)

lemma table_lookup_fold:
  "table_inv table \<Longrightarrow>
   table_lookup (fold (add_stake_tx n) txs table) pid =
   fold (stake_step n) (filter (\<lambda>tx. tx_supernode_public_id tx = pid) txs) (table_lookup table pid)"
  by (induction txs arbitrary: table) (simp_all add: table_inv_add_stake_tx table_lookup_add_stake_tx)

lemma table_inv_empty: "table_inv ([], Map.empty)"
  by (simp add: table_inv_def)

lemma table_inv_build_stakes: "table_inv (build_stakes n txs)"
  by (simp add: build_stakes_def table_inv_fold table_inv_empty)

lemma table_lookup_build_stakes:
  "table_lookup (build_stakes n txs) pid =
   fold (stake_step n) (filter (\<lambda>tx. tx_supernode_public_id tx = pid) txs) None"
  by (simp add: build_stakes_def table_lookup_fold table_inv_empty) (simp add: table_lookup_def)

section \<open>Amounts and validity intervals\<close>

lemma get_tier_0 [simp]: "get_tier 0 = 0"
  by (simp add: get_tier_def config_defs)

lemma stake_wf_new: "b = (\<not> is_valid tx n) \<Longrightarrow> stake_wf n (new_supernode_stake b tx)"
  by (simp add: stake_wf_def new_supernode_stake_def is_valid_iff)

lemma stake_wf_set: "is_valid tx n \<Longrightarrow> stake_wf n (set_stake tx stake)"
  by (simp add: stake_wf_def set_stake_def is_valid_iff)

lemma accumulate_stake_interval:
  assumes "is_valid tx n" and "stake_block_height stake \<le> n"
    and "n < stake_block_height stake + stake_unlock_time stake"
  shows "stake_block_height (accumulate_stake tx stake) = max (stake_block_height stake) (tx_min_block_height tx)"
    and "stake_block_height (accumulate_stake tx stake) + stake_unlock_time (accumulate_stake tx stake) =
         min (stake_block_height stake + stake_unlock_time stake) (tx_max_block_height tx)"
proof -
  let ?lo = "max (stake_block_height stake) (tx_min_block_height tx)"
  let ?hi = "min (stake_block_height stake + stake_unlock_time stake) (tx_max_block_height tx)"
  have "?lo \<le> n" and "n < ?hi"
    using assms by (simp_all add: is_valid_iff)
  then have "?lo \<le> ?hi"
    by (rule order.trans [OF _ less_imp_le])
  then have hi: "max ?hi ?lo = ?hi"
    by (rule max_absorb1)
  show "stake_block_height (accumulate_stake tx stake) = ?lo"
    by (simp add: accumulate_stake_alt Let_def)
  show "stake_block_height (accumulate_stake tx stake) + stake_unlock_time (accumulate_stake tx stake) = ?hi"
    by (simp add: accumulate_stake_alt Let_def hi)
qed

lemma stake_wf_accumulate:
  assumes "is_valid tx n" and "stake_wf n stake" and "stake_amount stake \<noteq> 0"
  shows "stake_wf n (accumulate_stake tx stake)"
proof -
  have iv: "stake_block_height stake \<le> n" "n < stake_block_height stake + stake_unlock_time stake"
    using assms by (simp_all add: stake_wf_def)
  show ?thesis
    using iv assms(1) accumulate_stake_interval [OF assms(1) iv]
    by (simp add: stake_wf_def is_valid_iff)
qed


lemma stake_wf_step:
  assumes "\<And>stake. so = Some stake \<Longrightarrow> stake_wf n stake" and "stake_step n tx so = Some stake"
  shows "stake_wf n stake"
  using assms
  by (auto simp: stake_step_def is_obsolete_stake_def stake_wf_new stake_wf_set stake_wf_accumulate
      split: if_splits option.splits)

lemma stake_wf_fold:
  assumes "\<And>stake. so = Some stake \<Longrightarrow> stake_wf n stake" and "fold (stake_step n) txs so = Some stake"
  shows "stake_wf n stake"
  using assms
proof (induction txs arbitrary: so)
  case Nil
  then show ?case by simp
next
  case (Cons tx txs)
  have "stake_wf n stake'" if "stake_step n tx so = Some stake'" for stake'
    using stake_wf_step Cons.prems(1) that by blast
  with Cons.IH [of "stake_step n tx so"] Cons.prems(2) show ?case
    by simp
qed

lemma stake_amount_simps [simp]:
  "stake_amount (new_supernode_stake b tx) = (if b then 0 else tx_amount tx)"
  "stake_amount (set_stake tx stake) = tx_amount tx"
  by (simp_all add: new_supernode_stake_def set_stake_def)

lemma amount_or_0_step:
  "amount_or_0 (stake_step n tx so) = amount_or_0 so + (if is_valid tx n then tx_amount tx else 0)"
  by (auto simp: amount_or_0_def stake_step_def is_obsolete_stake_def split: option.splits)

lemma amount_or_0_fold:
  "amount_or_0 (fold (stake_step n) txs so) =
   amount_or_0 so + sum_list (map tx_amount (filter (\<lambda>tx. is_valid tx n) txs))"
  by (induction txs arbitrary: so) (simp_all add: amount_or_0_step add.assoc)

lemma stake_step_None_iff:
  "stake_step n tx so = None \<longleftrightarrow> so = None \<and> is_obsolete_stake n tx \<and> is_forgotten_stake n tx"
  by (auto simp: stake_step_def split: option.splits)

lemma fold_stake_step_None_iff:
  "fold (stake_step n) txs so = None \<longleftrightarrow>
   so = None \<and> (\<forall>tx \<in> set txs. is_obsolete_stake n tx \<and> is_forgotten_stake n tx)"
  by (induction txs arbitrary: so) (auto simp: stake_step_None_iff)

lemma valid_txs_snoc [simp]:
  "valid_txs n (txs @ [tx]) = valid_txs n txs @ (if is_valid tx n then [tx] else [])"
  by (simp add: valid_txs_def)

lemma amounts_fit_snocD: "amounts_fit n (txs @ [tx]) \<Longrightarrow> amounts_fit n txs"
  by (auto simp: amounts_fit_def split: if_splits)

lemma fold_stake_amount:
  assumes "fold (stake_step n) txs None = Some stake"
  shows "stake_amount stake = (\<Sum>tx \<leftarrow> valid_txs n txs. tx_amount tx)"
  using amount_or_0_fold [of n txs None] by (simp add: assms amount_or_0_def valid_txs_def)

lemma fold_stake_amount_nonzero:
  assumes "fold (stake_step n) txs None = Some stake"
    and "amounts_fit n txs" and "valid_txs n txs \<noteq> []"
  shows "stake_amount stake \<noteq> 0"
proof -
  obtain v where v: "v \<in> set (valid_txs n txs)"
    using assms(3) by (meson list.set_sel(1))
  have "unat (stake_amount stake) = (\<Sum>tx \<leftarrow> valid_txs n txs. unat (tx_amount tx))"
    using unat_sum_list [of "map tx_amount (valid_txs n txs)"] assms(2)
    by (simp add: fold_stake_amount [OF assms(1)] amounts_fit_def comp_def)
  moreover have "unat (tx_amount v) \<le> (\<Sum>tx \<leftarrow> valid_txs n txs. unat (tx_amount tx))"
    using v by (simp add: member_le_sum_list)
  moreover have "unat (tx_amount v) \<noteq> 0"
    using assms(2) v by (auto simp: amounts_fit_def unat_eq_zero)
  ultimately have "0 < unat (stake_amount stake)"
    by linarith
  then show ?thesis
    by auto
qed

lemma stake_step_simps:
  "is_valid tx n \<Longrightarrow> stake_step n tx None = Some (new_supernode_stake False tx)"
  "is_valid tx n \<Longrightarrow> stake_amount stake = 0 \<Longrightarrow> stake_step n tx (Some stake) = Some (set_stake tx stake)"
  "is_valid tx n \<Longrightarrow> stake_amount stake \<noteq> 0 \<Longrightarrow> stake_step n tx (Some stake) = Some (accumulate_stake tx stake)"
  "\<not> is_valid tx n \<Longrightarrow> stake_step n tx (Some stake) = Some stake"
  by (simp_all add: stake_step_def is_obsolete_stake_def)

lemma fold_stake_interval:
  assumes "amounts_fit n txs" and "valid_txs n txs \<noteq> []"
  shows "\<exists>stake. fold (stake_step n) txs None = Some stake \<and>
    stake_block_height stake = Max (tx_min_block_height ` set (valid_txs n txs)) \<and>
    stake_block_height stake + stake_unlock_time stake = Min (tx_max_block_height ` set (valid_txs n txs))"
  using assms
proof (induction txs rule: rev_induct)
  case Nil
  then show ?case by (simp add: valid_txs_def)
next
  case (snoc tx txs)
  let ?so = "fold (stake_step n) txs None"
  note fit = amounts_fit_snocD [OF snoc.prems(1)]
  consider (skip) "\<not> is_valid tx n" "valid_txs n txs \<noteq> []"
    | (first) "is_valid tx n" "valid_txs n txs = []"
    | (more) "is_valid tx n" "valid_txs n txs \<noteq> []"
    using snoc.prems(2) by (auto split: if_splits)
  then show ?case
  proof cases
    case skip
    with snoc.IH fit show ?thesis
      by (auto simp: stake_step_simps)
  next
    case first
    then have "amount_or_0 ?so = 0"
      using amount_or_0_fold [of n txs None] by (simp add: valid_txs_def amount_or_0_def)
    with first show ?thesis
      by (cases ?so) (simp_all add: amount_or_0_def stake_step_simps new_supernode_stake_def set_stake_def)
  next
    case more
    from snoc.IH [OF fit more(2)] obtain stake where so: "?so = Some stake"
      and lo: "stake_block_height stake = Max (tx_min_block_height ` set (valid_txs n txs))"
      and hi: "stake_block_height stake + stake_unlock_time stake = Min (tx_max_block_height ` set (valid_txs n txs))"
      by blast
    have nz: "stake_amount stake \<noteq> 0"
      by (rule fold_stake_amount_nonzero [OF so fit more(2)])
    then have iv: "stake_block_height stake \<le> n" "n < stake_block_height stake + stake_unlock_time stake"
      using stake_wf_fold [OF _ so] by (simp_all add: stake_wf_def)
    show ?thesis
      using more nz so accumulate_stake_interval [OF more(1) iv] lo hi
      by (simp add: stake_step_simps max.commute min.commute)
  qed
qed

section \<open>The block log can be unrolled\<close>

lemma fold_add_tx_simps [simp]:
  "m_stake_txs (fold add_tx txs s) = m_stake_txs s @ txs"
  "m_last_processed_block_index (fold add_tx txs s) = m_last_processed_block_index s"
  "m_last_processed_block_hashes (fold add_tx txs s) = m_last_processed_block_hashes s"
  "m_last_processed_block_hashes_count (fold add_tx txs s) = m_last_processed_block_hashes_count s"
  "m_first_block_number (fold add_tx txs s) = m_first_block_number s"
  by (induction txs arbitrary: s) (simp_all add: add_tx_def)

lemma add_last_processed_block_error_iff:
  "(\<exists>e. add_last_processed_block i h s = Inl e) \<longleftrightarrow> i \<noteq> m_last_processed_block_index s + 1"
  by (auto simp: add_last_processed_block_def Let_def)

lemma add_last_processed_block_fields:
  assumes "add_last_processed_block i h s = Inr t"
  shows "m_last_processed_block_index t = m_last_processed_block_index s + 1"
    and "m_stake_txs t = m_stake_txs s"
    and "m_first_block_number t = m_first_block_number s"
    and "m_last_processed_block_hashes t =
      (if m_last_processed_block_hashes_count s < BLOCK_HASHES_HISTORY_DEPTH
       then m_last_processed_block_hashes s @ [h] else tl (m_last_processed_block_hashes s @ [h]))"
    and "m_last_processed_block_hashes_count t =
      (if m_last_processed_block_hashes_count s < BLOCK_HASHES_HISTORY_DEPTH
       then m_last_processed_block_hashes_count s + 1 else m_last_processed_block_hashes_count s)"
  using assms by (auto simp: add_last_processed_block_def Let_def split: if_splits)

lemma unat_depth [simp]: "unat BLOCK_HASHES_HISTORY_DEPTH = 1000"
  by (simp add: config_defs)

lemma count_less_depth_iff:
  assumes "storage_inv s"
  shows "m_last_processed_block_hashes_count s < BLOCK_HASHES_HISTORY_DEPTH \<longleftrightarrow>
    length (m_last_processed_block_hashes s) < unat BLOCK_HASHES_HISTORY_DEPTH"
  using assms by (simp add: storage_inv_def word_less_nat_alt)

lemma storage_inv_push:
  assumes inv: "storage_inv s" and fits: "storage_fits (h, txs) s" and push: "storage_push (h, txs) s = Inr t"
  shows "storage_inv t"
proof -
  note t = add_last_processed_block_fields [OF push [unfolded storage_push_def prod.case], simplified]
  have inc: "unat (m_last_processed_block_index s + 1) = unat (m_last_processed_block_index s) + 1"
    using fits by (simp add: storage_fits_def unat_inc)
  have old: "tx_block_height tx \<le> m_last_processed_block_index s + 1" if "tx \<in> set (m_stake_txs s)" for tx
    using inv that inc by (auto simp: storage_inv_def word_le_nat_alt)
  have cnt: "unat (m_last_processed_block_hashes_count s + 1) = unat (m_last_processed_block_hashes_count s) + 1"
    if "m_last_processed_block_hashes_count s < BLOCK_HASHES_HISTORY_DEPTH"
    using that by (intro unat_inc) (auto simp: config_defs)
  show ?thesis
    using inv fits old inc cnt count_less_depth_iff [OF inv]
    by (auto simp: storage_inv_def storage_fits_def t)
qed


lemma remove_last_processed_block_fields:
  assumes "m_last_processed_block_hashes_count s \<noteq> 0"
  shows "storage_view (remove_last_processed_block s) =
    (if butlast (m_last_processed_block_hashes s) = []
     then (m_first_block_number s, [], m_last_processed_block_hashes_count s - 1, [], m_first_block_number s)
     else (m_last_processed_block_index s - 1, butlast (m_last_processed_block_hashes s),
       m_last_processed_block_hashes_count s - 1,
       filter (\<lambda>tx. tx_block_height tx \<noteq> m_last_processed_block_index s) (m_stake_txs s),
       m_first_block_number s))"
  using assms by (simp add: remove_last_processed_block_def storage_view_def Let_def)

lemma storage_view_pop_push:
  assumes inv: "storage_inv s" and fits: "storage_fits (h, txs) s" and push: "storage_push (h, txs) s = Inr t"
    and room: "0 < storage_room s"
  shows "storage_view (remove_last_processed_block t) = storage_view s"
proof -
  note t = add_last_processed_block_fields [OF push [unfolded storage_push_def prod.case], simplified]
  have lt: "m_last_processed_block_hashes_count s < BLOCK_HASHES_HISTORY_DEPTH"
    using room count_less_depth_iff [OF inv] by (simp add: storage_room_def)
  have inc: "unat (m_last_processed_block_index s + 1) = unat (m_last_processed_block_index s) + 1"
    using fits by (simp add: storage_fits_def unat_inc)
  have cnt: "m_last_processed_block_hashes_count t \<noteq> 0"
  proof -
    have "unat (m_last_processed_block_hashes_count s + 1) = unat (m_last_processed_block_hashes_count s) + 1"
      using lt by (intro unat_inc) (auto simp: config_defs)
    then show ?thesis
      using lt by (auto simp: t)
  qed
  have keep: "filter (\<lambda>tx. tx_block_height tx \<noteq> m_last_processed_block_index s + 1) (m_stake_txs s) = m_stake_txs s"
    using inv inc by (intro filter_id_if) (fastforce simp: storage_inv_def word_le_nat_alt)
  have drop: "filter (\<lambda>tx. tx_block_height tx \<noteq> m_last_processed_block_index s + 1) txs = []"
    using fits by (simp add: storage_fits_def)
  show ?thesis
    unfolding remove_last_processed_block_fields [OF cnt]
    using inv lt by (auto simp: t keep drop storage_view_def storage_inv_def)
qed

lemma storage_view_pop_cong:
  assumes "storage_view s = storage_view t"
  shows "storage_view (remove_last_processed_block s) = storage_view (remove_last_processed_block t)"
proof (cases "m_last_processed_block_hashes_count s = 0")
  case True
  with assms have "m_last_processed_block_hashes_count t = 0"
    by (simp add: storage_view_def)
  with True assms show ?thesis
    by (simp add: remove_last_processed_block_def)
next
  case False
  with assms have "m_last_processed_block_hashes_count t \<noteq> 0"
    by (simp add: storage_view_def)
  with False show ?thesis
    using assms by (simp add: remove_last_processed_block_fields) (simp add: storage_view_def)
qed

lemma storage_room_push:
  assumes "storage_inv s" and "storage_push (h, txs) s = Inr t"
  shows "storage_room s \<le> Suc (storage_room t)"
proof -
  note t = add_last_processed_block_fields [OF assms(2) [unfolded storage_push_def prod.case], simplified]
  show ?thesis unfolding storage_room_def t(4) by (cases "m_last_processed_block_hashes_count s < BLOCK_HASHES_HISTORY_DEPTH") simp_all
qed

interpretation storage_log: undo_log storage_push remove_last_processed_block storage_inv storage_fits
  storage_room storage_view
proof unfold_locales
  show "storage_inv s \<Longrightarrow> storage_fits b s \<Longrightarrow> storage_push b s = Inr t \<Longrightarrow> storage_inv t" for s b t
    by (cases b) (auto intro: storage_inv_push)
  show "storage_inv s \<Longrightarrow> storage_fits b s \<Longrightarrow> storage_push b s = Inr t \<Longrightarrow>
    storage_room s \<le> Suc (storage_room t)" for s b t
    by (cases b) (auto intro: storage_room_push)
  show "storage_inv s \<Longrightarrow> storage_fits b s \<Longrightarrow> storage_push b s = Inr t \<Longrightarrow> 0 < storage_room s \<Longrightarrow>
    storage_view (remove_last_processed_block t) = storage_view s" for s b t
    by (cases b) (auto intro: storage_view_pop_push)
qed (rule storage_view_pop_cong)

lemma storage_inv_cong: "storage_view s = storage_view t \<Longrightarrow> storage_inv s = storage_inv t"
  by (simp add: storage_view_def storage_inv_def)

lemma storage_inv_remove:
  assumes inv: "storage_inv s"
  shows "storage_inv (remove_last_processed_block s)"
proof (cases "m_last_processed_block_hashes_count s = 0")
  case True
  with inv show ?thesis by (simp add: remove_last_processed_block_def)
next
  case False
  let ?r = "remove_last_processed_block s"
  have idx0: "m_last_processed_block_index s \<noteq> 0"
    using inv False by (auto simp: storage_inv_def unat_eq_zero)
  then have idx: "unat (m_last_processed_block_index s - 1) = unat (m_last_processed_block_index s) - 1"
    by (rule unat_dec_pos)
  have cnt: "unat (m_last_processed_block_hashes_count s - 1) = unat (m_last_processed_block_hashes_count s) - 1"
    using False by (rule unat_dec_pos)
  have old: "tx_block_height tx \<le> m_last_processed_block_index s - 1"
    if "tx \<in> set (m_stake_txs s)" "tx_block_height tx \<noteq> m_last_processed_block_index s" for tx
  proof -
    have "unat (tx_block_height tx) < unat (m_last_processed_block_index s)"
      using inv that by (simp add: storage_inv_def word_le_nat_alt) (metis le_neq_implies_less word_unat_eq_iff)
    then show ?thesis by (simp add: word_le_nat_alt idx)
  qed
  have len: "1 \<le> length (m_last_processed_block_hashes s)"
    using inv False by (auto simp: storage_inv_def unat_eq_zero Suc_le_eq)
  show ?thesis
    using inv cnt idx old len remove_last_processed_block_fields [OF False]
    by (auto simp: storage_inv_def storage_view_def butlast_Nil_iff split: if_splits)
qed

section \<open>Reading the table through the cache\<close>

text \<open>
  What a reader of the stakes relies on: the ids of the stakes are distinct and a lookup
  finds exactly the stakes of the list.
\<close>

locale stake_index =
  fixes stakes :: "supernode_stake list"
    and find_stake :: "string \<Rightarrow> supernode_stake option"
  assumes distinct_ids: "distinct (map stake_public_id stakes)"
    and find_iff: "find_stake pid = Some stake \<longleftrightarrow> stake \<in> set stakes \<and> stake_public_id stake = pid"
begin

lemma find_None_iff: "find_stake pid = None \<longleftrightarrow> pid \<notin> stake_public_id ` set stakes"
  using find_iff by (metis image_iff option.exhaust option.distinct(1))

lemma find_self: "stake \<in> set stakes \<Longrightarrow> find_stake (stake_public_id stake) = Some stake"
  using find_iff by blast

end

lemma table_inv_distinct: "table_inv (stakes, indexes) \<Longrightarrow> distinct (map stake_public_id stakes)"
  by (simp add: distinct_conv_nth table_inv_def) (metis option.inject)

lemma table_lookup_iff:
  assumes "table_inv (stakes, indexes)"
  shows "table_lookup (stakes, indexes) pid = Some stake \<longleftrightarrow> stake \<in> set stakes \<and> stake_public_id stake = pid"
proof
  assume "table_lookup (stakes, indexes) pid = Some stake"
  then obtain i where "indexes pid = Some i" and "stakes ! i = stake"
    by (auto simp: table_lookup_def split: option.splits)
  with table_invD [OF assms] show "stake \<in> set stakes \<and> stake_public_id stake = pid"
    by (metis nth_mem)
next
  assume r: "stake \<in> set stakes \<and> stake_public_id stake = pid"
  then obtain i where "i < length stakes" and "stakes ! i = stake"
    by (metis in_set_conv_nth)
  with r assms have "indexes pid = Some i"
    by (simp add: table_inv_def)
  with \<open>stakes ! i = stake\<close> show "table_lookup (stakes, indexes) pid = Some stake"
    by (simp add: table_lookup_def)
qed

interpretation built: stake_index "fst (build_stakes n txs)" "table_lookup (build_stakes n txs)" for n txs
proof
  show "distinct (map stake_public_id (fst (build_stakes n txs)))"
    using table_inv_build_stakes [of n txs] table_inv_distinct by (metis prod.collapse)
  show "table_lookup (build_stakes n txs) pid = Some stake \<longleftrightarrow>
    stake \<in> set (fst (build_stakes n txs)) \<and> stake_public_id stake = pid" for pid stake
    using table_inv_build_stakes [of n txs] table_lookup_iff by (metis prod.collapse)
qed

lemma update_supernode_stakes_table:
  assumes "stakes_coherent s" and "n \<noteq> 0"
  shows "(m_supernode_stakes (update_supernode_stakes n s), m_supernode_stake_indexes (update_supernode_stakes n s)) =
    build_stakes n (m_stake_txs s)"
  using assms by (auto simp: update_supernode_stakes_def stakes_coherent_def split: prod.splits)

lemma update_supernode_stakes_simps [simp]:
  "m_stake_txs (update_supernode_stakes n s) = m_stake_txs s"
  "m_supernode_stakes_update_block_number (update_supernode_stakes n s) = n"
  "storage_view (update_supernode_stakes n s) = storage_view s"
  "storage_inv (update_supernode_stakes n s) = storage_inv s"
  "update_supernode_stakes n (update_supernode_stakes n s) = update_supernode_stakes n s"
  by (auto simp: update_supernode_stakes_def storage_view_def storage_inv_def split: prod.splits)

lemma stakes_coherent_update: "stakes_coherent s \<Longrightarrow> stakes_coherent (update_supernode_stakes n s)"
  using update_supernode_stakes_table [of s n] by (cases "n = 0") (simp_all add: stakes_coherent_def)

lemma fst_get_supernode_stakes:
  "stakes_coherent s \<Longrightarrow> n \<noteq> 0 \<Longrightarrow> fst (get_supernode_stakes n s) = fst (build_stakes n (m_stake_txs s))"
  using update_supernode_stakes_table [of s n] by (simp add: get_supernode_stakes_def Let_def) (metis fst_conv)

lemma fst_find_supernode_stake:
  "stakes_coherent s \<Longrightarrow> n \<noteq> 0 \<Longrightarrow>
   fst (find_supernode_stake n pid s) = table_lookup (build_stakes n (m_stake_txs s)) pid"
  by (simp add: find_supernode_stake_def Let_def table_lookup_def flip: update_supernode_stakes_table)

lemma snd_stakes_ops [simp]:
  "snd (get_supernode_stakes n s) = update_supernode_stakes n s"
  "snd (find_supernode_stake n pid s) = update_supernode_stakes n s"
  by (simp_all add: get_supernode_stakes_def find_supernode_stake_def Let_def)

lemma lookup_build_stakes: "table_lookup (build_stakes n txs) pid = fold (stake_step n) (id_txs pid txs) None"
  by (simp add: table_lookup_build_stakes id_txs_def)

section \<open>Properties\<close>

text \<open>
  C1. The amount that \<open>find_supernode_stake\<close> reports for a supernode at a block is the sum
  (modulo 2^64, as the code accumulates) of the amounts of exactly those stored stake
  transactions of that supernode that are valid at the block, and the tier is the one of
  that amount. A supernode without a valid transaction is reported with amount 0 or not at all.
\<close>

theorem find_supernode_stake_amount:
  assumes "stakes_coherent s" and "n \<noteq> 0"
  shows "amount_or_0 (fst (find_supernode_stake n pid s)) =
      (\<Sum>tx \<leftarrow> valid_txs n (id_txs pid (m_stake_txs s)). tx_amount tx) \<and>
    (\<forall>stake. fst (find_supernode_stake n pid s) = Some stake \<longrightarrow>
       stake_public_id stake = pid \<and> stake_tier stake = get_tier (stake_amount stake))"
proof -
  have lookup: "fst (find_supernode_stake n pid s) = fold (stake_step n) (id_txs pid (m_stake_txs s)) None"
    by (simp add: assms fst_find_supernode_stake lookup_build_stakes)
  have "stake_tier stake = get_tier (stake_amount stake)"
    if "fst (find_supernode_stake n pid s) = Some stake" for stake
    using stake_wf_fold [of None n "id_txs pid (m_stake_txs s)" stake] that lookup by (simp add: stake_wf_def)
  moreover have "stake_public_id stake = pid" if "fst (find_supernode_stake n pid s) = Some stake" for stake
    using that built.find_iff by (simp add: assms fst_find_supernode_stake)
  ultimately show ?thesis
    using amount_or_0_fold [of n "id_txs pid (m_stake_txs s)" None] lookup
    by (simp add: valid_txs_def) (simp add: amount_or_0_def)
qed

text \<open>
  Every stake with a non-zero amount that the storage reports at a block is valid at that
  block: the block lies in the half-open interval of the stake, whatever 64-bit values the
  stake transactions carry.
\<close>

theorem find_supernode_stake_valid_at_block:
  assumes "stakes_coherent s" and "n \<noteq> 0"
    and "fst (find_supernode_stake n pid s) = Some stake" and "stake_amount stake \<noteq> 0"
  shows "stake_block_height stake \<le> n \<and> n < stake_block_height stake + stake_unlock_time stake"
proof -
  have "fold (stake_step n) (id_txs pid (m_stake_txs s)) None = Some stake"
    using assms by (simp add: fst_find_supernode_stake lookup_build_stakes)
  from stake_wf_fold [OF _ this] assms(4) show ?thesis
    by (simp add: stake_wf_def)
qed

text \<open>
  C2. When the valid transactions of a supernode have non-zero amounts whose sum fits in 64
  bits, the interval reported for the supernode is the intersection of the validity intervals
  of these transactions.
\<close>

theorem find_supernode_stake_interval:
  assumes "stakes_coherent s" and "n \<noteq> 0"
    and "amounts_fit n (id_txs pid (m_stake_txs s))"
    and "valid_txs n (id_txs pid (m_stake_txs s)) \<noteq> []"
  shows "\<exists>stake. fst (find_supernode_stake n pid s) = Some stake \<and>
    stake_block_height stake = Max (tx_min_block_height ` set (valid_txs n (id_txs pid (m_stake_txs s)))) \<and>
    stake_block_height stake + stake_unlock_time stake =
      Min (tx_max_block_height ` set (valid_txs n (id_txs pid (m_stake_txs s))))"
  using fold_stake_interval [OF assms(3,4)] assms(1,2)
  by (simp add: fst_find_supernode_stake lookup_build_stakes)

text \<open>
  C3. Unrolling a reorganised chain restores the storage: after any sequence of blocks that
  fits in the history window has been pushed, removing as many blocks gives back the last
  index, the block hashes, their count and the stake transactions from before.
\<close>

theorem unroll_blocks_restores_storage:
  assumes "storage_inv s" and "along storage_push storage_fits blocks s"
    and "fold_err storage_push blocks s = Inr t" and "length blocks \<le> storage_room s"
  shows "storage_view ((remove_last_processed_block ^^ length blocks) t) = storage_view s"
  using assms by (rule storage_log.view_pops_pushes)

section \<open>Witnesses\<close>

definition example_address :: account_public_address where
  "example_address = \<lparr>m_spend_public_key = replicate 32 1, m_view_public_key = replicate 32 2\<rparr>"

definition example_tx :: "u64 \<Rightarrow> u64 \<Rightarrow> stake_transaction" where
  "example_tx height amount =
     \<lparr>tx_hash = replicate 32 7, tx_amount = amount, tx_block_height = height, tx_unlock_time = 1000,
      tx_supernode_public_id = ''sn'', tx_supernode_public_address = example_address,
      tx_supernode_signature = replicate 64 0, tx_secret_key = replicate 32 9\<rparr>"

definition example_storage :: stake_storage where
  "example_storage = fold add_tx [example_tx 100 TIER1_STAKE_AMOUNT, example_tx 110 TIER1_STAKE_AMOUNT]
     (new_stake_storage ''stake_transactions.v2.bin'' 99)"

lemmas example_defs = example_storage_def example_tx_def add_tx_def new_stake_storage_def

lemma example_storage_coherent: "stakes_coherent example_storage"
  by (simp add: stakes_coherent_def example_defs)

lemma example_storage_txs:
  "m_stake_txs example_storage = [example_tx 100 TIER1_STAKE_AMOUNT, example_tx 110 TIER1_STAKE_AMOUNT]"
  by (simp add: example_storage_def new_stake_storage_def add_tx_def)

lemma example_valid_txs:
  "valid_txs 200 (id_txs ''sn'' (m_stake_txs example_storage)) =
   [example_tx 100 TIER1_STAKE_AMOUNT, example_tx 110 TIER1_STAKE_AMOUNT]"
  unfolding example_storage_txs by (simp add: valid_txs_def id_txs_def example_tx_def is_valid_def config_defs)

theorem find_supernode_stake_amount_witness:
  "amount_or_0 (fst (find_supernode_stake 200 ''sn'' example_storage)) = COIN * 100000"
  using find_supernode_stake_amount [OF example_storage_coherent, of 200 "''sn''"]
  unfolding example_valid_txs by (simp add: example_tx_def config_defs)

theorem find_supernode_stake_valid_at_block_witness:
  "\<exists>stake. fst (find_supernode_stake 200 ''sn'' example_storage) = Some stake \<and>
     stake_amount stake \<noteq> 0 \<and>
     stake_block_height stake \<le> 200 \<and> 200 < stake_block_height stake + stake_unlock_time stake"
proof -
  have fit: "amounts_fit 200 (id_txs ''sn'' (m_stake_txs example_storage))"
    unfolding amounts_fit_def example_valid_txs by (simp add: example_tx_def config_defs)
  have look: "fst (find_supernode_stake 200 ''sn'' example_storage) =
    fold (stake_step 200) (id_txs ''sn'' (m_stake_txs example_storage)) None"
    by (simp add: fst_find_supernode_stake example_storage_coherent lookup_build_stakes)
  obtain stake where stake: "fst (find_supernode_stake 200 ''sn'' example_storage) = Some stake"
    using fold_stake_interval [OF fit] look by (auto simp: example_valid_txs)
  have nz: "stake_amount stake \<noteq> 0"
    using fold_stake_amount_nonzero [OF _ fit] stake look by (simp add: example_valid_txs)
  show ?thesis
    using find_supernode_stake_valid_at_block [OF example_storage_coherent _ stake nz] stake nz by simp
qed

theorem find_supernode_stake_interval_witness:
  "\<exists>stake. fst (find_supernode_stake 200 ''sn'' example_storage) = Some stake \<and>
     stake_block_height stake = 116 \<and> stake_block_height stake + stake_unlock_time stake = 1106"
proof -
  have fit: "amounts_fit 200 (id_txs ''sn'' (m_stake_txs example_storage))"
    unfolding amounts_fit_def example_valid_txs by (simp add: example_tx_def config_defs)
  show ?thesis
    using find_supernode_stake_interval [OF example_storage_coherent _ fit]
    unfolding example_valid_txs
    by (simp add: example_tx_def tx_min_block_height_def tx_max_block_height_def config_defs)
qed

theorem unroll_blocks_restores_storage_witness:
  "\<exists>t. fold_err storage_push
        [(replicate 32 1, [example_tx 100 TIER1_STAKE_AMOUNT]), (replicate 32 2, [])]
        (new_stake_storage ''f'' 99) = Inr t \<and>
      storage_view ((remove_last_processed_block ^^ 2) t) = storage_view (new_stake_storage ''f'' 99)"
proof -
  let ?s = "new_stake_storage ''f'' 99"
  let ?bs = "[(replicate 32 1, [example_tx 100 TIER1_STAKE_AMOUNT]), (replicate 32 2, [])]"
  have inv: "storage_inv ?s"
    by (simp add: storage_inv_def new_stake_storage_def)
  have room: "length ?bs \<le> storage_room ?s"
    by (simp add: storage_room_def new_stake_storage_def)
  have fits: "along storage_push storage_fits ?bs ?s"
    by (simp add: storage_push_def storage_fits_def add_last_processed_block_def example_defs config_defs Let_def)
  obtain t where t: "fold_err storage_push ?bs ?s = Inr t"
    by (simp add: storage_push_def add_last_processed_block_def example_defs config_defs Let_def)
  show ?thesis
    using unroll_blocks_restores_storage [OF inv fits t room] t by (auto simp: numeral_2_eq_2)
qed

end
