(* ===== verification/Std_Random.thy ===== *)
theory Std_Random
  imports Prelude
begin

text \<open>
  The two random number facilities of the C++ standard library that
  \<^verbatim>\<open>BlockchainBasedList\<close> uses, as the standard specifies them:
  \<^verbatim>\<open>std::seed_seq::generate\<close> ([rand.util.seedseq]) and the engine
  \<^verbatim>\<open>std::mt19937_64\<close> ([rand.eng.mers]), which is seeded from a seed sequence and
  then called. An engine state is the window of its last 312 words.
\<close>

unbundle bit_operations_syntax

section \<open>Seed sequences\<close>

definition seed_T :: "u32 \<Rightarrow> u32" where
  "seed_T x = x XOR drop_bit 27 x"

definition seed_t :: "nat \<Rightarrow> nat" where
  "seed_t n = (if n \<ge> 623 then 11 else if n \<ge> 68 then 7 else if n \<ge> 39 then 5
               else if n \<ge> 7 then 3 else (n - 1) div 2)"

text \<open>The index \<open>k - 1\<close> modulo \<open>n\<close>, for \<open>k\<close> from 0.\<close>

definition seed_prev :: "nat \<Rightarrow> nat \<Rightarrow> nat" where
  "seed_prev n k = (k + n - 1) mod n"

definition seed_mix1 :: "nat \<Rightarrow> u32 list \<Rightarrow> nat \<Rightarrow> u32 list \<Rightarrow> u32 list" where
  "seed_mix1 n v k b =
     (let p = (n - seed_t n) div 2; q = p + seed_t n; s = length v;
          r1 = 1664525 * seed_T (b ! (k mod n) XOR b ! ((k + p) mod n) XOR b ! seed_prev n k);
          r2 = r1 + (if k = 0 then word_of_nat s
                     else if k \<le> s then word_of_nat (k mod n) + v ! (k - 1)
                     else word_of_nat (k mod n));
          b = b[(k + p) mod n := b ! ((k + p) mod n) + r1];
          b = b[(k + q) mod n := b ! ((k + q) mod n) + r2]
      in b[k mod n := r2])"

definition seed_mix2 :: "nat \<Rightarrow> nat \<Rightarrow> u32 list \<Rightarrow> u32 list" where
  "seed_mix2 n k b =
     (let p = (n - seed_t n) div 2; q = p + seed_t n;
          r3 = 1566083941 * seed_T (b ! (k mod n) + b ! ((k + p) mod n) + b ! seed_prev n k);
          r4 = r3 - word_of_nat (k mod n);
          b = b[(k + p) mod n := b ! ((k + p) mod n) XOR r3];
          b = b[(k + q) mod n := b ! ((k + q) mod n) XOR r4]
      in b[k mod n := r4])"

definition seed_generate :: "u32 list \<Rightarrow> nat \<Rightarrow> u32 list" where
  "seed_generate v n =
     (let m = max (length v + 1) n;
          b = fold (seed_mix1 n v) [0..<m] (replicate n 0x8b8b8b8b)
      in fold (seed_mix2 n) [m..<m + n] b)"

section \<open>The engine\<close>

type_synonym mt19937_64 = "u64 list"

definition mt_n :: nat where "mt_n = 312"
definition mt_m :: nat where "mt_m = 156"

definition mt_upper :: u64 where "mt_upper = push_bit 31 (- 1)"
definition mt_lower :: u64 where "mt_lower = mask 31"

definition mt_fix_zero :: "u64 list \<Rightarrow> u64 list" where
  "mt_fix_zero xs =
     (if hd xs AND mt_upper = 0 \<and> list_all (\<lambda>x. x = 0) (tl xs) then push_bit 63 1 # tl xs else xs)"

definition mt_seed :: "u32 list \<Rightarrow> mt19937_64" where
  "mt_seed v =
     (let a = seed_generate v (2 * mt_n)
      in mt_fix_zero (map (\<lambda>i. ucast (a ! (2 * i)) + push_bit 32 (ucast (a ! (2 * i + 1)))) [0..<mt_n]))"

definition mt_temper :: "u64 \<Rightarrow> u64" where
  "mt_temper x =
     (let z = x XOR (drop_bit 29 x AND 0x5555555555555555);
          z = z XOR (push_bit 17 z AND 0x71d67fffeda60000);
          z = z XOR (push_bit 37 z AND 0xfff7eee000000000)
      in z XOR drop_bit 43 z)"

definition mt_next :: "mt19937_64 \<Rightarrow> u64 \<times> mt19937_64" where
  "mt_next xs =
     (let y = (xs ! 0 AND mt_upper) OR (xs ! 1 AND mt_lower);
          x = xs ! mt_m XOR drop_bit 1 y XOR (if y AND 1 = 1 then 0xb5026f5aa96619e9 else 0)
      in (mt_temper x, tl xs @ [x]))"

end
