(* ===== verification/Blockchain_Based_List.thy ===== *)
theory Blockchain_Based_List
  imports Stake_Transaction_Storage Std_Random
begin

text \<open>
  Model of \<^verbatim>\<open>src/cryptonote_core/blockchain_based_list.{h,cpp}\<close>: for each block
  and each of the four stake tiers, the list of the supernodes that are selected for the
  block, drawn from the previous list and from the supernodes with a valid stake, and the
  bounded history of these lists.
\<close>

section \<open>Data\<close>

record supernode =
  sn_public_id :: string
  sn_public_address :: account_public_address
  sn_amount :: u64
  sn_block_height :: u64
  sn_unlock_time :: u64

type_synonym supernode_array = "supernode list"
type_synonym supernode_tier_array = "supernode_array list"
type_synonym list_history = "supernode_tier_array list"

record blockchain_based_list =
  bbl_storage_file_name :: string
  m_history :: list_history
  m_block_height :: u64
  m_history_depth :: u64
  m_rng :: mt19937_64
  bbl_first_block_number :: u64
  bbl_need_store :: bool

definition BLOCKCHAIN_BASED_LIST_SIZE :: nat where
  [config_defs]: "BLOCKCHAIN_BASED_LIST_SIZE = 32"

definition PREVIOS_BLOCKCHAIN_BASED_LIST_MAX_SIZE :: nat where
  [config_defs]: "PREVIOS_BLOCKCHAIN_BASED_LIST_MAX_SIZE = 16"

definition BLOCKCHAIN_BASED_LISTS_HISTORY_DEPTH :: u64 where
  [config_defs]: "BLOCKCHAIN_BASED_LISTS_HISTORY_DEPTH = 1000"

section \<open>Operations\<close>

definition new_blockchain_based_list :: "string \<Rightarrow> u64 \<Rightarrow> mt19937_64 \<Rightarrow> blockchain_based_list" where
  "new_blockchain_based_list storage_file_name first_block_number rng =
     \<lparr>bbl_storage_file_name = storage_file_name, m_history = [], m_block_height = first_block_number,
      m_history_depth = 0, m_rng = rng, bbl_first_block_number = first_block_number,
      bbl_need_store = False\<rparr>"

definition tiers :: "u64 \<Rightarrow> blockchain_based_list \<Rightarrow> stake_error + supernode_tier_array" where
  "tiers depth l =
     (if m_history_depth l \<le> depth then Inl Tier_not_present
      else if depth = 0 then Inr (last (m_history l))
      else Inr (rev (m_history l) ! unat depth))"

text \<open>
  The loop of \<open>select_supernodes\<close>, over the part of the source list from index \<open>i\<close>:
  \<open>length (sn # src)\<close> is the code's \<^verbatim>\<open>src_list_size - i\<close>.
\<close>

fun select_loop :: "nat \<Rightarrow> supernode_array \<Rightarrow> mt19937_64 \<Rightarrow> supernode_array \<times> mt19937_64" where
  "select_loop items_count [] rng = ([], rng)"
| "select_loop items_count (sn # src) rng =
     (let (value, rng) = mt_next rng;
          random_value = unat value mod length (sn # src)
      in if items_count \<le> random_value then select_loop items_count src rng
         else let (dst, rng) = select_loop (items_count - 1) src rng in (sn # dst, rng))"

definition select_supernodes ::
  "nat \<Rightarrow> supernode_array \<Rightarrow> supernode_array \<Rightarrow> mt19937_64 \<Rightarrow> supernode_array \<times> mt19937_64" where
  "select_supernodes items_count src_list dst_list rng =
     (let items_count = (if length src_list < items_count then length src_list else items_count);
          (selected, rng) = select_loop items_count src_list rng
      in (dst_list @ selected, rng))"

definition valid_prev_supernodes ::
  "(string \<Rightarrow> supernode_stake option) \<Rightarrow> nat \<Rightarrow> supernode_array \<Rightarrow> supernode_array" where
  "valid_prev_supernodes find_stake i full_prev_supernodes =
     filter (\<lambda>sn. case find_stake (sn_public_id sn) of
                    None \<Rightarrow> False
                  | Some stake \<Rightarrow> stake_amount stake \<noteq> 0 \<and> stake_tier stake = i + 1)
       full_prev_supernodes"

definition supernode_of_stake :: "supernode_stake \<Rightarrow> supernode" where
  "supernode_of_stake stake =
     \<lparr>sn_public_id = stake_public_id stake, sn_public_address = stake_public_address stake,
      sn_amount = stake_amount stake, sn_block_height = stake_block_height stake,
      sn_unlock_time = stake_unlock_time stake\<rparr>"

definition current_supernodes :: "nat \<Rightarrow> supernode_stake list \<Rightarrow> supernode_array" where
  "current_supernodes i stakes =
     map supernode_of_stake (filter (\<lambda>stake. stake_amount stake \<noteq> 0 \<and> stake_tier stake = i + 1) stakes)"

text \<open>
  One iteration of the loop over the tiers. \<^verbatim>\<open>std::stable_sort\<close> with the
  comparison of the code is the stable sort by block height and then id; the generator is
  seeded with the bytes of the block hash in every iteration.
\<close>

definition build_tier ::
  "(string \<Rightarrow> supernode_stake option) \<Rightarrow> supernode_stake list \<Rightarrow> list_history \<Rightarrow> hash \<Rightarrow> nat
   \<Rightarrow> supernode_array \<times> mt19937_64" where
  "build_tier find_stake stakes history block_hash i =
     (let prev_supernodes = (if history = [] then [] else valid_prev_supernodes find_stake i (last history ! i));
          current = current_supernodes i stakes;
          rng = mt_seed (map ucast block_hash);
          current = sort_key (\<lambda>sn. (sn_block_height sn, sn_public_id sn)) current;
          (new_supernodes, rng) = select_supernodes PREVIOS_BLOCKCHAIN_BASED_LIST_MAX_SIZE prev_supernodes [] rng
      in if length new_supernodes < BLOCKCHAIN_BASED_LIST_SIZE
         then let current = filter (\<lambda>sn1. \<not> list_ex (\<lambda>sn2. sn_public_id sn1 = sn_public_id sn2) new_supernodes) current
              in select_supernodes (BLOCKCHAIN_BASED_LIST_SIZE - length new_supernodes) current new_supernodes rng
         else (new_supernodes, rng))"

definition build_tiers ::
  "(string \<Rightarrow> supernode_stake option) \<Rightarrow> supernode_stake list \<Rightarrow> list_history \<Rightarrow> hash \<Rightarrow> mt19937_64
   \<Rightarrow> supernode_tier_array \<times> mt19937_64" where
  "build_tiers find_stake stakes history block_hash rng =
     fold (\<lambda>i (new_tier, rng). let (new_supernodes, rng) = build_tier find_stake stakes history block_hash i
                                in (new_tier @ [new_supernodes], rng))
       [0..<TIERS_COUNT] ([], rng)"

text \<open>
  \<open>apply_block\<close> reads the stakes once and then looks supernodes up in the same storage at
  the same block, which leaves the storage as it is (\<open>find_after_get\<close> below).
\<close>

definition apply_block ::
  "u64 \<Rightarrow> hash \<Rightarrow> stake_storage \<Rightarrow> blockchain_based_list
   \<Rightarrow> stake_error + (stake_storage \<times> blockchain_based_list)" where
  "apply_block block_height block_hash stake_txs_storage l =
     (if block_height \<le> m_block_height l then Inr (stake_txs_storage, l)
      else if block_height \<noteq> m_block_height l + 1 then Inl Not_next_block_height
      else
        let (stakes, stake_txs_storage) = get_supernode_stakes block_height stake_txs_storage;
            find_stake = (\<lambda>pid. fst (find_supernode_stake block_height pid stake_txs_storage));
            (new_tier, rng) = build_tiers find_stake stakes (m_history l) block_hash (m_rng l);
            l = l\<lparr>m_rng := rng, m_history := m_history l @ [new_tier]\<rparr>;
            l = (if m_history_depth l < BLOCKCHAIN_BASED_LISTS_HISTORY_DEPTH
                 then l\<lparr>m_history_depth := m_history_depth l + 1\<rparr>
                 else l\<lparr>m_history := tl (m_history l)\<rparr>)
        in Inr (stake_txs_storage, l\<lparr>m_block_height := block_height, bbl_need_store := True\<rparr>))"

definition remove_latest_block :: "blockchain_based_list \<Rightarrow> blockchain_based_list" where
  "remove_latest_block l =
     (if m_history_depth l = 0 then l
      else
        let l = l\<lparr>bbl_need_store := True, m_block_height := m_block_height l - 1,
                  m_history_depth := m_history_depth l - 1, m_history := butlast (m_history l)\<rparr>
        in if m_history l = [] then l\<lparr>m_block_height := bbl_first_block_number l\<rparr> else l)"

section \<open>Selecting supernodes\<close>

lemma find_after_get:
  "snd (find_supernode_stake n pid (snd (get_supernode_stakes n s))) = snd (get_supernode_stakes n s)"
  by simp

lemma length_select_loop:
  "k \<le> length src \<Longrightarrow> length (fst (select_loop k src rng)) = k"
proof (induction k src rng rule: select_loop.induct)
  case (1 k rng)
  then show ?case by simp
next
  case (2 k sn src rng)
  obtain v rng' where next': "mt_next rng = (v, rng')" by (cases "mt_next rng")
  let ?r = "unat v mod length (sn # src)"
  have r: "?r < length (sn # src)" by (rule mod_less_divisor) simp
  show ?case
  proof (cases "k \<le> ?r")
    case True
    then have "k < length (sn # src)" using r by (rule le_less_trans)
    with True 2 next' show ?thesis by simp
  next
    case False
    then have "length (fst (select_loop (k - 1) src rng')) = k - 1"
      using 2 next' by simp
    with False show ?thesis
      by (cases "select_loop (k - 1) src rng'") (simp add: next')
  qed
qed

lemma subseq_select_loop: "subseq (fst (select_loop k src rng)) src"
  by (induction k src rng rule: select_loop.induct) (auto simp: Let_def split: prod.splits)

lemma select_supernodes_fst:
  obtains sel where "fst (select_supernodes k src dst rng) = dst @ sel"
    and "subseq sel src" and "length sel = min k (length src)"
proof
  let ?k = "if length src < k then length src else k"
  let ?sel = "fst (select_loop ?k src rng)"
  show "fst (select_supernodes k src dst rng) = dst @ ?sel"
    by (simp add: select_supernodes_def Let_def split: prod.splits)
  show "subseq ?sel src" by (rule subseq_select_loop)
  show "length ?sel = min k (length src)"
    by (subst length_select_loop) auto
qed


definition eligible :: "nat \<Rightarrow> supernode_stake \<Rightarrow> bool" where
  "eligible i stake \<longleftrightarrow> stake_amount stake \<noteq> 0 \<and> stake_tier stake = i + 1"

lemma length_le_keys:
  assumes "distinct (map f xs)" and "f ` set xs \<subseteq> g ` set ys"
  shows "length xs \<le> length ys"
proof -
  have "length xs = card (f ` set xs)"
    using assms(1) by (metis distinct_card length_map list.set_map)
  also have "\<dots> \<le> card (g ` set ys)"
    using assms(2) by (intro card_mono) auto
  also have "\<dots> \<le> length ys"
    by (metis card_length length_map list.set_map)
  finally show ?thesis .
qed

lemma sn_public_id_of_stake [simp]: "sn_public_id (supernode_of_stake stake) = stake_public_id stake"
  by (simp add: supernode_of_stake_def)

lemma current_supernodes_alt: "current_supernodes i stakes = map supernode_of_stake (filter (eligible i) stakes)"
  by (simp add: current_supernodes_def eligible_def[abs_def])

definition tier_prev :: "(string \<Rightarrow> supernode_stake option) \<Rightarrow> list_history \<Rightarrow> nat \<Rightarrow> supernode_array" where
  "tier_prev find_stake history i =
     (if history = [] then [] else valid_prev_supernodes find_stake i (last history ! i))"

definition tier_rest :: "supernode_stake list \<Rightarrow> nat \<Rightarrow> supernode_array \<Rightarrow> supernode_array" where
  "tier_rest stakes i chosen =
     filter (\<lambda>sn. sn_public_id sn \<notin> sn_public_id ` set chosen)
       (sort_key (\<lambda>sn. (sn_block_height sn, sn_public_id sn)) (current_supernodes i stakes))"

lemma build_tier_split:
  obtains N S where "fst (build_tier find_stake stakes history block_hash i) = N @ S"
    and "subseq N (tier_prev find_stake history i)"
    and "length N = min PREVIOS_BLOCKCHAIN_BASED_LIST_MAX_SIZE (length (tier_prev find_stake history i))"
    and "subseq S (tier_rest stakes i N)"
    and "length S = min (BLOCKCHAIN_BASED_LIST_SIZE - length N) (length (tier_rest stakes i N))"
proof -
  let ?P = "tier_prev find_stake history i"
  let ?seed = "mt_seed (map ucast block_hash)"
  obtain N rng where sel: "select_supernodes PREVIOS_BLOCKCHAIN_BASED_LIST_MAX_SIZE ?P [] ?seed = (N, rng)"
    by fastforce
  then have N: "subseq N ?P" "length N = min PREVIOS_BLOCKCHAIN_BASED_LIST_MAX_SIZE (length ?P)"
    using select_supernodes_fst [of PREVIOS_BLOCKCHAIN_BASED_LIST_MAX_SIZE ?P "[]" ?seed] by auto
  have "filter (\<lambda>sn1. \<not> list_ex (\<lambda>sn2. sn_public_id sn1 = sn_public_id sn2) N)
      (sort_key (\<lambda>sn. (sn_block_height sn, sn_public_id sn)) (current_supernodes i stakes)) = tier_rest stakes i N"
    by (auto simp: tier_rest_def list_ex_iff intro!: filter_cong)
  moreover have "length N < BLOCKCHAIN_BASED_LIST_SIZE"
    using N(2) by (simp add: config_defs)
  ultimately have "fst (build_tier find_stake stakes history block_hash i) =
    fst (select_supernodes (BLOCKCHAIN_BASED_LIST_SIZE - length N) (tier_rest stakes i N) N rng)"
    using sel by (simp add: build_tier_def tier_prev_def Let_def)
  with N that show thesis
    using select_supernodes_fst [of "BLOCKCHAIN_BASED_LIST_SIZE - length N" "tier_rest stakes i N" N rng] by metis
qed

context stake_index
begin

lemma distinct_current: "distinct (map sn_public_id (current_supernodes i stakes))"
  using distinct_ids by (simp add: current_supernodes_alt comp_def distinct_map_filter)

lemma current_ids: "sn_public_id ` set (current_supernodes i stakes) = stake_public_id ` {stake \<in> set stakes. eligible i stake}"
  by (auto simp: current_supernodes_alt image_image)

lemma valid_prev_ids:
  "sn_public_id ` set (valid_prev_supernodes find_stake i prev) \<subseteq>
   stake_public_id ` {stake \<in> set stakes. eligible i stake}"
  by (force simp: valid_prev_supernodes_def eligible_def find_iff split: option.splits)

lemma distinct_tier_prev:
  "(history \<noteq> [] \<Longrightarrow> distinct (map sn_public_id (last history ! i))) \<Longrightarrow>
   distinct (map sn_public_id (tier_prev find_stake history i))"
  by (simp add: tier_prev_def valid_prev_supernodes_def distinct_map_filter)

lemma tier_prev_ids:
  "sn_public_id ` set (tier_prev find_stake history i) \<subseteq>
   stake_public_id ` {stake \<in> set stakes. eligible i stake}"
  using valid_prev_ids by (simp add: tier_prev_def)

lemma distinct_tier_rest: "distinct (map sn_public_id (tier_rest stakes i N))"
  using distinct_current [of i] by (simp add: tier_rest_def distinct_map inj_on_def)

lemma tier_rest_ids:
  "sn_public_id ` set (tier_rest stakes i N) =
   stake_public_id ` {stake \<in> set stakes. eligible i stake} - sn_public_id ` set N"
  unfolding current_ids [of i, symmetric] by (auto simp: tier_rest_def)

lemma length_tier_rest:
  assumes "distinct (map sn_public_id N)"
    and "sn_public_id ` set N \<subseteq> stake_public_id ` {stake \<in> set stakes. eligible i stake}"
  shows "length (tier_rest stakes i N) = length (filter (eligible i) stakes) - length N"
    and "length N \<le> length (filter (eligible i) stakes)"
proof -
  let ?C = "sort_key (\<lambda>sn. (sn_block_height sn, sn_public_id sn)) (current_supernodes i stakes)"
  have "distinct (map sn_public_id ?C)"
    using distinct_current [of i] by (simp add: distinct_map)
  moreover have "sn_public_id ` set N \<subseteq> sn_public_id ` set ?C"
    using assms(2) current_ids [of i] by simp
  moreover have "length ?C = length (filter (eligible i) stakes)"
    by (simp add: current_supernodes_alt)
  ultimately have C: "distinct (map sn_public_id ?C)" "sn_public_id ` set N \<subseteq> sn_public_id ` set ?C"
    "length ?C = length (filter (eligible i) stakes)" .
  show "length (tier_rest stakes i N) = length (filter (eligible i) stakes) - length N"
    unfolding tier_rest_def using length_filter_notin_keys [OF C(1) assms(1) C(2)] C(3) by simp
  show "length N \<le> length (filter (eligible i) stakes)"
    using length_le_keys [OF assms(1) C(2)] C(3) by simp
qed

text \<open>The list of one tier: distinct supernodes, each with an eligible stake, as many as possible.\<close>

lemma build_tier_correct:
  assumes prev: "history \<noteq> [] \<Longrightarrow> distinct (map sn_public_id (last history ! i))"
    and R: "R = fst (build_tier find_stake stakes history block_hash i)"
  shows "distinct (map sn_public_id R) \<and>
    sn_public_id ` set R \<subseteq> stake_public_id ` {stake \<in> set stakes. eligible i stake} \<and>
    length R = min BLOCKCHAIN_BASED_LIST_SIZE (length (filter (eligible i) stakes))"
proof -
  obtain N S where R: "R = N @ S" and N: "subseq N (tier_prev find_stake history i)"
    "length N = min PREVIOS_BLOCKCHAIN_BASED_LIST_MAX_SIZE (length (tier_prev find_stake history i))"
    and S: "subseq S (tier_rest stakes i N)"
    "length S = min (BLOCKCHAIN_BASED_LIST_SIZE - length N) (length (tier_rest stakes i N))"
    using build_tier_split [of find_stake stakes history block_hash i] unfolding R by metis
  have distN: "distinct (map sn_public_id N)"
    using N(1) distinct_tier_prev [OF prev] by (rule distinct_map_subseq)
  have idsN: "sn_public_id ` set N \<subseteq> stake_public_id ` {stake \<in> set stakes. eligible i stake}"
    using subseq_set [OF N(1)] tier_prev_ids by blast
  have distS: "distinct (map sn_public_id S)"
    using S(1) distinct_tier_rest by (rule distinct_map_subseq)
  have idsS: "sn_public_id ` set S \<subseteq>
    stake_public_id ` {stake \<in> set stakes. eligible i stake} - sn_public_id ` set N"
    using subseq_set [OF S(1)] tier_rest_ids by blast
  have "length N \<le> BLOCKCHAIN_BASED_LIST_SIZE"
    using N(2) by (simp add: config_defs)
  with length_tier_rest [OF distN idsN] have "length R = min BLOCKCHAIN_BASED_LIST_SIZE (length (filter (eligible i) stakes))"
    unfolding R length_append S(2) by linarith
  then show ?thesis
    using distN distS idsN idsS by (auto simp: R)
qed

end

section \<open>The lists of a block and the undo log\<close>

lemma fold_collect:
  "fst (fold (\<lambda>i (acc, r). let (x, r) = f i in (acc @ [x], r)) xs (acc, r)) = acc @ map (fst \<circ> f) xs"
  by (induction xs arbitrary: acc r) (simp_all add: Let_def case_prod_beta)

lemma fst_build_tiers:
  "fst (build_tiers find_stake stakes history block_hash rng) =
   map (\<lambda>i. fst (build_tier find_stake stakes history block_hash i)) [0..<TIERS_COUNT]"
  unfolding build_tiers_def fold_collect by (simp add: comp_def)

definition tier_lists :: "u64 \<Rightarrow> hash \<Rightarrow> stake_storage \<Rightarrow> list_history \<Rightarrow> supernode_tier_array" where
  "tier_lists n block_hash s history =
     map (\<lambda>i. fst (build_tier (table_lookup (build_stakes n (m_stake_txs s)))
                 (fst (build_stakes n (m_stake_txs s))) history block_hash i)) [0..<TIERS_COUNT]"

definition bbl_inv :: "blockchain_based_list \<Rightarrow> bool" where
  "bbl_inv l \<longleftrightarrow>
     unat (m_history_depth l) = length (m_history l) \<and>
     length (m_history l) \<le> unat BLOCKCHAIN_BASED_LISTS_HISTORY_DEPTH \<and>
     (m_history l = [] \<longrightarrow> m_block_height l = bbl_first_block_number l) \<and>
     (\<forall>new_tier \<in> set (m_history l). length new_tier = TIERS_COUNT \<and>
        (\<forall>sns \<in> set new_tier. distinct (map sn_public_id sns) \<and> length sns \<le> BLOCKCHAIN_BASED_LIST_SIZE))"

definition bbl_push :: "hash \<times> stake_storage \<Rightarrow> blockchain_based_list \<Rightarrow> stake_error + blockchain_based_list" where
  "bbl_push b l = (case b of (block_hash, s) \<Rightarrow>
     (case apply_block (m_block_height l + 1) block_hash s l of Inl e \<Rightarrow> Inl e | Inr r \<Rightarrow> Inr (snd r)))"

definition bbl_fits :: "hash \<times> stake_storage \<Rightarrow> blockchain_based_list \<Rightarrow> bool" where
  "bbl_fits b l \<longleftrightarrow> m_block_height l \<noteq> - 1 \<and> stakes_coherent (snd b)"

definition bbl_room :: "blockchain_based_list \<Rightarrow> nat" where
  "bbl_room l = unat BLOCKCHAIN_BASED_LISTS_HISTORY_DEPTH - length (m_history l)"

definition bbl_view :: "blockchain_based_list \<Rightarrow> list_history \<times> u64 \<times> u64 \<times> u64" where
  "bbl_view l = (m_history l, m_block_height l, m_history_depth l, bbl_first_block_number l)"

lemma unat_history_depth [simp]: "unat BLOCKCHAIN_BASED_LISTS_HISTORY_DEPTH = 1000"
  by (simp add: config_defs)

lemma less_inc: "(i :: 'a::len word) \<noteq> - 1 \<Longrightarrow> i < i + 1"
  using unat_inc [of i] by (simp add: word_less_nat_alt)

lemma inc_nonzero: "(i :: 'a::len word) \<noteq> - 1 \<Longrightarrow> i + 1 \<noteq> 0"
  using unat_inc [of i] by auto

lemma apply_block_fields:
  assumes "stakes_coherent s" and "m_block_height l \<noteq> - 1"
    and "apply_block (m_block_height l + 1) block_hash s l = Inr (s', l')"
  shows "s' = update_supernode_stakes (m_block_height l + 1) s"
    and "m_history l' =
      (if m_history_depth l < BLOCKCHAIN_BASED_LISTS_HISTORY_DEPTH
       then m_history l @ [tier_lists (m_block_height l + 1) block_hash s (m_history l)]
       else tl (m_history l @ [tier_lists (m_block_height l + 1) block_hash s (m_history l)]))"
    and "m_history_depth l' =
      (if m_history_depth l < BLOCKCHAIN_BASED_LISTS_HISTORY_DEPTH
       then m_history_depth l + 1 else m_history_depth l)"
    and "m_block_height l' = m_block_height l + 1"
    and "bbl_first_block_number l' = bbl_first_block_number l"
proof -
  let ?n = "m_block_height l + 1"
  have n: "?n \<noteq> 0" "\<not> ?n \<le> m_block_height l"
    using assms(2) inc_nonzero less_inc by (auto simp: not_le)
  have stakes: "get_supernode_stakes ?n s = (fst (build_stakes ?n (m_stake_txs s)), update_supernode_stakes ?n s)"
    using fst_get_supernode_stakes [OF assms(1) n(1)] by (metis prod.collapse snd_stakes_ops(1))
  have look: "(\<lambda>pid. fst (find_supernode_stake ?n pid (update_supernode_stakes ?n s))) =
    table_lookup (build_stakes ?n (m_stake_txs s))"
    using fst_find_supernode_stake [OF stakes_coherent_update [OF assms(1)] n(1)] by auto
  obtain ts rng where ts: "build_tiers (table_lookup (build_stakes ?n (m_stake_txs s)))
      (fst (build_stakes ?n (m_stake_txs s))) (m_history l) block_hash (m_rng l) = (ts, rng)"
    by fastforce
  then have "ts = tier_lists ?n block_hash s (m_history l)"
    using fst_build_tiers by (metis fst_conv tier_lists_def)
  then show "s' = update_supernode_stakes ?n s"
    and "m_history l' =
      (if m_history_depth l < BLOCKCHAIN_BASED_LISTS_HISTORY_DEPTH
       then m_history l @ [tier_lists ?n block_hash s (m_history l)]
       else tl (m_history l @ [tier_lists ?n block_hash s (m_history l)]))"
    and "m_history_depth l' =
      (if m_history_depth l < BLOCKCHAIN_BASED_LISTS_HISTORY_DEPTH
       then m_history_depth l + 1 else m_history_depth l)"
    and "m_block_height l' = ?n"
    and "bbl_first_block_number l' = bbl_first_block_number l"
    using assms(3) n(2) ts by (auto simp: apply_block_def stakes look Let_def)
qed


lemma length_tier_lists [simp]: "length (tier_lists n h s history) = TIERS_COUNT"
  by (simp add: tier_lists_def)

lemma prev_tier_distinct:
  assumes "bbl_inv l" and "i < TIERS_COUNT" and "m_history l \<noteq> []"
  shows "distinct (map sn_public_id (last (m_history l) ! i))"
proof -
  have "last (m_history l) \<in> set (m_history l)" using assms(3) by simp
  with assms(1) have "length (last (m_history l)) = TIERS_COUNT"
    and all: "\<forall>sns \<in> set (last (m_history l)). distinct (map sn_public_id sns)"
    by (auto simp: bbl_inv_def)
  with assms(2) have "last (m_history l) ! i \<in> set (last (m_history l))" by simp
  with all show ?thesis by blast
qed

lemma tier_lists_correct:
  assumes "bbl_inv l" and "i < TIERS_COUNT"
  shows "distinct (map sn_public_id (tier_lists n h s (m_history l) ! i)) \<and>
    sn_public_id ` set (tier_lists n h s (m_history l) ! i) \<subseteq>
      stake_public_id ` {stake \<in> set (fst (build_stakes n (m_stake_txs s))). eligible i stake} \<and>
    length (tier_lists n h s (m_history l) ! i) =
      min BLOCKCHAIN_BASED_LIST_SIZE (length (filter (eligible i) (fst (build_stakes n (m_stake_txs s)))))"
  using prev_tier_distinct [OF assms] assms(2)
  by (intro built.build_tier_correct [where block_hash = h and history = "m_history l"])
    (simp_all add: tier_lists_def)

lemma depth_less_iff:
  assumes "bbl_inv l"
  shows "m_history_depth l < BLOCKCHAIN_BASED_LISTS_HISTORY_DEPTH \<longleftrightarrow> length (m_history l) < 1000"
  using assms by (simp add: bbl_inv_def word_less_nat_alt)

lemma unat_depth_inc:
  "m_history_depth l < BLOCKCHAIN_BASED_LISTS_HISTORY_DEPTH \<Longrightarrow> unat (m_history_depth l + 1) = unat (m_history_depth l) + 1"
  by (intro unat_inc) (auto simp: config_defs)

lemma bbl_inv_push:
  assumes inv: "bbl_inv l" and fits: "bbl_fits b l" and push: "bbl_push b l = Inr l'"
  shows "bbl_inv l'"
proof -
  obtain h s s' where b: "b = (h, s)" and ap: "apply_block (m_block_height l + 1) h s l = Inr (s', l')"
    using push by (auto simp: bbl_push_def split: sum.splits prod.splits)
  have coh: "stakes_coherent s" "m_block_height l \<noteq> - 1"
    using fits by (simp_all add: bbl_fits_def b)
  note l' = apply_block_fields [OF coh ap]
  let ?T = "tier_lists (m_block_height l + 1) h s (m_history l)"
  have T: "distinct (map sn_public_id sns) \<and> length sns \<le> BLOCKCHAIN_BASED_LIST_SIZE" if "sns \<in> set ?T" for sns
    using that tier_lists_correct [OF inv] by (auto simp: in_set_conv_nth)
  have "set (m_history l') \<subseteq> insert ?T (set (m_history l))"
    unfolding l'(2) by (auto dest: list.set_sel(2) [rotated])
  then have tiers_ok: "length ts = TIERS_COUNT \<and>
      (\<forall>sns \<in> set ts. distinct (map sn_public_id sns) \<and> length sns \<le> BLOCKCHAIN_BASED_LIST_SIZE)"
    if "ts \<in> set (m_history l')" for ts
    using that inv T by (auto simp: bbl_inv_def)
  moreover have "m_history l' \<noteq> []"
    using depth_less_iff [OF inv] by (auto simp: l'(2) tl_append split: list.splits)
  moreover have "unat (m_history_depth l') = length (m_history l')" and "length (m_history l') \<le> 1000"
    using inv unat_depth_inc [of l] depth_less_iff [OF inv] by (auto simp: l'(2,3) bbl_inv_def)
  ultimately show ?thesis
    by (simp add: bbl_inv_def)
qed

lemma remove_latest_block_view:
  assumes "m_history_depth l \<noteq> 0"
  shows "bbl_view (remove_latest_block l) =
    (butlast (m_history l),
     (if butlast (m_history l) = [] then bbl_first_block_number l else m_block_height l - 1),
     m_history_depth l - 1, bbl_first_block_number l)"
  using assms by (simp add: remove_latest_block_def bbl_view_def Let_def)

lemma bbl_view_pop_push:
  assumes inv: "bbl_inv l" and fits: "bbl_fits b l" and push: "bbl_push b l = Inr l'" and room: "0 < bbl_room l"
  shows "bbl_view (remove_latest_block l') = bbl_view l"
proof -
  obtain h s s' where b: "b = (h, s)" and ap: "apply_block (m_block_height l + 1) h s l = Inr (s', l')"
    using push by (auto simp: bbl_push_def split: sum.splits prod.splits)
  have coh: "stakes_coherent s" "m_block_height l \<noteq> - 1"
    using fits by (simp_all add: bbl_fits_def b)
  note l' = apply_block_fields [OF coh ap]
  have lt: "m_history_depth l < BLOCKCHAIN_BASED_LISTS_HISTORY_DEPTH"
    using room depth_less_iff [OF inv] by (simp add: bbl_room_def)
  have "m_history_depth l' \<noteq> 0"
    using unat_depth_inc [OF lt] lt by (auto simp: l'(3))
  from remove_latest_block_view [OF this] show ?thesis
    using inv lt by (auto simp: bbl_view_def l' bbl_inv_def)
qed

lemma bbl_view_pop_cong:
  assumes "bbl_view l = bbl_view l'"
  shows "bbl_view (remove_latest_block l) = bbl_view (remove_latest_block l')"
  using assms by (simp add: remove_latest_block_def bbl_view_def Let_def)

interpretation bbl_log: undo_log bbl_push remove_latest_block bbl_inv bbl_fits bbl_room bbl_view
proof unfold_locales
  show "bbl_inv l \<Longrightarrow> bbl_fits b l \<Longrightarrow> bbl_push b l = Inr l' \<Longrightarrow> bbl_room l \<le> Suc (bbl_room l')" for l b l'
  proof -
    assume fits: "bbl_fits b l" and push: "bbl_push b l = Inr l'"
    obtain h s s' where b: "b = (h, s)" and ap: "apply_block (m_block_height l + 1) h s l = Inr (s', l')"
      using push by (auto simp: bbl_push_def split: sum.splits prod.splits)
    have "stakes_coherent s" "m_block_height l \<noteq> - 1"
      using fits by (simp_all add: bbl_fits_def b)
    note l' = apply_block_fields [OF this ap]
    show ?thesis
      unfolding bbl_room_def l'(2) by (cases "m_history_depth l < BLOCKCHAIN_BASED_LISTS_HISTORY_DEPTH") simp_all
  qed
qed (fact bbl_inv_push bbl_view_pop_push bbl_view_pop_cong)+


lemma tiers_apply_block:
  assumes "bbl_inv l" and "stakes_coherent s" and "m_block_height l \<noteq> - 1"
    and "apply_block (m_block_height l + 1) block_hash s l = Inr (s', l')"
  shows "tiers 0 l' = Inr (tier_lists (m_block_height l + 1) block_hash s (m_history l))"
proof -
  note f = apply_block_fields [OF assms(2-4)]
  have "m_history_depth l' \<noteq> 0"
    using unat_depth_inc [of l] by (auto simp: f(3) config_defs)
  moreover have "last (m_history l') = tier_lists (m_block_height l + 1) block_hash s (m_history l)"
    using depth_less_iff [OF assms(1)] assms(1) by (cases "m_history l") (auto simp: f(2))
  ultimately show ?thesis
    by (simp add: tiers_def)
qed

lemma build_tier_cong:
  "tier_prev find_stake history1 i = tier_prev find_stake history2 i \<Longrightarrow>
   build_tier find_stake stakes history1 block_hash i = build_tier find_stake stakes history2 block_hash i"
  by (simp only: build_tier_def tier_prev_def [symmetric])

lemma tier_lists_cong:
  assumes "m_stake_txs s1 = m_stake_txs s2" and "history1 = [] \<longleftrightarrow> history2 = []"
    and "history1 \<noteq> [] \<Longrightarrow> last history1 = last history2"
  shows "tier_lists n block_hash s1 history1 = tier_lists n block_hash s2 history2"
proof -
  have "tier_prev find_stake history1 i = tier_prev find_stake history2 i" for find_stake i
    using assms(2,3) by (simp add: tier_prev_def)
  then show ?thesis
    unfolding tier_lists_def assms(1) by (metis build_tier_cong)
qed

section \<open>Claims\<close>

text \<open>
  C4. Applying the next block gives, for every tier, a list of supernodes with pairwise
  different ids, each backed by a stake of that tier with a non-zero amount at that block,
  and the list is as long as possible: all such supernodes, or 32 of them if there are more.
\<close>

theorem apply_block_tier_lists:
  assumes "bbl_inv l" and "stakes_coherent s" and "m_block_height l \<noteq> - 1"
    and "apply_block (m_block_height l + 1) block_hash s l = Inr (s', l')"
    and "i < TIERS_COUNT"
  shows "\<exists>new_tier sns. tiers 0 l' = Inr new_tier \<and> length new_tier = TIERS_COUNT \<and> sns = new_tier ! i \<and>
    distinct (map sn_public_id sns) \<and>
    (\<forall>sn \<in> set sns. \<exists>stake. fst (find_supernode_stake (m_block_height l + 1) (sn_public_id sn) s) = Some stake \<and>
       stake_amount stake \<noteq> 0 \<and> stake_tier stake = i + 1) \<and>
    length sns = min BLOCKCHAIN_BASED_LIST_SIZE
      (length (filter (\<lambda>stake. stake_amount stake \<noteq> 0 \<and> stake_tier stake = i + 1)
        (fst (get_supernode_stakes (m_block_height l + 1) s))))"
proof -
  let ?n = "m_block_height l + 1"
  let ?new_tier = "tier_lists ?n block_hash s (m_history l)"
  have n: "?n \<noteq> 0" using inc_nonzero assms(3) by blast
  have new_tier: "tiers 0 l' = Inr ?new_tier"
    using assms(1-4) by (rule tiers_apply_block)
  have ids: "distinct (map sn_public_id (?new_tier ! i))"
      "sn_public_id ` set (?new_tier ! i) \<subseteq>
       stake_public_id ` {stake \<in> set (fst (build_stakes ?n (m_stake_txs s))). eligible i stake}"
    and len: "length (?new_tier ! i) = min BLOCKCHAIN_BASED_LIST_SIZE
      (length (filter (eligible i) (fst (get_supernode_stakes ?n s))))"
    using tier_lists_correct [OF assms(1,5), of ?n block_hash s] fst_get_supernode_stakes [OF assms(2) n] by simp_all
  have "\<exists>stake. fst (find_supernode_stake ?n (sn_public_id sn) s) = Some stake \<and>
       stake_amount stake \<noteq> 0 \<and> stake_tier stake = i + 1" if sn: "sn \<in> set (?new_tier ! i)" for sn
  proof -
    obtain stake where "stake \<in> set (fst (build_stakes ?n (m_stake_txs s)))" "eligible i stake"
      "stake_public_id stake = sn_public_id sn"
      using imageI [OF sn, of sn_public_id] ids(2) by force
    then show ?thesis
      using built.find_iff [of ?n "m_stake_txs s"] by (auto simp: fst_find_supernode_stake [OF assms(2) n] eligible_def)
  qed
  with new_tier ids(1) len show ?thesis
    unfolding eligible_def by (intro exI [of _ ?new_tier]) simp
qed

text \<open>
  C5. The selection is deterministic: the lists for a block depend on the stake transactions,
  the lists of the previous block, the block height and the block hash only, and neither on
  the cached stakes, nor on older history, nor on the state of the random generator, so that
  all nodes that process the same block select the same supernodes.
\<close>

theorem apply_block_deterministic:
  assumes "bbl_inv l1" and "bbl_inv l2" and "stakes_coherent s1" and "stakes_coherent s2"
    and "m_stake_txs s1 = m_stake_txs s2" and "m_block_height l1 = m_block_height l2" and "m_block_height l2 \<noteq> - 1"
    and "m_history l1 = [] \<longleftrightarrow> m_history l2 = []"
    and "m_history l1 \<noteq> [] \<Longrightarrow> last (m_history l1) = last (m_history l2)"
    and "apply_block (m_block_height l1 + 1) block_hash s1 l1 = Inr (s1', l1')"
    and "apply_block (m_block_height l2 + 1) block_hash s2 l2 = Inr (s2', l2')"
  shows "tiers 0 l1' = tiers 0 l2'"
  using tiers_apply_block [OF assms(1,3) _ assms(10)] tiers_apply_block [OF assms(2,4) _ assms(11)]
    tier_lists_cong [OF assms(5,8,9)] assms(6,7) by simp

text \<open>
  C6. Unrolling as many blocks as were applied gives back the history, the block height and
  the depth, as long as the applied blocks fit into the bounded history.
\<close>

theorem remove_latest_blocks_restores_list:
  assumes "bbl_inv l" and "along bbl_push bbl_fits bs l" and "fold_err bbl_push bs l = Inr l'"
    and "length bs + length (m_history l) \<le> unat BLOCKCHAIN_BASED_LISTS_HISTORY_DEPTH"
  shows "bbl_view ((remove_latest_block ^^ length bs) l') = bbl_view l"
  using assms by (intro bbl_log.view_pops_pushes) (auto simp: bbl_room_def)

section \<open>Witnesses\<close>

definition example_list :: "mt19937_64 \<Rightarrow> blockchain_based_list" where
  "example_list rng = new_blockchain_based_list ''blockchain_based_list.v3.bin'' 199 rng"

lemma example_list_inv: "bbl_inv (example_list rng)"
  by (simp add: bbl_inv_def example_list_def new_blockchain_based_list_def)

lemma example_list_height [simp]: "m_block_height (example_list rng) = 199" "m_history (example_list rng) = []"
  by (simp_all add: example_list_def new_blockchain_based_list_def)

lemma apply_block_next:
  "m_block_height l \<noteq> - 1 \<Longrightarrow> \<exists>s' l'. apply_block (m_block_height l + 1) block_hash s l = Inr (s', l')"
  using less_inc [of "m_block_height l"] by (auto simp: apply_block_def Let_def split: prod.splits)

theorem apply_block_tier_lists_witness:
  "\<exists>s' l' new_tier. apply_block 200 (replicate 32 5) example_storage (example_list (mt_seed [])) = Inr (s', l') \<and>
     tiers 0 l' = Inr new_tier \<and> distinct (map sn_public_id (new_tier ! 1))"
proof -
  obtain s' l' where ap: "apply_block 200 (replicate 32 5) example_storage (example_list (mt_seed [])) = Inr (s', l')"
    using apply_block_next [of "example_list (mt_seed [])" "replicate 32 5" example_storage] by auto
  show ?thesis
    using apply_block_tier_lists [OF example_list_inv example_storage_coherent, of "mt_seed []" "replicate 32 5" s' l' 1] ap
    by (auto simp: config_defs)
qed

theorem apply_block_deterministic_witness:
  "\<exists>s1' l1' s2' l2'.
     apply_block 200 (replicate 32 5) example_storage (example_list (mt_seed [1])) = Inr (s1', l1') \<and>
     apply_block 200 (replicate 32 5) (update_supernode_stakes 300 example_storage) (example_list (mt_seed [2])) = Inr (s2', l2') \<and>
     tiers 0 l1' = tiers 0 l2'"
proof -
  let ?s = "update_supernode_stakes 300 example_storage"
  obtain s1 l1 s2 l2 where
    "apply_block 200 (replicate 32 5) example_storage (example_list (mt_seed [1])) = Inr (s1, l1)"
    "apply_block 200 (replicate 32 5) ?s (example_list (mt_seed [2])) = Inr (s2, l2)"
    using apply_block_next [of "example_list (mt_seed [1])" "replicate 32 5" example_storage]
      apply_block_next [of "example_list (mt_seed [2])" "replicate 32 5" ?s] by auto
  then show ?thesis
    using apply_block_deterministic [OF example_list_inv example_list_inv example_storage_coherent
      stakes_coherent_update [OF example_storage_coherent], of 300 "mt_seed [1]" "mt_seed [2]" "replicate 32 5" s1 l1 s2 l2]
    by auto
qed

theorem remove_latest_blocks_restores_list_witness:
  "\<exists>l'. fold_err bbl_push [(replicate 32 5, example_storage)] (example_list (mt_seed [])) = Inr l' \<and>
     bbl_view (remove_latest_block l') = bbl_view (example_list (mt_seed []))"
proof -
  let ?l = "example_list (mt_seed [])"
  let ?bs = "[(replicate 32 5, example_storage)]"
  obtain s' l' where "apply_block 200 (replicate 32 5) example_storage ?l = Inr (s', l')"
    using apply_block_next [of ?l "replicate 32 5" example_storage] by auto
  then have push: "fold_err bbl_push ?bs ?l = Inr l'"
    by (simp add: bbl_push_def)
  have "along bbl_push bbl_fits ?bs ?l"
    by (simp add: bbl_fits_def example_storage_coherent split: sum.splits)
  from remove_latest_blocks_restores_list [OF example_list_inv this push] push show ?thesis
    by simp
qed

end
