(* ===== verification/Stake_Files.thy ===== *)
theory Stake_Files
  imports Blockchain_Based_List
begin

text \<open>
  The files of the stake transaction storage and of the blockchain based list: the serialized
  form of their data (the \<^verbatim>\<open>BEGIN_SERIALIZE_OBJECT\<close> blocks of
  \<^verbatim>\<open>stake_transaction_storage\<close>, \<^verbatim>\<open>blockchain_based_list\<close> and
  \<^verbatim>\<open>cryptonote_basic.h\<close>) and the methods \<open>store\<close> and \<open>load\<close>.
\<close>

section \<open>Files\<close>

text \<open>
  The part of the file system that the two classes use. A file that cannot be opened for
  writing is left as it is; \<^verbatim>\<open>load_file_to_string\<close> fails for a file that cannot be
  read or is larger than its limit.
\<close>

record file_system =
  fs_files :: "string \<rightharpoonup> blob"
  fs_readable :: "string \<Rightarrow> bool"
  fs_writable :: "string \<Rightarrow> bool"

definition load_file_to_string :: "file_system \<Rightarrow> string \<Rightarrow> blob option" where
  "load_file_to_string fs path =
     (case fs_files fs path of
        None \<Rightarrow> None
      | Some content \<Rightarrow>
          if \<not> fs_readable fs path then None
          else if 1000000000 < length content then None
          else Some content)"

section \<open>Serialized objects\<close>

definition save_stake_transaction :: "stake_transaction saver" where
  "save_stake_transaction tx =
     save_all
       [save_uint (tx_amount tx), save_blob (tx_hash tx), save_uint (tx_block_height tx), save_uint (tx_unlock_time tx),
        save_string (tx_supernode_public_id tx), save_address (tx_supernode_public_address tx),
        save_blob (tx_supernode_signature tx), save_blob (tx_secret_key tx)]"

definition load_stake_transaction :: "stake_transaction loader" where
  "load_stake_transaction =
     load_bind load_uint (\<lambda>amount. load_bind (load_blob 32) (\<lambda>hash.
     load_bind load_uint (\<lambda>height. load_bind load_uint (\<lambda>time.
     load_bind load_string (\<lambda>pid. load_bind load_address (\<lambda>address.
     load_bind (load_blob 64) (\<lambda>signature. load_bind (load_blob 32) (\<lambda>key.
     load_return
       \<lparr>tx_hash = hash, tx_amount = amount, tx_block_height = height, tx_unlock_time = time,
        tx_supernode_public_id = pid, tx_supernode_public_address = address,
        tx_supernode_signature = signature, tx_secret_key = key\<rparr>))))))))"

definition save_supernode :: "supernode saver" where
  "save_supernode sn =
     save_all
       [save_uint (sn_amount sn), save_uint (sn_block_height sn), save_uint (sn_unlock_time sn),
        save_string (sn_public_id sn), save_address (sn_public_address sn)]"

definition load_supernode :: "supernode loader" where
  "load_supernode =
     load_bind load_uint (\<lambda>amount. load_bind load_uint (\<lambda>height. load_bind load_uint (\<lambda>time.
     load_bind load_string (\<lambda>pid. load_bind load_address (\<lambda>address.
     load_return
       \<lparr>sn_public_id = pid, sn_public_address = address, sn_amount = amount,
        sn_block_height = height, sn_unlock_time = time\<rparr>)))))"

text \<open>\<open>stake_transaction_file_data\<close>: last block index, number of hashes, hashes, transactions.\<close>

type_synonym stake_file_data = "u64 \<times> u64 \<times> hash list \<times> stake_transaction list"

definition save_stake_file :: "stake_file_data saver" where
  "save_stake_file d =
     (case d of (index, count, block_hashes, stake_txs) \<Rightarrow>
        save_all [save_uint index, save_uint count, save_container save_blob block_hashes,
          save_container save_stake_transaction stake_txs])"

definition load_stake_file :: "stake_file_data loader" where
  "load_stake_file =
     load_bind load_uint (\<lambda>index. load_bind load_uint (\<lambda>count.
     load_bind (load_container (load_blob 32)) (\<lambda>block_hashes.
     load_bind (load_container load_stake_transaction) (\<lambda>stake_txs.
     load_return (index, count, block_hashes, stake_txs)))))"

text \<open>\<open>blockchain_based_list_container\<close>: block height, history depth, history.\<close>

type_synonym list_file_data = "u64 \<times> u64 \<times> list_history"

definition save_list_file :: "list_file_data saver" where
  "save_list_file d =
     (case d of (block_height, history_depth, history) \<Rightarrow>
        save_all [save_uint block_height, save_uint history_depth,
          save_container (save_container (save_container save_supernode)) history])"

definition load_list_file :: "list_file_data loader" where
  "load_list_file =
     load_bind load_uint (\<lambda>block_height. load_bind load_uint (\<lambda>history_depth.
     load_bind (load_container (load_container (load_container load_supernode))) (\<lambda>history.
     load_return (block_height, history_depth, history))))"

section \<open>Storing and loading\<close>

definition stake_file_data :: "stake_storage \<Rightarrow> stake_file_data" where
  "stake_file_data s =
     (m_last_processed_block_index s, m_last_processed_block_hashes_count s,
      m_last_processed_block_hashes s, m_stake_txs s)"

definition storage_store :: "file_system \<Rightarrow> stake_storage \<Rightarrow> stake_error + (file_system \<times> stake_storage)" where
  "storage_store fs s =
     (if \<not> fs_writable fs (m_storage_file_name s) then Inl File_not_saved
      else case dump_binary save_stake_file (stake_file_data s) of
          None \<Rightarrow> Inl File_not_saved
        | Some b \<Rightarrow> Inr (fs\<lparr>fs_files := (fs_files fs)(m_storage_file_name s \<mapsto> b)\<rparr>, s\<lparr>m_need_store := False\<rparr>))"

definition storage_load :: "file_system \<Rightarrow> stake_storage \<Rightarrow> stake_error + stake_storage" where
  "storage_load fs s =
     (if fs_files fs (m_storage_file_name s) = None then Inr s
      else
        case load_file_to_string fs (m_storage_file_name s) of
          None \<Rightarrow> Inl File_not_readable
        | Some buffer \<Rightarrow>
            (case parse_binary load_stake_file buffer of
               None \<Rightarrow> Inl Parse_failed
             | Some (index, count, block_hashes, stake_txs) \<Rightarrow>
                 Inr (s\<lparr>m_last_processed_block_index := index,
                        m_last_processed_block_hashes_count := count,
                        m_stake_txs := stake_txs,
                        m_last_processed_block_hashes := block_hashes,
                        m_need_store := False\<rparr>)))"

text \<open>The constructor of \<open>StakeTransactionStorage\<close>.\<close>

definition open_stake_storage :: "file_system \<Rightarrow> string \<Rightarrow> u64 \<Rightarrow> stake_error + stake_storage" where
  "open_stake_storage fs storage_file_name first_block_number =
     storage_load fs (new_stake_storage storage_file_name first_block_number)"

definition list_file_data :: "blockchain_based_list \<Rightarrow> list_file_data" where
  "list_file_data l = (m_block_height l, m_history_depth l, m_history l)"

definition list_store :: "file_system \<Rightarrow> blockchain_based_list \<Rightarrow> stake_error + (file_system \<times> blockchain_based_list)" where
  "list_store fs l =
     (if \<not> fs_writable fs (bbl_storage_file_name l) then Inl File_not_saved
      else case dump_binary save_list_file (list_file_data l) of
          None \<Rightarrow> Inl File_not_saved
        | Some b \<Rightarrow> Inr (fs\<lparr>fs_files := (fs_files fs)(bbl_storage_file_name l \<mapsto> b)\<rparr>, l\<lparr>bbl_need_store := False\<rparr>))"

definition list_load :: "file_system \<Rightarrow> blockchain_based_list \<Rightarrow> stake_error + blockchain_based_list" where
  "list_load fs l =
     (if fs_files fs (bbl_storage_file_name l) = None then Inr l
      else
        case load_file_to_string fs (bbl_storage_file_name l) of
          None \<Rightarrow> Inl File_not_readable
        | Some buffer \<Rightarrow>
            (case parse_binary load_list_file buffer of
               None \<Rightarrow> Inl Parse_failed
             | Some (block_height, history_depth, history) \<Rightarrow>
                 Inr (l\<lparr>m_block_height := block_height, m_history_depth := history_depth,
                        m_history := history, bbl_need_store := False\<rparr>)))"

text \<open>The constructor of \<open>BlockchainBasedList\<close>; the engine of a new list has its default seed.\<close>

definition open_blockchain_based_list ::
  "file_system \<Rightarrow> string \<Rightarrow> u64 \<Rightarrow> mt19937_64 \<Rightarrow> stake_error + blockchain_based_list" where
  "open_blockchain_based_list fs storage_file_name first_block_number rng =
     list_load fs (new_blockchain_based_list storage_file_name first_block_number rng)"

section \<open>The codecs of the files\<close>

definition stake_transaction_fits :: "stake_transaction \<Rightarrow> bool" where
  "stake_transaction_fits tx \<longleftrightarrow>
     blob_fits 32 (tx_hash tx) \<and> string_fits (tx_supernode_public_id tx) \<and>
     address_fits (tx_supernode_public_address tx) \<and> blob_fits 64 (tx_supernode_signature tx) \<and>
     blob_fits 32 (tx_secret_key tx)"

interpretation stake_transaction_codec: nonempty_codec save_stake_transaction load_stake_transaction stake_transaction_fits
proof
  show "codes (save_stake_transaction tx) load_stake_transaction tx" if "stake_transaction_fits tx" for tx
    using that unfolding save_stake_transaction_def load_stake_transaction_def stake_transaction_fits_def
    by (elim conjE) (rule codes_Cons codes_ret u64_codec.codes string_codec.codes address_codec.codes
      signature_codec.codes key_codec.codes | assumption | simp)+
  show "save_stake_transaction tx \<noteq> Some []" for tx
    unfolding save_stake_transaction_def by (intro save_all_not_Nil save_uint_not_Nil) simp
qed

definition supernode_fits :: "supernode \<Rightarrow> bool" where
  "supernode_fits sn \<longleftrightarrow> string_fits (sn_public_id sn) \<and> address_fits (sn_public_address sn)"

interpretation supernode_codec: nonempty_codec save_supernode load_supernode supernode_fits
proof
  show "codes (save_supernode sn) load_supernode sn" if "supernode_fits sn" for sn
    using that unfolding save_supernode_def load_supernode_def supernode_fits_def
    by (elim conjE) (rule codes_Cons codes_ret u64_codec.codes string_codec.codes address_codec.codes | simp)+
  show "save_supernode sn \<noteq> Some []" for sn
    unfolding save_supernode_def by (intro save_all_not_Nil save_uint_not_Nil) simp
qed

interpretation supernodes_codec: nonempty_codec "save_container save_supernode" "load_container load_supernode"
    "container_fits supernode_fits"
  by (rule supernode_codec.codec_container)

interpretation supernode_tiers_codec: nonempty_codec "save_container (save_container save_supernode)"
    "load_container (load_container load_supernode)" "container_fits (container_fits supernode_fits)"
  by (rule supernodes_codec.codec_container)

definition stake_file_fits :: "stake_file_data \<Rightarrow> bool" where
  "stake_file_fits d \<longleftrightarrow>
     (case d of (index, count, block_hashes, stake_txs) \<Rightarrow>
        container_fits (blob_fits 32) block_hashes \<and> container_fits stake_transaction_fits stake_txs)"

interpretation stake_file_codec: codec save_stake_file load_stake_file stake_file_fits
proof
  show "codes (save_stake_file d) load_stake_file d" if "stake_file_fits d" for d
    using that unfolding save_stake_file_def load_stake_file_def stake_file_fits_def
    by (cases d) (simp, elim conjE, (rule codes_Cons codes_ret u64_codec.codes key_codec.codes_container
      stake_transaction_codec.codes_container | simp)+)
qed

definition list_file_fits :: "list_file_data \<Rightarrow> bool" where
  "list_file_fits d \<longleftrightarrow>
     (case d of (block_height, history_depth, history) \<Rightarrow>
        container_fits (container_fits (container_fits supernode_fits)) history)"

interpretation list_file_codec: codec save_list_file load_list_file list_file_fits
proof
  show "codes (save_list_file d) load_list_file d" if "list_file_fits d" for d
    using that unfolding save_list_file_def load_list_file_def list_file_fits_def
    by (cases d) (simp, (rule codes_Cons codes_ret u64_codec.codes supernode_tiers_codec.codes_container | simp)+)
qed

section \<open>Reopening a stored file\<close>

text \<open>
  C13. A storage that has been stored is the same after a restart: the constructor reads back
  the last block index, the hashes with their count and the stake transactions, has nothing to
  store, and its table of stakes is consistent with the transactions.
\<close>

theorem reopen_stored_storage:
  assumes "stake_file_fits (stake_file_data s)" and "storage_store fs s = Inr (fs', s')"
    and "fs_readable fs (m_storage_file_name s)"
    and "fs_files fs' (m_storage_file_name s) = Some b" and "length b \<le> 1000000000"
  shows "\<exists>t. open_stake_storage fs' (m_storage_file_name s) (m_first_block_number s) = Inr t \<and>
    storage_view t = storage_view s \<and> \<not> m_need_store t \<and> stakes_coherent t"
proof -
  have "dump_binary save_stake_file (stake_file_data s) = Some b" "fs_readable fs' (m_storage_file_name s)"
    using assms(2-4) by (auto simp: storage_store_def split: if_splits option.splits)
  moreover from this have "parse_binary load_stake_file b = Some (stake_file_data s)"
    using stake_file_codec.dump_parse [OF assms(1)] by auto
  ultimately show ?thesis
    using assms(4,5) by (simp add: open_stake_storage_def storage_load_def load_file_to_string_def
      new_stake_storage_def storage_view_def stakes_coherent_def stake_file_data_def)
qed

text \<open>
  A list that has been stored is the same after a restart, with the random engine in
  whatever state.
\<close>

theorem reopen_stored_list:
  assumes "list_file_fits (list_file_data l)" and "list_store fs l = Inr (fs', l')"
    and "fs_readable fs (bbl_storage_file_name l)"
    and "fs_files fs' (bbl_storage_file_name l) = Some b" and "length b \<le> 1000000000"
  shows "\<exists>t. open_blockchain_based_list fs' (bbl_storage_file_name l) (bbl_first_block_number l) rng = Inr t \<and>
    bbl_view t = bbl_view l \<and> \<not> bbl_need_store t"
proof -
  have "dump_binary save_list_file (list_file_data l) = Some b" "fs_readable fs' (bbl_storage_file_name l)"
    using assms(2-4) by (auto simp: list_store_def split: if_splits option.splits)
  moreover from this have "parse_binary load_list_file b = Some (list_file_data l)"
    using list_file_codec.dump_parse [OF assms(1)] by auto
  ultimately show ?thesis
    using assms(4,5) by (simp add: open_blockchain_based_list_def list_load_def load_file_to_string_def
      new_blockchain_based_list_def bbl_view_def list_file_data_def)
qed

section \<open>Truncated files\<close>

text \<open>An absent count reads as zero, because the failure of \<open>read_varint\<close> is dropped.\<close>

lemma load_container_Nil: "load_container load [] = Some ([], [])"
  by (simp add: load_container_def load_bind_def load_remaining_def load_return_def load_varint_def read_varint_def)

lemma parse_truncated_stake_file:
  assumes "dump_binary save_stake_file (index, count, hashes, txs) = Some b"
  shows "parse_binary load_stake_file (take 16 b) = Some (index, count, [], [])"
proof -
  have "length (uint_bytes 8 v) = 8" for v :: u64
    by simp
  then have b: "take 16 b = uint_bytes 8 index @ uint_bytes 8 count"
    using assms by (auto simp: dump_binary_def save_stake_file_def save_uint_def word_size elim!: save_all_ConsE)
  have load: "load_uint (uint_bytes 8 v @ rest) = Some (v, rest)" for v :: u64 and rest
    using u64_codec.codes [of v] by (auto simp: codes_def save_uint_def word_size)
  show ?thesis
    using load [of count "[]"]
    by (simp add: b parse_binary_def load_stake_file_def load_bind_def load_return_def load load_container_Nil)
qed

text \<open>
  A storage file that was cut after its first sixteen bytes is accepted, although the data
  is gone: the reopened storage has the number of hashes from before and no hashes, so that
  reading the hash of the last block throws whenever there was a block.
\<close>

theorem truncated_file_accepted:
  assumes "dump_binary save_stake_file (stake_file_data s) = Some b"
    and "fs_files fs name = Some (take 16 b)" and "fs_readable fs name" and "has_last_processed_block s"
  shows "\<exists>t. open_stake_storage fs name first = Inr t \<and> has_last_processed_block t \<and>
    get_last_processed_block_hash t = Inl Empty_hash_array"
proof -
  have "load_file_to_string fs name = Some (take 16 b)"
    using assms(2,3) by (simp add: load_file_to_string_def)
  then show ?thesis
    using assms(2,4) parse_truncated_stake_file assms(1)
    by (simp add: open_stake_storage_def storage_load_def new_stake_storage_def stake_file_data_def
      has_last_processed_block_def get_last_processed_block_hash_def)
qed

section \<open>Witnesses\<close>

definition example_fs :: file_system where
  "example_fs = \<lparr>fs_files = Map.empty, fs_readable = (\<lambda>_. True), fs_writable = (\<lambda>_. True)\<rparr>"

lemma fits_example: "stake_file_fits (stake_file_data example_storage)"
  by (simp add: stake_file_fits_def container_fits_def stake_file_data_def example_defs
    stake_transaction_fits_def blob_fits_def string_fits_def address_fits_def example_address_def)

lemmas dump_example_defs = dump_binary_def save_stake_file_def save_container_def stake_file_data_def example_defs
  save_stake_transaction_def save_address_def example_address_def save_uint_def save_string_def save_varint_def
  save_blob_def save_all_Some save_all.simps(1)

theorem reopen_stored_storage_witness:
  "\<exists>fs' s' t. storage_store example_fs example_storage = Inr (fs', s') \<and>
     open_stake_storage fs' ''stake_transactions.v2.bin'' 99 = Inr t \<and> storage_view t = storage_view example_storage"
proof -
  obtain b where b: "dump_binary save_stake_file (stake_file_data example_storage) = Some b" "length b \<le> 1000000000"
    by (simp add: dump_example_defs word_size write_varint.simps)
  then obtain fs' s' where st: "storage_store example_fs example_storage = Inr (fs', s')"
      "fs_files fs' (m_storage_file_name example_storage) = Some b"
    by (simp add: storage_store_def example_fs_def)
  from reopen_stored_storage [OF fits_example st(1) _ st(2) b(2)] st(1) show ?thesis
    by (auto simp: example_fs_def example_defs)
qed

theorem reopen_stored_list_witness:
  "\<exists>fs' l' t. list_store example_fs (example_list (mt_seed [])) = Inr (fs', l') \<and>
     open_blockchain_based_list fs' ''blockchain_based_list.v3.bin'' 199 (mt_seed [1]) = Inr t \<and>
     bbl_view t = bbl_view (example_list (mt_seed []))"
proof -
  let ?l = "example_list (mt_seed [])"
  have fits: "list_file_fits (list_file_data ?l)"
    by (simp add: list_file_fits_def container_fits_def list_file_data_def)
  obtain b where b: "dump_binary save_list_file (list_file_data ?l) = Some b" "length b \<le> 1000000000"
    by (simp add: dump_binary_def save_list_file_def save_container_def list_file_data_def save_uint_def save_varint_def
      save_all_Some save_all.simps(1) word_size write_varint.simps)
  then obtain fs' l' where st: "list_store example_fs ?l = Inr (fs', l')"
      "fs_files fs' (bbl_storage_file_name ?l) = Some b"
    by (simp add: list_store_def example_fs_def)
  from reopen_stored_list [OF fits st(1) _ st(2) b(2), of "mt_seed [1]"] st(1) show ?thesis
    by (auto simp: example_fs_def example_list_def new_blockchain_based_list_def)
qed

theorem truncated_file_accepted_witness:
  "\<exists>b t. dump_binary save_stake_file (stake_file_data (example_storage\<lparr>m_last_processed_block_hashes := [replicate 32 1],
        m_last_processed_block_hashes_count := 1\<rparr>)) = Some b \<and>
     open_stake_storage (example_fs\<lparr>fs_files := [''f'' \<mapsto> take 16 b]\<rparr>) ''f'' 99 = Inr t \<and>
     get_last_processed_block_hash t = Inl Empty_hash_array"
proof -
  let ?s = "example_storage\<lparr>m_last_processed_block_hashes := [replicate 32 1], m_last_processed_block_hashes_count := 1\<rparr>"
  obtain b where b: "dump_binary save_stake_file (stake_file_data ?s) = Some b"
    by (simp add: dump_example_defs)
  show ?thesis
    using truncated_file_accepted [OF b, of "example_fs\<lparr>fs_files := [''f'' \<mapsto> take 16 b]\<rparr>" "''f''" 99] b
    by (auto simp: example_fs_def has_last_processed_block_def)
qed

end
