(* ===== verification/Transaction.thy ===== *)
theory Transaction
  imports Cryptonote_Basic
begin

text \<open>
  Transactions and blocks: the serialized parts of \<^verbatim>\<open>rct::rctSig\<close>
  (\<^verbatim>\<open>src/ringct/rctTypes.h\<close>), \<^verbatim>\<open>transaction\<close> and \<^verbatim>\<open>block\<close>
  (\<^verbatim>\<open>src/cryptonote_basic/cryptonote_basic.h\<close>), and the parsing of a transaction from a
  blob (\<^verbatim>\<open>src/cryptonote_basic/cryptonote_format_utils.cpp\<close>). Members that the code
  never serializes and that parsing does not restore (\<^verbatim>\<open>message\<close>,
  \<^verbatim>\<open>mixRing\<close>, \<^verbatim>\<open>senderPk\<close>, \<^verbatim>\<open>II\<close> and the cached hashes) are left
  out; the destination keys and the commitments of the bulletproofs, which parsing restores,
  are zero and empty in what the serializers load.
\<close>

section \<open>Ring signatures\<close>

record ctkey =
  ct_dest :: blob
  ct_mask :: blob

record ecdh_tuple =
  ecdh_mask :: blob
  ecdh_amount :: blob

record range_sig =
  asig :: blob
  Ci :: blob

record mg_sig =
  mg_ss :: "blob list list"
  mg_cc :: blob

record bulletproof =
  bp_V :: "blob list"
  bp_A :: blob
  bp_S :: blob
  bp_T1 :: blob
  bp_T2 :: blob
  bp_taux :: blob
  bp_mu :: blob
  bp_L :: "blob list"
  bp_R :: "blob list"
  bp_a :: blob
  bp_b :: blob
  bp_t :: blob

definition RCTTypeNull :: u8 where "RCTTypeNull = 0"
definition RCTTypeFull :: u8 where "RCTTypeFull = 1"
definition RCTTypeSimple :: u8 where "RCTTypeSimple = 2"
definition RCTTypeBulletproof :: u8 where "RCTTypeBulletproof = 3"

lemmas rct_type_defs = RCTTypeNull_def RCTTypeFull_def RCTTypeSimple_def RCTTypeBulletproof_def

record rct_sig_base =
  rct_type :: u8
  pseudoOuts :: "blob list"
  ecdhInfo :: "ecdh_tuple list"
  outPk :: "ctkey list"
  txnFee :: u64

record rct_sig_prunable =
  rangeSigs :: "range_sig list"
  bulletproofs :: "bulletproof list"
  MGs :: "mg_sig list"
  p_pseudoOuts :: "blob list"

definition null_key :: blob where "null_key = replicate 32 0"

definition save_ecdh_tuple :: "ecdh_tuple saver" where
  "save_ecdh_tuple e = save_all [save_blob (ecdh_mask e), save_blob (ecdh_amount e)]"

definition load_ecdh_tuple :: "ecdh_tuple loader" where
  "load_ecdh_tuple =
     load_bind (load_blob 32) (\<lambda>m. load_bind (load_blob 32) (\<lambda>a.
     load_return \<lparr>ecdh_mask = m, ecdh_amount = a\<rparr>))"

text \<open>Only the mask of an output key is serialized.\<close>

definition save_out_pk :: "ctkey saver" where
  "save_out_pk k = save_blob (ct_mask k)"

definition load_out_pk :: "ctkey loader" where
  "load_out_pk = load_map (\<lambda>m. \<lparr>ct_dest = null_key, ct_mask = m\<rparr>) (load_blob 32)"

definition known_rct_type :: "u8 \<Rightarrow> bool" where
  "known_rct_type t = (t = RCTTypeFull \<or> t = RCTTypeSimple \<or> t = RCTTypeBulletproof)"

text \<open>
  \<open>serialize_rctsig_base\<close>: for the null type nothing but the type is serialized. The pseudo
  outputs of the type \<^verbatim>\<open>Simple\<close> are in the base, those of bulletproofs in the prunable part.
\<close>

definition save_rctsig_base :: "nat \<Rightarrow> nat \<Rightarrow> rct_sig_base saver" where
  "save_rctsig_base inputs outputs r =
     (if rct_type r = RCTTypeNull then save_all [save_uint (rct_type r)]
      else save_all
        [save_uint (rct_type r), save_guard (known_rct_type (rct_type r)), save_varint (txnFee r),
         if rct_type r = RCTTypeSimple then save_sized inputs save_blob (pseudoOuts r) else save_all [],
         save_sized outputs save_ecdh_tuple (ecdhInfo r), save_sized outputs save_out_pk (outPk r)])"

definition load_rctsig_base :: "nat \<Rightarrow> nat \<Rightarrow> rct_sig_base loader" where
  "load_rctsig_base inputs outputs =
     load_bind load_uint (\<lambda>t.
     if t = RCTTypeNull then load_return \<lparr>rct_type = t, pseudoOuts = [], ecdhInfo = [], outPk = [], txnFee = 0\<rparr>
     else
       load_bind (load_guard (known_rct_type t)) (\<lambda>_.
       load_bind load_varint (\<lambda>fee.
       load_bind (if t = RCTTypeSimple then load_sized inputs (load_blob 32) else load_return []) (\<lambda>pseudo.
       load_bind (load_sized outputs load_ecdh_tuple) (\<lambda>ecdh.
       load_bind (load_sized outputs load_out_pk) (\<lambda>pks.
       load_return \<lparr>rct_type = t, pseudoOuts = pseudo, ecdhInfo = ecdh, outPk = pks, txnFee = fee\<rparr>))))))"

section \<open>The prunable part\<close>

definition save_range_sig :: "range_sig saver" where
  "save_range_sig r = save_all [save_blob (asig r), save_blob (Ci r)]"

definition load_range_sig :: "range_sig loader" where
  "load_range_sig =
     load_bind (load_blob 4128) (\<lambda>s. load_bind (load_blob 2048) (\<lambda>c. load_return \<lparr>asig = s, Ci = c\<rparr>))"

definition save_bulletproof :: "bulletproof saver" where
  "save_bulletproof p =
     save_all
       [save_blob (bp_A p), save_blob (bp_S p), save_blob (bp_T1 p), save_blob (bp_T2 p), save_blob (bp_taux p),
        save_blob (bp_mu p), save_container save_blob (bp_L p), save_container save_blob (bp_R p),
        save_blob (bp_a p), save_blob (bp_b p), save_blob (bp_t p),
        save_guard (\<not> (bp_L p = [] \<or> length (bp_L p) \<noteq> length (bp_R p)))]"

definition load_bulletproof :: "bulletproof loader" where
  "load_bulletproof =
     load_bind (load_blob 32) (\<lambda>A. load_bind (load_blob 32) (\<lambda>S.
     load_bind (load_blob 32) (\<lambda>T1. load_bind (load_blob 32) (\<lambda>T2.
     load_bind (load_blob 32) (\<lambda>taux. load_bind (load_blob 32) (\<lambda>mu.
     load_bind (load_container (load_blob 32)) (\<lambda>L. load_bind (load_container (load_blob 32)) (\<lambda>R.
     load_bind (load_blob 32) (\<lambda>a. load_bind (load_blob 32) (\<lambda>b. load_bind (load_blob 32) (\<lambda>t.
     load_bind (load_guard (\<not> (L = [] \<or> length L \<noteq> length R))) (\<lambda>_.
     load_return \<lparr>bp_V = [], bp_A = A, bp_S = S, bp_T1 = T1, bp_T2 = T2, bp_taux = taux, bp_mu = mu,
       bp_L = L, bp_R = R, bp_a = a, bp_b = b, bp_t = t\<rparr>))))))))))))"

definition n_bulletproof_max_amounts1 :: "bulletproof \<Rightarrow> nat" where
  "n_bulletproof_max_amounts1 proof1 =
     (if \<not> 6 \<le> length (bp_L proof1) then 0
      else if length (bp_L proof1) \<noteq> length (bp_R proof1) then 0
      else if \<not> length (bp_L proof1) \<le> 6 + 4 then 0
      else 2 ^ (length (bp_L proof1) - 6))"

fun n_bulletproof_max_amounts_loop :: "nat \<Rightarrow> bulletproof list \<Rightarrow> nat" where
  "n_bulletproof_max_amounts_loop n [] = n"
| "n_bulletproof_max_amounts_loop n (proof1 # proofs) =
     (let n2 = n_bulletproof_max_amounts1 proof1
      in if \<not> n2 < 0xffffffff - n then 0
         else if n2 = 0 then 0
         else n_bulletproof_max_amounts_loop (n + n2) proofs)"

definition n_bulletproof_max_amounts :: "bulletproof list \<Rightarrow> nat" where
  "n_bulletproof_max_amounts proofs = n_bulletproof_max_amounts_loop 0 proofs"

text \<open>One MLSAG signature: \<open>rows\<close> rows of \<open>columns\<close> keys, and the key \<open>cc\<close>.\<close>

definition save_mg :: "nat \<Rightarrow> nat \<Rightarrow> mg_sig saver" where
  "save_mg rows columns g =
     save_all [save_sized rows (save_sized columns save_blob) (mg_ss g), save_blob (mg_cc g)]"

definition load_mg :: "nat \<Rightarrow> nat \<Rightarrow> mg_sig loader" where
  "load_mg rows columns =
     load_bind (load_sized rows (load_sized columns (load_blob 32))) (\<lambda>ss.
     load_bind (load_blob 32) (\<lambda>cc. load_return \<lparr>mg_ss = ss, mg_cc = cc\<rparr>))"

definition per_input :: "u8 \<Rightarrow> bool" where
  "per_input t = (t = RCTTypeSimple \<or> t = RCTTypeBulletproof)"

definition mg_elements :: "u8 \<Rightarrow> nat \<Rightarrow> nat" where
  "mg_elements t inputs = (if per_input t then inputs else 1)"

definition mg_ss2_elements :: "u8 \<Rightarrow> nat \<Rightarrow> nat" where
  "mg_ss2_elements t inputs = (if per_input t then 1 else inputs) + 1"

text \<open>The range proofs: a counted vector of bulletproofs, or one Borromean proof for every output.\<close>

definition save_proofs :: "u8 \<Rightarrow> nat \<Rightarrow> (range_sig list \<times> bulletproof list) saver" where
  "save_proofs t outputs v =
     (case v of (sigs, bps) \<Rightarrow>
        if t = RCTTypeBulletproof then
          let nbp = word_of_nat (length bps) :: u32 in
          save_all [save_uint nbp, save_guard (\<not> outputs < unat nbp), save_all (map save_bulletproof (take (unat nbp) bps)),
            save_guard (\<not> n_bulletproof_max_amounts bps < outputs)]
        else save_sized outputs save_range_sig sigs)"

definition load_proofs :: "u8 \<Rightarrow> nat \<Rightarrow> (range_sig list \<times> bulletproof list) loader" where
  "load_proofs t outputs =
     (if t = RCTTypeBulletproof then
        load_bind load_uint (\<lambda>nbp :: u32.
        load_bind (load_guard (\<not> outputs < unat nbp)) (\<lambda>_.
        load_bind (load_sized (unat nbp) load_bulletproof) (\<lambda>bps.
        load_bind (load_guard (\<not> n_bulletproof_max_amounts bps < outputs)) (\<lambda>_.
        load_return ([], bps)))))
      else load_map (\<lambda>sigs. (sigs, [])) (load_sized outputs load_range_sig))"

text \<open>\<open>serialize_rctsig_prunable\<close>; the number of ring members \<open>mixin + 1\<close> wraps at 64 bits.\<close>

definition save_rctsig_prunable :: "u8 \<Rightarrow> nat \<Rightarrow> nat \<Rightarrow> u64 \<Rightarrow> rct_sig_prunable saver" where
  "save_rctsig_prunable t inputs outputs mixin p =
     (if t = RCTTypeNull then save_all []
      else save_all
        [save_guard (known_rct_type t), save_proofs t outputs (rangeSigs p, bulletproofs p),
         save_sized (mg_elements t inputs) (save_mg (unat (mixin + 1)) (mg_ss2_elements t inputs)) (MGs p),
         if t = RCTTypeBulletproof then save_sized inputs save_blob (p_pseudoOuts p) else save_all []])"

definition load_rctsig_prunable :: "u8 \<Rightarrow> nat \<Rightarrow> nat \<Rightarrow> u64 \<Rightarrow> rct_sig_prunable loader" where
  "load_rctsig_prunable t inputs outputs mixin =
     (if t = RCTTypeNull then load_return \<lparr>rangeSigs = [], bulletproofs = [], MGs = [], p_pseudoOuts = []\<rparr>
      else
        load_bind (load_guard (known_rct_type t)) (\<lambda>_.
        load_bind (load_proofs t outputs) (\<lambda>(sigs, bps).
        load_bind (load_sized (mg_elements t inputs) (load_mg (unat (mixin + 1)) (mg_ss2_elements t inputs))) (\<lambda>mgs.
        load_bind (if t = RCTTypeBulletproof then load_sized inputs (load_blob 32) else load_return []) (\<lambda>pseudo.
        load_return \<lparr>rangeSigs = sigs, bulletproofs = bps, MGs = mgs, p_pseudoOuts = pseudo\<rparr>)))))"

section \<open>Transactions\<close>

record transaction =
  tx_prefix :: transaction_prefix
  signatures :: "blob list list"
  rct_base :: rct_sig_base
  rct_p :: rct_sig_prunable
  tx_type :: u64
  extra2 :: "byte list"

text \<open>
  The ring signature of a transaction that has none: type null and empty vectors. The code leaves
  the fee of it uninitialised.
\<close>

definition null_rct_base :: rct_sig_base where
  "null_rct_base = \<lparr>rct_type = RCTTypeNull, pseudoOuts = [], ecdhInfo = [], outPk = [], txnFee = 0\<rparr>"

definition null_rct_p :: rct_sig_prunable where
  "null_rct_p = \<lparr>rangeSigs = [], bulletproofs = [], MGs = [], p_pseudoOuts = []\<rparr>"

fun get_signature_size :: "txin_v \<Rightarrow> nat" where
  "get_signature_size (txin_gen _) = 0"
| "get_signature_size (txin_to_script _ _ _) = 0"
| "get_signature_size (txin_to_scripthash _ _ _ _) = 0"
| "get_signature_size (txin_to_key _ key_offsets _) = length key_offsets"

text \<open>The vectors of signatures of \<^verbatim>\<open>serialization/crypto.h\<close>: no count, a sanity check on loading.\<close>

definition load_signatures1 :: "nat \<Rightarrow> blob list loader" where
  "load_signatures1 cnt =
     load_bind (load_remaining (unat (word_of_nat cnt * 64 :: u64))) (\<lambda>_. load_elements (load_blob 64) cnt)"

definition save_signatures :: "txin_v list \<Rightarrow> blob list list saver" where
  "save_signatures ins sigs =
     (if sigs = [] then save_all [save_guard (list_all (\<lambda>i. get_signature_size i = 0) ins)]
      else save_all (save_guard (length ins = length sigs) #
             map (\<lambda>(i, s). save_sized (get_signature_size i) save_blob s) (zip ins sigs)))"

fun load_signatures :: "txin_v list \<Rightarrow> blob list list loader" where
  "load_signatures [] = load_return []"
| "load_signatures (i # ins) =
     load_bind (load_signatures1 (get_signature_size i)) (\<lambda>s.
     load_bind (load_signatures ins) (\<lambda>ss. load_return (s # ss)))"

fun mixin_of :: "txin_v list \<Rightarrow> u64" where
  "mixin_of (txin_to_key _ key_offsets _ # ins) = word_of_nat (length key_offsets) - 1"
| "mixin_of ins = 0"

definition save_rct :: "transaction_prefix \<Rightarrow> (rct_sig_base \<times> rct_sig_prunable) saver" where
  "save_rct p r =
     (if vin p = [] then save_all []
      else save_all
        [save_rctsig_base (length (vin p)) (length (vout p)) (fst r),
         if rct_type (fst r) \<noteq> RCTTypeNull
         then save_rctsig_prunable (rct_type (fst r)) (length (vin p)) (length (vout p)) (mixin_of (vin p)) (snd r)
         else save_all []])"

definition load_rct :: "transaction_prefix \<Rightarrow> (rct_sig_base \<times> rct_sig_prunable) loader" where
  "load_rct p =
     (if vin p = [] then load_return (null_rct_base, null_rct_p)
      else
        load_bind (load_rctsig_base (length (vin p)) (length (vout p))) (\<lambda>b.
        load_bind
          (if rct_type b \<noteq> RCTTypeNull
           then load_rctsig_prunable (rct_type b) (length (vin p)) (length (vout p)) (mixin_of (vin p))
           else load_return null_rct_p) (\<lambda>pr.
        load_return (b, pr))))"

text \<open>
  The part between the prefix and the fields of RTA transactions: ring signatures for version 1,
  the confidential ring signature for version 2 and above.
\<close>

definition save_transaction_body ::
  "transaction_prefix \<Rightarrow> (blob list list \<times> rct_sig_base \<times> rct_sig_prunable) saver" where
  "save_transaction_body p v =
     (if version p = 1 then save_signatures (vin p) (fst v)
      else if 2 \<le> version p then save_rct p (snd v)
      else save_all [])"

definition load_transaction_body ::
  "transaction_prefix \<Rightarrow> (blob list list \<times> rct_sig_base \<times> rct_sig_prunable) loader" where
  "load_transaction_body p =
     (if version p = 1 then load_map (\<lambda>sigs. (sigs, null_rct_base, null_rct_p)) (load_signatures (vin p))
      else if 2 \<le> version p then load_map (\<lambda>r. ([], r)) (load_rct p)
      else load_return ([], null_rct_base, null_rct_p))"

definition tx_type_generic :: u64 where "tx_type_generic = 0"

definition save_rta_part :: "transaction_prefix \<Rightarrow> (u64 \<times> byte list) saver" where
  "save_rta_part p v =
     (if 3 \<le> version p then save_all [save_uint (fst v), save_bytes (snd v)] else save_all [])"

definition load_rta_part :: "transaction_prefix \<Rightarrow> (u64 \<times> byte list) loader" where
  "load_rta_part p =
     (if 3 \<le> version p then load_bind load_uint (\<lambda>t. load_bind load_bytes (\<lambda>e. load_return (t, e)))
      else load_return (tx_type_generic, []))"

definition save_transaction :: "transaction saver" where
  "save_transaction tx =
     save_all
       [save_transaction_prefix (tx_prefix tx),
        save_transaction_body (tx_prefix tx) (signatures tx, rct_base tx, rct_p tx),
        save_rta_part (tx_prefix tx) (tx_type tx, extra2 tx)]"

definition load_transaction :: "transaction loader" where
  "load_transaction =
     load_bind load_transaction_prefix (\<lambda>p.
     load_bind (load_transaction_body p) (\<lambda>(sigs, b, pr).
     load_bind (load_rta_part p) (\<lambda>(t, e).
     load_return \<lparr>tx_prefix = p, signatures = sigs, rct_base = b, rct_p = pr, tx_type = t, extra2 = e\<rparr>)))"

section \<open>Blocks\<close>

record block =
  major_version :: u8
  minor_version :: u8
  timestamp :: u64
  prev_id :: hash
  nonce :: u32
  miner_tx :: transaction
  tx_hashes :: "hash list"

definition save_block :: "block saver" where
  "save_block b =
     save_all
       [save_varint (major_version b), save_varint (minor_version b), save_varint (timestamp b), save_blob (prev_id b),
        save_uint (nonce b), save_transaction (miner_tx b), save_container save_blob (tx_hashes b)]"

definition load_block :: "block loader" where
  "load_block =
     load_bind load_varint (\<lambda>major. load_bind load_varint (\<lambda>minor. load_bind load_varint (\<lambda>time.
     load_bind (load_blob 32) (\<lambda>prev. load_bind load_uint (\<lambda>n. load_bind load_transaction (\<lambda>tx.
     load_bind (load_container (load_blob 32)) (\<lambda>hashes.
     load_return \<lparr>major_version = major, minor_version = minor, timestamp = time, prev_id = prev, nonce = n,
       miner_tx = tx, tx_hashes = hashes\<rparr>)))))))"

section \<open>Parsing a transaction from a blob\<close>

definition is_coinbase :: "transaction \<Rightarrow> bool" where
  "is_coinbase tx = (case vin (tx_prefix tx) of [txin_gen _] \<Rightarrow> True | _ \<Rightarrow> False)"

fun target_key :: "txout_target_v \<Rightarrow> blob option" where
  "target_key (txout_to_key k) = Some k"
| "target_key _ = None"

text \<open>The loop that sets the destination keys of the outputs; \<open>None\<close> for an unsupported output.\<close>

fun set_dests :: "ctkey list \<Rightarrow> tx_out list \<Rightarrow> ctkey list option" where
  "set_dests (k # ks) (out # outs) =
     (case target_key (out_target out) of
        None \<Rightarrow> None
      | Some key \<Rightarrow> (case set_dests ks outs of None \<Rightarrow> None | Some ks \<Rightarrow> Some (k\<lparr>ct_dest := key\<rparr> # ks)))"
| "set_dests ks outs = Some ks"

text \<open>
  \<open>expand_transaction_1\<close>; \<open>scalarmult8\<close> is \<^verbatim>\<open>rct::scalarmultKey\<close> with
  \<^verbatim>\<open>rct::INV_EIGHT\<close>. The shift \<^verbatim>\<open>1 << (L.size() - 6)\<close> is on 32-bit
  integers in the code; \<open>parsed_bulletproof_bounds\<close> below shows that it is in range.
\<close>

definition expand_transaction_1 :: "(blob \<Rightarrow> blob) \<Rightarrow> bool \<Rightarrow> transaction \<Rightarrow> transaction option" where
  "expand_transaction_1 scalarmult8 base_only tx =
     (if 2 \<le> version (tx_prefix tx) \<and> \<not> is_coinbase tx then
        if length (outPk (rct_base tx)) \<noteq> length (vout (tx_prefix tx)) then None
        else case set_dests (outPk (rct_base tx)) (vout (tx_prefix tx)) of
          None \<Rightarrow> None
        | Some pks \<Rightarrow>
            let tx = tx\<lparr>rct_base := (rct_base tx)\<lparr>outPk := pks\<rparr>\<rparr> in
            if \<not> base_only \<and> rct_type (rct_base tx) = RCTTypeBulletproof then
              (case bulletproofs (rct_p tx) of
                 [bp] \<Rightarrow>
                   if length (bp_L bp) < 6 then None
                   else if 2 ^ (length (bp_L bp) - 6) < length (vout (tx_prefix tx)) then None
                   else Some (tx\<lparr>rct_p := (rct_p tx)\<lparr>bulletproofs := [bp\<lparr>bp_V := map (\<lambda>k. scalarmult8 (ct_mask k)) pks\<rparr>]\<rparr>\<rparr>)
               | _ \<Rightarrow> None)
            else Some tx
      else Some tx)"

definition parse_and_validate_tx_from_blob :: "(blob \<Rightarrow> blob) \<Rightarrow> blob \<Rightarrow> transaction option" where
  "parse_and_validate_tx_from_blob scalarmult8 tx_blob =
     (case parse_binary load_transaction tx_blob of
        None \<Rightarrow> None
      | Some tx \<Rightarrow> expand_transaction_1 scalarmult8 False tx)"

definition parse_and_validate_block_from_blob :: "blob \<Rightarrow> block option" where
  "parse_and_validate_block_from_blob b_blob = parse_binary load_block b_blob"

section \<open>What is saved is loaded back\<close>

lemma codes_if:
  "(b \<Longrightarrow> codes s1 l1 x) \<Longrightarrow> (\<not> b \<Longrightarrow> codes s2 l2 x) \<Longrightarrow>
   codes (if b then s1 else s2) (if b then l1 else l2) x"
  by simp

definition ecdh_tuple_fits :: "ecdh_tuple \<Rightarrow> bool" where
  "ecdh_tuple_fits e \<longleftrightarrow> blob_fits 32 (ecdh_mask e) \<and> blob_fits 32 (ecdh_amount e)"

interpretation ecdh_codec: codec save_ecdh_tuple load_ecdh_tuple ecdh_tuple_fits
proof
  show "codes (save_ecdh_tuple e) load_ecdh_tuple e" if "ecdh_tuple_fits e" for e
    using that unfolding save_ecdh_tuple_def load_ecdh_tuple_def ecdh_tuple_fits_def
    by (elim conjE) (rule codes_Cons codes_ret key_codec.codes | simp)+
qed

definition out_pk_fits :: "ctkey \<Rightarrow> bool" where
  "out_pk_fits k \<longleftrightarrow> blob_fits 32 (ct_mask k) \<and> ct_dest k = null_key"

interpretation out_pk_codec: codec save_out_pk load_out_pk out_pk_fits
proof
  show "codes (save_out_pk k) load_out_pk k" if "out_pk_fits k" for k
    using that unfolding save_out_pk_def load_out_pk_def out_pk_fits_def
    by (elim conjE) (rule codes_map [OF key_codec.codes], simp_all)
qed

definition rctsig_base_fits :: "nat \<Rightarrow> nat \<Rightarrow> rct_sig_base \<Rightarrow> bool" where
  "rctsig_base_fits inputs outputs r \<longleftrightarrow>
     (if rct_type r = RCTTypeNull then r = null_rct_base
      else known_rct_type (rct_type r) \<and>
        (if rct_type r = RCTTypeSimple then sized_fits inputs (blob_fits 32) (pseudoOuts r) else pseudoOuts r = []) \<and>
        sized_fits outputs ecdh_tuple_fits (ecdhInfo r) \<and> sized_fits outputs out_pk_fits (outPk r))"

lemma codes_rctsig_base:
  assumes "rctsig_base_fits inputs outputs r"
  shows "codes (save_rctsig_base inputs outputs r) (load_rctsig_base inputs outputs) r"
proof (cases "rct_type r = RCTTypeNull")
  case True
  then have r: "r = null_rct_base"
    using assms by (simp add: rctsig_base_fits_def)
  then show ?thesis
    unfolding save_rctsig_base_def load_rctsig_base_def r
    by (simp only: if_P [OF True [unfolded r]]) (rule codes_Cons [OF u8_codec.codes], auto simp: null_rct_base_def intro: codes_ret)
next
  case False
  have fits: "known_rct_type (rct_type r)"
      "if rct_type r = RCTTypeSimple then sized_fits inputs (blob_fits 32) (pseudoOuts r) else pseudoOuts r = []"
      "sized_fits outputs ecdh_tuple_fits (ecdhInfo r)" "sized_fits outputs out_pk_fits (outPk r)"
    using assms False by (simp_all add: rctsig_base_fits_def)
  have pseudo: "codes (if rct_type r = RCTTypeSimple then save_sized inputs save_blob (pseudoOuts r) else save_all [])
      (if rct_type r = RCTTypeSimple then load_sized inputs (load_blob 32) else load_return []) (pseudoOuts r)"
    using fits(2) by (auto intro: key_codec.codes_sized codes_ret)
  show ?thesis
    unfolding save_rctsig_base_def load_rctsig_base_def if_not_P [OF False]
    by (rule codes_Cons [OF u8_codec.codes], simp, subst if_not_P [OF False],
      (rule codes_Cons codes_ret codes_varint codes_guard pseudo ecdh_codec.codes_sized out_pk_codec.codes_sized fits | simp)+)
qed

definition range_sig_fits :: "range_sig \<Rightarrow> bool" where
  "range_sig_fits r \<longleftrightarrow> blob_fits 4128 (asig r) \<and> blob_fits 2048 (Ci r)"

interpretation boro_codec: nonempty_codec save_blob "load_blob 4128" "blob_fits 4128"
  by (rule codec_blob) simp

interpretation key64_codec: nonempty_codec save_blob "load_blob 2048" "blob_fits 2048"
  by (rule codec_blob) simp

interpretation range_sig_codec: codec save_range_sig load_range_sig range_sig_fits
proof
  show "codes (save_range_sig r) load_range_sig r" if "range_sig_fits r" for r
    using that unfolding save_range_sig_def load_range_sig_def range_sig_fits_def
    by (elim conjE) (rule codes_Cons codes_ret boro_codec.codes key64_codec.codes | simp)+
qed

definition bulletproof_fits :: "bulletproof \<Rightarrow> bool" where
  "bulletproof_fits p \<longleftrightarrow>
     bp_V p = [] \<and>
     list_all (blob_fits 32) [bp_A p, bp_S p, bp_T1 p, bp_T2 p, bp_taux p, bp_mu p, bp_a p, bp_b p, bp_t p] \<and>
     container_fits (blob_fits 32) (bp_L p) \<and> container_fits (blob_fits 32) (bp_R p) \<and>
     \<not> (bp_L p = [] \<or> length (bp_L p) \<noteq> length (bp_R p))"

interpretation bulletproof_codec: codec save_bulletproof load_bulletproof bulletproof_fits
proof
  show "codes (save_bulletproof p) load_bulletproof p" if "bulletproof_fits p" for p
    using that unfolding save_bulletproof_def load_bulletproof_def bulletproof_fits_def list.pred_inject
    by (elim conjE) (rule codes_Cons codes_ret codes_guard key_codec.codes key_codec.codes_container | assumption | simp)+
qed

definition mg_fits :: "nat \<Rightarrow> nat \<Rightarrow> mg_sig \<Rightarrow> bool" where
  "mg_fits rows columns g \<longleftrightarrow>
     sized_fits rows (sized_fits columns (blob_fits 32)) (mg_ss g) \<and> blob_fits 32 (mg_cc g)"

lemma mg_codec: "codec (save_mg rows columns) (load_mg rows columns) (mg_fits rows columns)"
proof
  show "codes (save_mg rows columns g) (load_mg rows columns) g" if "mg_fits rows columns g" for g
    using that unfolding save_mg_def load_mg_def mg_fits_def
    by (elim conjE) (rule codes_Cons codes_ret key_codec.codes codec.codes_sized [OF key_codec.codec_sized] | simp)+
qed

definition proofs_fits :: "u8 \<Rightarrow> nat \<Rightarrow> range_sig list \<times> bulletproof list \<Rightarrow> bool" where
  "proofs_fits t outputs v \<longleftrightarrow>
     (if t = RCTTypeBulletproof
      then fst v = [] \<and> list_all bulletproof_fits (snd v) \<and> length (snd v) < 2 ^ 32 \<and>
        length (snd v) \<le> outputs \<and> outputs \<le> n_bulletproof_max_amounts (snd v)
      else sized_fits outputs range_sig_fits (fst v) \<and> snd v = [])"

lemma codes_proofs: "proofs_fits t outputs v \<Longrightarrow> codes (save_proofs t outputs v) (load_proofs t outputs) v"
proof (cases "t = RCTTypeBulletproof")
  case True
  obtain sigs bps where v: "v = (sigs, bps)" by (cases v)
  let ?n = "word_of_nat (length bps) :: u32"
  assume "proofs_fits t outputs v"
  then have fits: "sigs = []" "list_all bulletproof_fits bps" "length bps < 2 ^ 32" "\<not> outputs < length bps"
      "\<not> n_bulletproof_max_amounts bps < outputs"
    using True by (auto simp: proofs_fits_def v)
  have n: "unat ?n = length bps"
    using fits(3) by (simp add: unsigned_of_nat take_bit_nat_eq_self)
  have elements: "codes (save_all (map save_bulletproof (take (unat ?n) bps))) (load_sized (unat ?n) load_bulletproof) bps"
    using bulletproof_codec.codes_elements [OF fits(2)] by (simp add: n load_sized_def)
  have guards: "\<not> outputs < unat ?n" using fits(4) by (simp add: n)
  show ?thesis
    using True fits(1) unfolding save_proofs_def load_proofs_def v Let_def
    by (simp only: prod.case if_True refl)
      (rule codes_Cons codes_ret u32_codec.codes codes_guard guards fits(5) elements | simp)+
next
  case False
  assume "proofs_fits t outputs v"
  with False show ?thesis
    by (cases v) (auto simp: save_proofs_def load_proofs_def proofs_fits_def intro!: codes_map [OF range_sig_codec.codes_sized])
qed

definition rctsig_prunable_fits :: "u8 \<Rightarrow> nat \<Rightarrow> nat \<Rightarrow> u64 \<Rightarrow> rct_sig_prunable \<Rightarrow> bool" where
  "rctsig_prunable_fits t inputs outputs mixin p \<longleftrightarrow>
     known_rct_type t \<and> proofs_fits t outputs (rangeSigs p, bulletproofs p) \<and>
     sized_fits (mg_elements t inputs) (mg_fits (unat (mixin + 1)) (mg_ss2_elements t inputs)) (MGs p) \<and>
     (if t = RCTTypeBulletproof then sized_fits inputs (blob_fits 32) (p_pseudoOuts p) else p_pseudoOuts p = [])"

lemma codes_rctsig_prunable:
  assumes "rctsig_prunable_fits t inputs outputs mixin p"
  shows "codes (save_rctsig_prunable t inputs outputs mixin p) (load_rctsig_prunable t inputs outputs mixin) p"
proof -
  have t: "t \<noteq> RCTTypeNull" and fits: "known_rct_type t" "proofs_fits t outputs (rangeSigs p, bulletproofs p)"
      "sized_fits (mg_elements t inputs) (mg_fits (unat (mixin + 1)) (mg_ss2_elements t inputs)) (MGs p)"
    using assms by (auto simp: rctsig_prunable_fits_def known_rct_type_def rct_type_defs)
  have pseudo: "codes (if t = RCTTypeBulletproof then save_sized inputs save_blob (p_pseudoOuts p) else save_all [])
      (if t = RCTTypeBulletproof then load_sized inputs (load_blob 32) else load_return []) (p_pseudoOuts p)"
    using assms by (auto simp: rctsig_prunable_fits_def intro: key_codec.codes_sized codes_ret)
  show ?thesis
    unfolding save_rctsig_prunable_def load_rctsig_prunable_def if_not_P [OF t]
    by (rule codes_Cons, rule codes_guard, rule fits, rule codes_Cons, rule codes_proofs, rule fits, simp only: prod.case,
      (rule codes_Cons codes_ret pseudo codec.codes_sized [OF mg_codec] fits | simp)+)
qed

definition signatures_fit :: "txin_v list \<Rightarrow> blob list list \<Rightarrow> bool" where
  "signatures_fit ins sigs \<longleftrightarrow> list_all2 (\<lambda>i s. sized_fits (get_signature_size i) (blob_fits 64) s) ins sigs"

lemma codes_signatures1:
  assumes "sized_fits n (blob_fits 64) s"
  shows "codes (save_sized n save_blob s) (load_signatures1 n) s"
proof -
  have len: "length bs = 64 * length s" if "list_all (blob_fits 64) s" "save_all (map save_blob s) = Some bs" for bs
    using that
  proof (induction s arbitrary: bs)
    case (Cons x s)
    then show ?case by (auto elim!: save_all_ConsE simp: blob_fits_def save_blob_def)
  qed (simp add: save_all.simps(1))
  have s: "list_all (blob_fits 64) s" "n = length s"
    using assms by (auto simp: sized_fits_def)
  have "unat (word_of_nat n * 64 :: u64) \<le> n * 64"
    by (metis (mono_tags, lifting) of_nat_mult of_nat_numeral unat_of_nat mod_less_eq_dividend)
  then have "codes (save_all (map save_blob s)) (load_signatures1 n) s"
    unfolding load_signatures1_def s(2)
    by (intro codes_remaining signature_codec.codes_elements s(1)) (use len s in auto)
  with s(2) show ?thesis
    by (simp add: save_sized_def save_guard_def save_all_Some) (auto simp: codes_def)
qed

lemma codes_signatures_loop:
  "signatures_fit ins sigs \<Longrightarrow>
   codes (save_all (map (\<lambda>(i, s). save_sized (get_signature_size i) save_blob s) (zip ins sigs))) (load_signatures ins) sigs"
  unfolding signatures_fit_def
proof (induction ins sigs rule: list_all2_induct)
  case Nil
  show ?case by (simp add: codes_ret)
next
  case (Cons i ins s sigs)
  from Cons.IH have "codes (save_all (map (\<lambda>(i, s). save_sized (get_signature_size i) save_blob s) (zip ins sigs)))
      (load_bind (load_signatures ins) (\<lambda>ss. load_return (s # ss))) (s # sigs)"
    by (auto simp: codes_def load_bind_def load_return_def)
  then show ?case
    using codes_Cons [OF codes_signatures1 [OF Cons.hyps(1)]] by simp
qed

lemma codes_signatures:
  assumes "signatures_fit ins sigs"
  shows "codes (save_signatures ins sigs) (load_signatures ins) sigs"
proof (cases "sigs = []")
  case True
  with assms have "ins = []" by (simp add: signatures_fit_def)
  with True show ?thesis
    by (simp add: save_signatures_def save_guard_def save_all_Some save_all.simps(1) codes_def load_return_def)
next
  case False
  have "length ins = length sigs"
    using assms list_all2_lengthD unfolding signatures_fit_def by blast
  with False codes_signatures_loop [OF assms] show ?thesis
    by (auto simp: save_signatures_def save_guard_def save_all_Some codes_def)
qed

definition rct_fits :: "transaction_prefix \<Rightarrow> rct_sig_base \<times> rct_sig_prunable \<Rightarrow> bool" where
  "rct_fits p r \<longleftrightarrow>
     (if vin p = [] then r = (null_rct_base, null_rct_p)
      else rctsig_base_fits (length (vin p)) (length (vout p)) (fst r) \<and>
        (if rct_type (fst r) = RCTTypeNull then snd r = null_rct_p
         else rctsig_prunable_fits (rct_type (fst r)) (length (vin p)) (length (vout p)) (mixin_of (vin p)) (snd r)))"

lemma codes_rct:
  assumes "rct_fits p r"
  shows "codes (save_rct p r) (load_rct p) r"
proof (cases "vin p = []")
  case True
  with assms show ?thesis
    by (simp add: rct_fits_def save_rct_def load_rct_def codes_ret)
next
  case False
  have base: "rctsig_base_fits (length (vin p)) (length (vout p)) (fst r)"
    using assms False by (simp add: rct_fits_def)
  have prunable: "codes
      (if rct_type (fst r) \<noteq> RCTTypeNull
       then save_rctsig_prunable (rct_type (fst r)) (length (vin p)) (length (vout p)) (mixin_of (vin p)) (snd r)
       else save_all [])
      (if rct_type (fst r) \<noteq> RCTTypeNull
       then load_rctsig_prunable (rct_type (fst r)) (length (vin p)) (length (vout p)) (mixin_of (vin p))
       else load_return null_rct_p) (snd r)"
    using assms False by (auto simp: rct_fits_def intro: codes_rctsig_prunable codes_ret)
  show ?thesis
    unfolding save_rct_def load_rct_def if_not_P [OF False]
    by (rule codes_Cons [OF codes_rctsig_base [OF base]], rule codes_Cons [OF prunable], rule codes_ret) simp
qed

definition body_fits :: "transaction_prefix \<Rightarrow> blob list list \<times> rct_sig_base \<times> rct_sig_prunable \<Rightarrow> bool" where
  "body_fits p v \<longleftrightarrow>
     (if version p = 1 then signatures_fit (vin p) (fst v) \<and> snd v = (null_rct_base, null_rct_p)
      else if 2 \<le> version p then fst v = [] \<and> rct_fits p (snd v)
      else v = ([], null_rct_base, null_rct_p))"

definition rta_part_fits :: "transaction_prefix \<Rightarrow> u64 \<times> byte list \<Rightarrow> bool" where
  "rta_part_fits p v \<longleftrightarrow> (if 3 \<le> version p then vector_fits (snd v) else v = (tx_type_generic, []))"

text \<open>A transaction as the loader leaves it: what is not serialized has its initial value.\<close>

definition transaction_fits :: "transaction \<Rightarrow> bool" where
  "transaction_fits tx \<longleftrightarrow>
     prefix_fits (tx_prefix tx) \<and> body_fits (tx_prefix tx) (signatures tx, rct_base tx, rct_p tx) \<and>
     rta_part_fits (tx_prefix tx) (tx_type tx, extra2 tx)"

lemma codes_transaction_body: "body_fits p v \<Longrightarrow> codes (save_transaction_body p v) (load_transaction_body p) v"
  by (cases v) (auto simp: body_fits_def save_transaction_body_def load_transaction_body_def split: if_splits
    intro: codes_map [OF codes_signatures] codes_map [OF codes_rct] codes_ret)

lemma codes_rta_part: "rta_part_fits p v \<Longrightarrow> codes (save_rta_part p v) (load_rta_part p) v"
  unfolding rta_part_fits_def save_rta_part_def load_rta_part_def
  by (cases "3 \<le> version p"; simp only: if_True if_False) (rule codes_Cons codes_ret u64_codec.codes bytes_codec.codes | simp)+

interpretation transaction_codec: nonempty_codec save_transaction load_transaction transaction_fits
proof
  show "codes (save_transaction tx) load_transaction tx" if "transaction_fits tx" for tx
    using that unfolding save_transaction_def load_transaction_def transaction_fits_def
    by (elim conjE) (rule codes_Cons codes_ret prefix_codec.codes codes_transaction_body codes_rta_part | assumption | simp)+
  show "save_transaction tx \<noteq> Some []" if "transaction_fits tx" for tx
    using that prefix_codec.save_not_Nil unfolding save_transaction_def
    by (intro save_all_not_Nil) (simp add: transaction_fits_def)
qed

definition block_fits :: "block \<Rightarrow> bool" where
  "block_fits b \<longleftrightarrow> blob_fits 32 (prev_id b) \<and> transaction_fits (miner_tx b) \<and>
     container_fits (blob_fits 32) (tx_hashes b)"

interpretation block_codec: nonempty_codec save_block load_block block_fits
proof
  show "codes (save_block b) load_block b" if "block_fits b" for b
    using that unfolding save_block_def load_block_def block_fits_def
    by (elim conjE) (rule codes_Cons codes_ret codes_varint u32_codec.codes key_codec.codes transaction_codec.codes
      key_codec.codes_container | simp)+
  show "save_block b \<noteq> Some []" for b
    unfolding save_block_def by (intro save_all_not_Nil save_varint_not_Nil)
qed

section \<open>Parsing what was serialized\<close>

text \<open>A transaction without the data that parsing restores, and one that has it.\<close>

definition strip :: "transaction \<Rightarrow> transaction" where
  "strip tx = tx\<lparr>rct_base := (rct_base tx)\<lparr>outPk := map (\<lambda>k. k\<lparr>ct_dest := null_key\<rparr>) (outPk (rct_base tx))\<rparr>,
                 rct_p := (rct_p tx)\<lparr>bulletproofs := map (\<lambda>bp. bp\<lparr>bp_V := []\<rparr>) (bulletproofs (rct_p tx))\<rparr>\<rparr>"

definition expanded :: "(blob \<Rightarrow> blob) \<Rightarrow> transaction \<Rightarrow> bool" where
  "expanded scalarmult8 tx \<longleftrightarrow>
     (if 2 \<le> version (tx_prefix tx) \<and> \<not> is_coinbase tx
      then list_all2 (\<lambda>k out. target_key (out_target out) = Some (ct_dest k)) (outPk (rct_base tx)) (vout (tx_prefix tx)) \<and>
        (if rct_type (rct_base tx) = RCTTypeBulletproof
         then \<exists>bp. bulletproofs (rct_p tx) = [bp] \<and> 6 \<le> length (bp_L bp) \<and>
           length (vout (tx_prefix tx)) \<le> 2 ^ (length (bp_L bp) - 6) \<and>
           bp_V bp = map (\<lambda>k. scalarmult8 (ct_mask k)) (outPk (rct_base tx))
         else list_all (\<lambda>bp. bp_V bp = []) (bulletproofs (rct_p tx)))
      else strip tx = tx)"

lemma save_sized_map: "(\<And>x. save (f x) = save x) \<Longrightarrow> save_sized n save (map f v) = save_sized n save v"
  by (simp add: save_sized_def comp_def)

lemma n_bulletproof_max_amounts_V:
  "n_bulletproof_max_amounts (map (\<lambda>bp. bp\<lparr>bp_V := []\<rparr>) bps) = n_bulletproof_max_amounts bps"
proof -
  have "n_bulletproof_max_amounts_loop n (map (\<lambda>bp. bp\<lparr>bp_V := []\<rparr>) bps) = n_bulletproof_max_amounts_loop n bps" for n
    by (induction bps arbitrary: n) (simp_all add: n_bulletproof_max_amounts1_def Let_def)
  then show ?thesis by (simp add: n_bulletproof_max_amounts_def)
qed

lemma save_bulletproof_V [simp]: "save_bulletproof (bp\<lparr>bp_V := v\<rparr>) = save_bulletproof bp"
  by (simp add: save_bulletproof_def)

lemma is_coinbase_rct [simp]:
  "is_coinbase (tx\<lparr>rct_base := b\<rparr>) = is_coinbase tx" "is_coinbase (tx\<lparr>rct_p := p\<rparr>) = is_coinbase tx"
  by (simp_all add: is_coinbase_def)

lemma save_proofs_V:
  "save_proofs t n (sigs, map (\<lambda>bp. bp\<lparr>bp_V := []\<rparr>) bps) = save_proofs t n (sigs, bps)"
  by (simp add: save_proofs_def n_bulletproof_max_amounts_V Let_def take_map comp_def)

lemma save_strip: "save_transaction (strip tx) = save_transaction tx"
proof -
  have "save_rctsig_base i n ((rct_base tx)\<lparr>outPk := map (\<lambda>k. k\<lparr>ct_dest := null_key\<rparr>) (outPk (rct_base tx))\<rparr>) =
      save_rctsig_base i n (rct_base tx)" for i n
    by (simp add: save_rctsig_base_def save_sized_map save_out_pk_def)
  moreover have "save_rctsig_prunable t i n m ((rct_p tx)\<lparr>bulletproofs := map (\<lambda>bp. bp\<lparr>bp_V := []\<rparr>) (bulletproofs (rct_p tx))\<rparr>) =
      save_rctsig_prunable t i n m (rct_p tx)" for t i n m
    by (simp add: save_rctsig_prunable_def save_proofs_V)
  ultimately show ?thesis
    by (simp add: save_transaction_def strip_def save_transaction_body_def save_rct_def)
qed

lemma set_dests_strip:
  "list_all2 (\<lambda>k out. target_key (out_target out) = Some (ct_dest k)) ks outs \<Longrightarrow>
   set_dests (map (\<lambda>k. k\<lparr>ct_dest := null_key\<rparr>) ks) outs = Some ks"
  by (induction ks outs rule: list_all2_induct) simp_all

lemma expand_strip:
  assumes "expanded scalarmult8 tx"
  shows "expand_transaction_1 scalarmult8 False (strip tx) = Some tx"
proof (cases "2 \<le> version (tx_prefix tx) \<and> \<not> is_coinbase tx")
  case True
  then have dests: "list_all2 (\<lambda>k out. target_key (out_target out) = Some (ct_dest k)) (outPk (rct_base tx)) (vout (tx_prefix tx))"
    using assms by (simp add: expanded_def)
  have strip_simps: "tx_prefix (strip tx) = tx_prefix tx" "is_coinbase (strip tx) = is_coinbase tx"
      "outPk (rct_base (strip tx)) = map (\<lambda>k. k\<lparr>ct_dest := null_key\<rparr>) (outPk (rct_base tx))"
      "rct_type (rct_base (strip tx)) = rct_type (rct_base tx)"
      "bulletproofs (rct_p (strip tx)) = map (\<lambda>bp. bp\<lparr>bp_V := []\<rparr>) (bulletproofs (rct_p tx))"
    by (simp_all add: strip_def is_coinbase_def)
  have base: "(rct_base (strip tx))\<lparr>outPk := outPk (rct_base tx)\<rparr> = rct_base tx"
    by (simp add: strip_def)
  show ?thesis
  proof (cases "rct_type (rct_base tx) = RCTTypeBulletproof")
    case bp: True
    then obtain bp where "bulletproofs (rct_p tx) = [bp]" "6 \<le> length (bp_L bp)"
        "length (vout (tx_prefix tx)) \<le> 2 ^ (length (bp_L bp) - 6)"
        "bp_V bp = map (\<lambda>k. scalarmult8 (ct_mask k)) (outPk (rct_base tx))"
      using assms True by (auto simp: expanded_def)
    with bp True dests show ?thesis
      by (simp add: expand_transaction_1_def strip_simps base set_dests_strip list_all2_lengthD strip_def Let_def)
  next
    case bp: False
    then have "list_all (\<lambda>bp. bp_V bp = []) (bulletproofs (rct_p tx))"
      using assms True by (simp add: expanded_def)
    then have "map (\<lambda>bp. bp\<lparr>bp_V := []\<rparr>) (bulletproofs (rct_p tx)) = bulletproofs (rct_p tx)"
      by (intro map_idI) (auto simp: list_all_iff)
    with bp True dests show ?thesis
      by (simp add: expand_transaction_1_def strip_simps base set_dests_strip list_all2_lengthD strip_def Let_def)
  qed
next
  case False
  then have strip: "strip tx = tx" using assms by (simp add: expanded_def)
  show ?thesis unfolding strip using False by (auto simp: expand_transaction_1_def)
qed

section \<open>What parsing guarantees\<close>

lemma load_bind_SomeE:
  assumes "load_bind load k bs = Some (y, rest)"
  obtains x bs' where "load bs = Some (x, bs')" and "k x bs' = Some (y, rest)"
  using assms by (auto simp: load_bind_def split: option.splits)

lemma load_guard_SomeE:
  assumes "load_guard b bs = Some (x, rest)"
  obtains b and "rest = bs"
  using assms by (auto simp: load_guard_def split: if_splits)

lemma length_load_elements: "load_elements load n bs = Some (v, rest) \<Longrightarrow> length v = n"
  by (induction n arbitrary: bs v rest) (auto simp: load_return_def elim!: load_bind_SomeE)

lemma n_bulletproof_max_amounts_single:
  assumes "0 < n_bulletproof_max_amounts [bp]"
  shows "6 \<le> length (bp_L bp) \<and> length (bp_L bp) \<le> 10 \<and> length (bp_R bp) = length (bp_L bp) \<and>
    n_bulletproof_max_amounts [bp] \<le> 16"
proof -
  have "(2 :: nat) ^ (length (bp_L bp) - 6) \<le> 2 ^ 4" if "length (bp_L bp) \<le> 10"
    using that by (intro power_increasing) auto
  with assms show ?thesis
    by (auto simp: n_bulletproof_max_amounts_def n_bulletproof_max_amounts1_def Let_def split: if_splits)
qed

lemma load_proofs_bulletproofs:
  assumes "load_proofs t outputs bs = Some ((sigs, [bp]), rest)"
  shows "6 \<le> length (bp_L bp) \<and> length (bp_L bp) \<le> 10 \<and> length (bp_R bp) = length (bp_L bp) \<and> outputs \<le> 16"
proof -
  have t: "t = RCTTypeBulletproof"
    using assms by (auto simp: load_proofs_def load_map_def load_return_def elim!: load_bind_SomeE split: if_splits)
  obtain nbp :: u32 and bs1 bs2 where bps: "load_sized (unat nbp) load_bulletproof bs1 = Some ([bp], bs2)"
      and outputs: "\<not> outputs < unat nbp" "\<not> n_bulletproof_max_amounts [bp] < outputs"
    using assms unfolding load_proofs_def t if_True
    by (auto simp: load_return_def elim!: load_bind_SomeE load_guard_SomeE)
  have "unat nbp = 1"
    using length_load_elements bps by (fastforce simp: load_sized_def)
  with outputs have "1 \<le> outputs" "outputs \<le> n_bulletproof_max_amounts [bp]"
    by auto
  then show ?thesis
    using n_bulletproof_max_amounts_single [of bp] by linarith
qed

lemma load_prunable_bulletproofs:
  "load_rctsig_prunable t inputs outputs mixin bs = Some (p, rest) \<Longrightarrow> bulletproofs p = [bp] \<Longrightarrow>
   6 \<le> length (bp_L bp) \<and> length (bp_L bp) \<le> 10 \<and> length (bp_R bp) = length (bp_L bp) \<and> outputs \<le> 16"
  by (auto simp: load_rctsig_prunable_def load_return_def elim!: load_bind_SomeE split: if_splits
    dest!: load_proofs_bulletproofs)

lemma load_transaction_bulletproofs:
  assumes "load_transaction bs = Some (tx, rest)" and "bulletproofs (rct_p tx) = [bp]"
  shows "6 \<le> length (bp_L bp) \<and> length (bp_L bp) \<le> 10 \<and> length (bp_R bp) = length (bp_L bp) \<and>
    length (vout (tx_prefix tx)) \<le> 16"
proof -
  have "rct_p tx \<noteq> null_rct_p"
    using assms(2) by (auto simp: null_rct_p_def)
  then have nn: "null_rct_p \<noteq> rct_p tx" by simp
  obtain b bs1 bs2 where body: "load_transaction_body (tx_prefix tx) bs1 = Some ((signatures tx, rct_base tx, rct_p tx), bs2)"
    using assms(1) by (auto simp: load_transaction_def load_return_def elim!: load_bind_SomeE)
  then obtain bs1 bs2 where "load_rct (tx_prefix tx) bs1 = Some ((rct_base tx, rct_p tx), bs2)"
    using nn by (auto simp: load_transaction_body_def load_map_def load_return_def
      elim!: load_bind_SomeE split: if_splits)
  then obtain t i bs1 bs2 m where "load_rctsig_prunable t i (length (vout (tx_prefix tx))) m bs1 = Some (rct_p tx, bs2)"
    using nn by (auto simp: load_rct_def load_return_def elim!: load_bind_SomeE split: if_splits)
  then show ?thesis using assms(2) by (rule load_prunable_bulletproofs)
qed

section \<open>Claims\<close>

text \<open>
  C7. A transaction that is serialized and parsed again is the same: the parser reads the whole
  blob back and restores the destination keys of the outputs and the commitments of the
  bulletproof, for every transaction version and ring signature type.
\<close>

theorem parse_serialized_transaction:
  assumes "transaction_fits (strip tx)" and "expanded scalarmult8 tx"
  shows "\<exists>b. dump_binary save_transaction tx = Some b \<and>
    parse_and_validate_tx_from_blob scalarmult8 b = Some tx"
  using transaction_codec.dump_parse [OF assms(1)] expand_strip [OF assms(2)]
  by (auto simp: parse_and_validate_tx_from_blob_def dump_binary_def save_strip)

text \<open>
  C8. A block that is serialized and parsed again is the same, and two different blocks have
  different blobs.
\<close>

theorem parse_serialized_block:
  assumes "block_fits b" and "block_fits b'"
  shows "(\<exists>blob. dump_binary save_block b = Some blob \<and> parse_and_validate_block_from_blob blob = Some b) \<and>
    (dump_binary save_block b = dump_binary save_block b' \<longrightarrow> b = b')"
  using block_codec.dump_parse [OF assms(1)] block_codec.save_inj [OF assms]
  by (auto simp: parse_and_validate_block_from_blob_def dump_binary_def)


section \<open>Witnesses\<close>

definition example_key :: blob where "example_key = replicate 32 7"

definition example_bulletproof :: bulletproof where
  "example_bulletproof =
     \<lparr>bp_V = [example_key], bp_A = example_key, bp_S = example_key, bp_T1 = example_key, bp_T2 = example_key,
      bp_taux = example_key, bp_mu = example_key, bp_L = replicate 6 example_key, bp_R = replicate 6 example_key,
      bp_a = example_key, bp_b = example_key, bp_t = example_key\<rparr>"

definition example_prefix :: transaction_prefix where
  "example_prefix =
     \<lparr>version = 3, unlock_time = 0, vin = [txin_to_key 0 [5] example_key],
      vout = [\<lparr>out_amount = 0, out_target = txout_to_key (replicate 32 3)\<rparr>], extra = [1, 2]\<rparr>"

definition example_transaction :: transaction where
  "example_transaction =
     \<lparr>tx_prefix = example_prefix, signatures = [],
      rct_base = \<lparr>rct_type = RCTTypeBulletproof, pseudoOuts = [],
        ecdhInfo = [\<lparr>ecdh_mask = example_key, ecdh_amount = example_key\<rparr>],
        outPk = [\<lparr>ct_dest = replicate 32 3, ct_mask = example_key\<rparr>], txnFee = 100\<rparr>,
      rct_p = \<lparr>rangeSigs = [], bulletproofs = [example_bulletproof],
        MGs = [\<lparr>mg_ss = [[example_key, example_key]], mg_cc = example_key\<rparr>], p_pseudoOuts = [example_key]\<rparr>,
      tx_type = 1, extra2 = [9]\<rparr>"

lemmas example_transaction_defs = example_transaction_def example_prefix_def example_bulletproof_def example_key_def

lemma example_max_amounts: "n_bulletproof_max_amounts [example_bulletproof\<lparr>bp_V := []\<rparr>] = 1"
  by (simp add: n_bulletproof_max_amounts_def n_bulletproof_max_amounts1_def example_bulletproof_def Let_def)

lemma example_prunable_fits:
  "rctsig_prunable_fits RCTTypeBulletproof 1 1 0
     \<lparr>rangeSigs = [], bulletproofs = [example_bulletproof\<lparr>bp_V := []\<rparr>],
      MGs = [\<lparr>mg_ss = [[example_key, example_key]], mg_cc = example_key\<rparr>], p_pseudoOuts = [example_key]\<rparr>"
  using example_max_amounts
  by (simp add: rctsig_prunable_fits_def proofs_fits_def known_rct_type_def sized_fits_def mg_elements_def per_input_def
    mg_fits_def mg_ss2_elements_def blob_fits_def bulletproof_fits_def container_fits_def list_all_iff
    example_bulletproof_def example_key_def)

lemma example_fits: "transaction_fits (strip example_transaction)"
  using example_prunable_fits
  by (simp add: transaction_fits_def strip_def prefix_fits_def body_fits_def rta_part_fits_def rct_fits_def
    rctsig_base_fits_def known_rct_type_def version_supported_def CURRENT_TRANSACTION_VERSION_def container_fits_def
    tx_out_fits_def vector_fits_def sized_fits_def ecdh_tuple_fits_def out_pk_fits_def blob_fits_def null_key_def
    example_transaction_def example_prefix_def example_key_def rct_type_defs)

lemma example_expanded: "expanded (\<lambda>k. k) example_transaction"
  by (simp add: expanded_def is_coinbase_def example_transaction_defs)

theorem parse_serialized_transaction_witness:
  "\<exists>b. dump_binary save_transaction example_transaction = Some b \<and>
     parse_and_validate_tx_from_blob (\<lambda>k. k) b = Some example_transaction"
  using parse_serialized_transaction [OF example_fits example_expanded] .

lemma example_parses:
  "\<exists>b. parse_and_validate_tx_from_blob (\<lambda>k. k) b = Some example_transaction"
  using transaction_codec.dump_parse [OF example_fits] expand_strip [OF example_expanded]
  unfolding parse_and_validate_tx_from_blob_def by (metis option.simps(5))


definition example_miner_tx :: transaction where
  "example_miner_tx =
     \<lparr>tx_prefix = \<lparr>version = 2, unlock_time = 70, vin = [txin_gen 10],
        vout = [\<lparr>out_amount = 5, out_target = txout_to_key (replicate 32 3)\<rparr>], extra = []\<rparr>,
      signatures = [], rct_base = null_rct_base, rct_p = null_rct_p, tx_type = tx_type_generic, extra2 = []\<rparr>"

definition example_block :: block where
  "example_block =
     \<lparr>major_version = 13, minor_version = 13, timestamp = 1500000000, prev_id = replicate 32 1, nonce = 77,
      miner_tx = example_miner_tx, tx_hashes = [replicate 32 4]\<rparr>"

lemma example_block_fits: "block_fits example_block"
  by (simp add: block_fits_def example_block_def example_miner_tx_def transaction_fits_def prefix_fits_def body_fits_def
    rta_part_fits_def rct_fits_def rctsig_base_fits_def version_supported_def CURRENT_TRANSACTION_VERSION_def
    container_fits_def tx_out_fits_def vector_fits_def blob_fits_def null_rct_base_def)

theorem parse_serialized_block_witness:
  "\<exists>blob. dump_binary save_block example_block = Some blob \<and>
     parse_and_validate_block_from_blob blob = Some example_block"
  using parse_serialized_block [OF example_block_fits example_block_fits] by blast

end
