(* ===== verification/Tx_Extra.thy ===== *)
theory Tx_Extra
  imports Transaction
begin

text \<open>
  Model of the fields in the extra data of a transaction
  (\<^verbatim>\<open>src/cryptonote_basic/tx_extra.h\<close>) and of the functions of
  \<^verbatim>\<open>src/cryptonote_basic/cryptonote_format_utils.cpp\<close> that parse, look up, append and
  remove them, with the fields that Graft adds for stake and RTA transactions.
\<close>

section \<open>Fields\<close>

definition TX_EXTRA_PADDING_MAX_COUNT :: nat where "TX_EXTRA_PADDING_MAX_COUNT = 255"
definition TX_EXTRA_NONCE_MAX_COUNT :: nat where "TX_EXTRA_NONCE_MAX_COUNT = 255"

definition TX_EXTRA_TAG_PADDING :: u8 where "TX_EXTRA_TAG_PADDING = 0x00"
definition TX_EXTRA_TAG_PUBKEY :: u8 where "TX_EXTRA_TAG_PUBKEY = 0x01"
definition TX_EXTRA_NONCE :: u8 where "TX_EXTRA_NONCE = 0x02"
definition TX_EXTRA_MERGE_MINING_TAG :: u8 where "TX_EXTRA_MERGE_MINING_TAG = 0x03"
definition TX_EXTRA_TAG_ADDITIONAL_PUBKEYS :: u8 where "TX_EXTRA_TAG_ADDITIONAL_PUBKEYS = 0x04"
definition TX_EXTRA_GRAFT_STAKE_TX_TAG :: u8 where "TX_EXTRA_GRAFT_STAKE_TX_TAG = 0x80"
definition TX_EXTRA_GRAFT_TX_SECRET_KEY_TAG :: u8 where "TX_EXTRA_GRAFT_TX_SECRET_KEY_TAG = 0x81"
definition TX_EXTRA_GRAFT_RTA_HEADER_TAG :: u8 where "TX_EXTRA_GRAFT_RTA_HEADER_TAG = 0x83"
definition TX_EXTRA_GRAFT_RTA_SIGNATURES_TAG :: u8 where "TX_EXTRA_GRAFT_RTA_SIGNATURES_TAG = 0x84"
definition TX_EXTRA_MYSTERIOUS_MINERGATE_TAG :: u8 where "TX_EXTRA_MYSTERIOUS_MINERGATE_TAG = 0xDE"
definition TX_EXTRA_GRAFT_EXTRA_TAG :: u8 where "TX_EXTRA_GRAFT_EXTRA_TAG = 0x50"

lemmas tag_defs = TX_EXTRA_TAG_PADDING_def TX_EXTRA_TAG_PUBKEY_def TX_EXTRA_NONCE_def TX_EXTRA_MERGE_MINING_TAG_def
  TX_EXTRA_TAG_ADDITIONAL_PUBKEYS_def TX_EXTRA_GRAFT_STAKE_TX_TAG_def TX_EXTRA_GRAFT_TX_SECRET_KEY_TAG_def
  TX_EXTRA_GRAFT_RTA_HEADER_TAG_def TX_EXTRA_GRAFT_RTA_SIGNATURES_TAG_def TX_EXTRA_MYSTERIOUS_MINERGATE_TAG_def
  TX_EXTRA_GRAFT_EXTRA_TAG_def

datatype tx_extra_field =
    tx_extra_padding nat
  | tx_extra_pub_key blob
  | tx_extra_nonce string
  | tx_extra_merge_mining_tag u64 hash
  | tx_extra_additional_pub_keys "blob list"
  | tx_extra_mysterious_minergate string
  | tx_extra_graft_extra string
  | tx_extra_graft_stake_tx string
  | tx_extra_graft_tx_secret_key blob
  | tx_extra_graft_rta_header string
  | tx_extra_graft_rta_signatures string

fun field_tag :: "tx_extra_field \<Rightarrow> u8" where
  "field_tag (tx_extra_padding _) = TX_EXTRA_TAG_PADDING"
| "field_tag (tx_extra_pub_key _) = TX_EXTRA_TAG_PUBKEY"
| "field_tag (tx_extra_nonce _) = TX_EXTRA_NONCE"
| "field_tag (tx_extra_merge_mining_tag _ _) = TX_EXTRA_MERGE_MINING_TAG"
| "field_tag (tx_extra_additional_pub_keys _) = TX_EXTRA_TAG_ADDITIONAL_PUBKEYS"
| "field_tag (tx_extra_mysterious_minergate _) = TX_EXTRA_MYSTERIOUS_MINERGATE_TAG"
| "field_tag (tx_extra_graft_extra _) = TX_EXTRA_GRAFT_EXTRA_TAG"
| "field_tag (tx_extra_graft_stake_tx _) = TX_EXTRA_GRAFT_STAKE_TX_TAG"
| "field_tag (tx_extra_graft_tx_secret_key _) = TX_EXTRA_GRAFT_TX_SECRET_KEY_TAG"
| "field_tag (tx_extra_graft_rta_header _) = TX_EXTRA_GRAFT_RTA_HEADER_TAG"
| "field_tag (tx_extra_graft_rta_signatures _) = TX_EXTRA_GRAFT_RTA_SIGNATURES_TAG"

section \<open>Serializers\<close>

text \<open>
  The loader of the padding reads zeros until the end of the data, \<open>n\<close> being the loop
  variable \<^verbatim>\<open>size\<close>: a padding ends the extra data and has at most 255 bytes.
\<close>

fun load_padding :: "nat \<Rightarrow> nat loader" where
  "load_padding n [] = (if n \<le> TX_EXTRA_PADDING_MAX_COUNT then Some (n, []) else None)"
| "load_padding n (b # bs) =
     (if n \<le> TX_EXTRA_PADDING_MAX_COUNT then if b \<noteq> 0 then None else load_padding (n + 1) bs else None)"

definition save_padding :: "nat saver" where
  "save_padding n =
     (if TX_EXTRA_PADDING_MAX_COUNT < n then None else Some (replicate (n - 1) 0))"

definition save_nonce :: "string saver" where
  "save_nonce str = save_all [save_string str, save_guard (\<not> TX_EXTRA_NONCE_MAX_COUNT < length str)]"

definition load_nonce :: "string loader" where
  "load_nonce =
     load_bind load_string (\<lambda>str.
     load_bind (load_guard (\<not> TX_EXTRA_NONCE_MAX_COUNT < length str)) (\<lambda>_. load_return str))"

text \<open>The merge mining tag is a string that holds the depth as a varint and the Merkle root.\<close>

definition save_mm_helper :: "(u64 \<times> hash) saver" where
  "save_mm_helper m = save_all [save_varint (fst m), save_blob (snd m)]"

definition load_mm_helper :: "(u64 \<times> hash) loader" where
  "load_mm_helper = load_bind load_varint (\<lambda>depth. load_bind (load_blob 32) (\<lambda>root. load_return (depth, root)))"

definition save_mm_tag :: "(u64 \<times> hash) saver" where
  "save_mm_tag m =
     (case save_mm_helper m of None \<Rightarrow> None | Some field \<Rightarrow> save_string (map char_of_byte field))"

definition load_mm_tag :: "(u64 \<times> hash) loader" where
  "load_mm_tag =
     load_bind load_string (\<lambda>field.
       case parse_binary load_mm_helper (map byte_of_char field) of
         None \<Rightarrow> load_fail
       | Some m \<Rightarrow> load_return m)"

fun save_field :: "tx_extra_field saver" where
  "save_field (tx_extra_padding n) = save_tagged TX_EXTRA_TAG_PADDING (save_padding n)"
| "save_field (tx_extra_pub_key k) = save_tagged TX_EXTRA_TAG_PUBKEY (save_blob k)"
| "save_field (tx_extra_nonce s) = save_tagged TX_EXTRA_NONCE (save_nonce s)"
| "save_field (tx_extra_merge_mining_tag d r) = save_tagged TX_EXTRA_MERGE_MINING_TAG (save_mm_tag (d, r))"
| "save_field (tx_extra_additional_pub_keys ks) = save_tagged TX_EXTRA_TAG_ADDITIONAL_PUBKEYS (save_container save_blob ks)"
| "save_field (tx_extra_mysterious_minergate s) = save_tagged TX_EXTRA_MYSTERIOUS_MINERGATE_TAG (save_string s)"
| "save_field (tx_extra_graft_extra s) = save_tagged TX_EXTRA_GRAFT_EXTRA_TAG (save_string s)"
| "save_field (tx_extra_graft_stake_tx s) = save_tagged TX_EXTRA_GRAFT_STAKE_TX_TAG (save_string s)"
| "save_field (tx_extra_graft_tx_secret_key k) = save_tagged TX_EXTRA_GRAFT_TX_SECRET_KEY_TAG (save_blob k)"
| "save_field (tx_extra_graft_rta_header s) = save_tagged TX_EXTRA_GRAFT_RTA_HEADER_TAG (save_string s)"
| "save_field (tx_extra_graft_rta_signatures s) = save_tagged TX_EXTRA_GRAFT_RTA_SIGNATURES_TAG (save_string s)"

definition field_loaders :: "(u8 \<times> tx_extra_field loader) list" where
  "field_loaders =
     [(TX_EXTRA_TAG_PADDING, load_map tx_extra_padding (load_padding 1)),
      (TX_EXTRA_TAG_PUBKEY, load_map tx_extra_pub_key (load_blob 32)),
      (TX_EXTRA_NONCE, load_map tx_extra_nonce load_nonce),
      (TX_EXTRA_MERGE_MINING_TAG, load_map (\<lambda>(d, r). tx_extra_merge_mining_tag d r) load_mm_tag),
      (TX_EXTRA_TAG_ADDITIONAL_PUBKEYS, load_map tx_extra_additional_pub_keys (load_container (load_blob 32))),
      (TX_EXTRA_MYSTERIOUS_MINERGATE_TAG, load_map tx_extra_mysterious_minergate load_string),
      (TX_EXTRA_GRAFT_EXTRA_TAG, load_map tx_extra_graft_extra load_string),
      (TX_EXTRA_GRAFT_STAKE_TX_TAG, load_map tx_extra_graft_stake_tx load_string),
      (TX_EXTRA_GRAFT_TX_SECRET_KEY_TAG, load_map tx_extra_graft_tx_secret_key (load_blob 32)),
      (TX_EXTRA_GRAFT_RTA_HEADER_TAG, load_map tx_extra_graft_rta_header load_string),
      (TX_EXTRA_GRAFT_RTA_SIGNATURES_TAG, load_map tx_extra_graft_rta_signatures load_string)]"

definition load_field :: "tx_extra_field loader" where
  "load_field = load_tagged field_loaders"

section \<open>Loaders do not put bytes back\<close>

definition shrinks :: "'a loader \<Rightarrow> bool" where
  "shrinks load \<longleftrightarrow> (\<forall>bs x rest. load bs = Some (x, rest) \<longrightarrow> length rest \<le> length bs)"

named_theorems shrinks_intros

lemma shrinks_bind [shrinks_intros]:
  assumes "shrinks load" and "\<And>x. shrinks (k x)"
  shows "shrinks (load_bind load k)"
  unfolding shrinks_def
proof (intro allI impI)
  fix bs y rest
  assume "load_bind load k bs = Some (y, rest)"
  then obtain x bs' where "load bs = Some (x, bs')" "k x bs' = Some (y, rest)"
    by (rule load_bind_SomeE)
  then have "length bs' \<le> length bs" "length rest \<le> length bs'"
    using assms unfolding shrinks_def by blast+
  then show "length rest \<le> length bs" by simp
qed

lemma shrinks_basic [shrinks_intros]:
  "shrinks (load_return x)" "shrinks load_fail" "shrinks (load_guard b)" "shrinks (load_remaining n)"
  "shrinks (load_blob n)"
  by (auto simp: shrinks_def load_return_def load_fail_def load_guard_def load_remaining_def load_blob_def split: if_splits)

lemma shrinks_uint [shrinks_intros]: "shrinks load_uint"
proof -
  have "load_uint_loop n shift ret bs = Some (x, rest) \<Longrightarrow> length rest \<le> length bs" for n shift ret bs x rest
    by (induction n shift ret bs rule: load_uint_loop.induct) auto
  then show ?thesis by (auto simp: shrinks_def load_uint_def)
qed

lemma shrinks_varint [shrinks_intros]: "shrinks load_varint"
proof -
  have "read_varint_loop bits shift n w bs = (m, v, rest) \<Longrightarrow> length rest \<le> length bs" for bits shift n w bs m v rest
    by (induction bits shift n w bs rule: read_varint_loop.induct) (auto simp: Let_def split: if_splits)
  then show ?thesis by (auto simp: shrinks_def load_varint_def read_varint_def split: prod.splits)
qed

lemma shrinks_elements [shrinks_intros]: "shrinks load \<Longrightarrow> shrinks (load_elements load n)"
  by (induction n) (auto intro!: shrinks_intros)

lemma shrinks_map [shrinks_intros]: "shrinks load \<Longrightarrow> shrinks (load_map f load)"
  unfolding load_map_def by (intro shrinks_intros)

lemma shrinks_container [shrinks_intros]: "shrinks load \<Longrightarrow> shrinks (load_container load)" "shrinks load_string"
  unfolding load_container_def load_string_def by (intro shrinks_intros; assumption)+

lemma shrinks_fields [shrinks_intros]: "shrinks load_nonce" "shrinks load_mm_tag" "shrinks (load_padding n)"
proof -
  show "shrinks load_nonce" unfolding load_nonce_def by (intro shrinks_intros)
  show "shrinks load_mm_tag"
    unfolding load_mm_tag_def by (intro shrinks_intros) (simp add: shrinks_intros split: option.splits)
  have "load_padding n bs = Some (x, rest) \<Longrightarrow> length rest \<le> length bs" for bs x rest
    by (induction n bs rule: load_padding.induct) (auto split: if_splits)
  then show "shrinks (load_padding n)" by (simp add: shrinks_def)
qed

lemma shrinks_field_loaders: "map_of field_loaders t = Some load \<Longrightarrow> shrinks load"
proof -
  have "list_all (\<lambda>(t, load). shrinks load) field_loaders"
    by (simp add: field_loaders_def shrinks_intros)
  then show "map_of field_loaders t = Some load \<Longrightarrow> shrinks load"
    by (auto simp: list_all_iff dest!: map_of_SomeD)
qed

lemma load_field_shorter:
  assumes "load_field bs = Some (f, rest)"
  shows "length rest < length bs"
proof -
  obtain t bs' where t: "load_uint bs = Some (t :: u8, bs')"
      and f: "(case map_of field_loaders t of None \<Rightarrow> load_fail | Some load \<Rightarrow> load) bs' = Some (f, rest)"
    using assms unfolding load_field_def load_tagged_def by (rule load_bind_SomeE)
  then have "length rest \<le> length bs'"
    using shrinks_field_loaders [of t] by (auto simp: load_fail_def shrinks_def split: option.splits)
  also from t have "length bs' < length bs" by (cases bs) (auto simp: load_uint_def)
  finally show ?thesis .
qed

section \<open>Parsing and looking up fields\<close>

text \<open>
  \<open>parse_tx_extra\<close> returns whether all of the data was parsed, and the fields that were parsed
  before an error, which its callers use all the same.
\<close>

function parse_fields :: "byte list \<Rightarrow> bool \<times> tx_extra_field list" where
  "parse_fields bs =
     (case load_field bs of
        None \<Rightarrow> (False, [])
      | Some (field, rest) \<Rightarrow>
          if rest = [] then (True, [field])
          else let (r, fs) = parse_fields rest in (r, field # fs))"
  by auto

termination
  by (relation "measure length") (auto dest: load_field_shorter)

declare parse_fields.simps [simp del]

definition parse_tx_extra :: "byte list \<Rightarrow> bool \<times> tx_extra_field list" where
  "parse_tx_extra tx_extra = (if tx_extra = [] then (True, []) else parse_fields tx_extra)"

text \<open>
  \<open>find_tx_extra_field_by_type\<close>: the field of a type with the given index among the fields of
  that type; \<open>sel\<close> gives the content of a field of the type.
\<close>

fun find_tx_extra_field_by_type :: "(tx_extra_field \<Rightarrow> 'a option) \<Rightarrow> nat \<Rightarrow> tx_extra_field list \<Rightarrow> 'a option" where
  "find_tx_extra_field_by_type sel index [] = None"
| "find_tx_extra_field_by_type sel index (f # fs) =
     (case sel f of
        None \<Rightarrow> find_tx_extra_field_by_type sel index fs
      | Some x \<Rightarrow> if index = 0 then Some x else find_tx_extra_field_by_type sel (index - 1) fs)"

definition pub_key_of :: "tx_extra_field \<Rightarrow> blob option" where
  "pub_key_of f = (case f of tx_extra_pub_key k \<Rightarrow> Some k | _ \<Rightarrow> None)"

definition nonce_of :: "tx_extra_field \<Rightarrow> string option" where
  "nonce_of f = (case f of tx_extra_nonce s \<Rightarrow> Some s | _ \<Rightarrow> None)"

definition additional_pub_keys_of :: "tx_extra_field \<Rightarrow> blob list option" where
  "additional_pub_keys_of f = (case f of tx_extra_additional_pub_keys ks \<Rightarrow> Some ks | _ \<Rightarrow> None)"

definition stake_tx_of :: "tx_extra_field \<Rightarrow> string option" where
  "stake_tx_of f = (case f of tx_extra_graft_stake_tx s \<Rightarrow> Some s | _ \<Rightarrow> None)"

definition tx_secret_key_of :: "tx_extra_field \<Rightarrow> blob option" where
  "tx_secret_key_of f = (case f of tx_extra_graft_tx_secret_key k \<Rightarrow> Some k | _ \<Rightarrow> None)"

definition rta_header_of :: "tx_extra_field \<Rightarrow> string option" where
  "rta_header_of f = (case f of tx_extra_graft_rta_header s \<Rightarrow> Some s | _ \<Rightarrow> None)"

definition rta_signatures_of :: "tx_extra_field \<Rightarrow> string option" where
  "rta_signatures_of f = (case f of tx_extra_graft_rta_signatures s \<Rightarrow> Some s | _ \<Rightarrow> None)"

definition null_pkey :: blob where "null_pkey = replicate 32 0"

definition get_tx_pub_key_from_extra :: "byte list \<Rightarrow> nat \<Rightarrow> blob" where
  "get_tx_pub_key_from_extra tx_extra pk_index =
     (case find_tx_extra_field_by_type pub_key_of pk_index (snd (parse_tx_extra tx_extra)) of
        None \<Rightarrow> null_pkey
      | Some k \<Rightarrow> k)"

definition get_additional_tx_pub_keys_from_extra :: "byte list \<Rightarrow> blob list" where
  "get_additional_tx_pub_keys_from_extra tx_extra =
     (case find_tx_extra_field_by_type additional_pub_keys_of 0 (snd (parse_tx_extra tx_extra)) of
        None \<Rightarrow> []
      | Some ks \<Rightarrow> ks)"

section \<open>Appending and removing fields\<close>

definition add_tx_pub_key_to_extra :: "byte list \<Rightarrow> blob \<Rightarrow> byte list" where
  "add_tx_pub_key_to_extra tx_extra tx_pub_key = tx_extra @ TX_EXTRA_TAG_PUBKEY # tx_pub_key"

definition add_additional_tx_pub_keys_to_extra :: "byte list \<Rightarrow> blob list \<Rightarrow> byte list option" where
  "add_additional_tx_pub_keys_to_extra tx_extra additional_pub_keys =
     (case save_field (tx_extra_additional_pub_keys additional_pub_keys) of
        None \<Rightarrow> None
      | Some b \<Rightarrow> Some (tx_extra @ b))"

text \<open>The length of the nonce is written as one byte.\<close>

definition add_extra_nonce_to_tx_extra :: "byte list \<Rightarrow> blob \<Rightarrow> byte list option" where
  "add_extra_nonce_to_tx_extra tx_extra extra_nonce =
     (if \<not> length extra_nonce \<le> TX_EXTRA_NONCE_MAX_COUNT then None
      else Some (tx_extra @ TX_EXTRA_NONCE # word_of_nat (length extra_nonce) # extra_nonce))"

text \<open>
  \<open>remove_field_from_tx_extra\<close> writes back the fields that are not of the given type; the
  fields it writes were parsed and can therefore be saved.
\<close>

definition save_parsed :: "tx_extra_field \<Rightarrow> byte list" where
  "save_parsed f = (case save_field f of None \<Rightarrow> [] | Some b \<Rightarrow> b)"

definition remove_field_from_tx_extra :: "byte list \<Rightarrow> (tx_extra_field \<Rightarrow> bool) \<Rightarrow> bool \<times> byte list" where
  "remove_field_from_tx_extra tx_extra is_type =
     (if tx_extra = [] then (True, tx_extra)
      else let (r, fs) = parse_tx_extra tx_extra in
           if \<not> r then (False, tx_extra)
           else (True, concat (map save_parsed (filter (\<lambda>f. \<not> is_type f) fs))))"

definition set_payment_id_to_tx_extra_nonce :: "hash \<Rightarrow> blob" where
  "set_payment_id_to_tx_extra_nonce payment_id = 0x00 # payment_id"

definition set_encrypted_payment_id_to_tx_extra_nonce :: "blob \<Rightarrow> blob" where
  "set_encrypted_payment_id_to_tx_extra_nonce payment_id = 0x01 # payment_id"

definition get_payment_id_from_tx_extra_nonce :: "blob \<Rightarrow> hash option" where
  "get_payment_id_from_tx_extra_nonce extra_nonce =
     (if 32 + 1 \<noteq> length extra_nonce then None
      else if 0x00 \<noteq> hd extra_nonce then None
      else Some (tl extra_nonce))"

definition get_encrypted_payment_id_from_tx_extra_nonce :: "blob \<Rightarrow> blob option" where
  "get_encrypted_payment_id_from_tx_extra_nonce extra_nonce =
     (if 8 + 1 \<noteq> length extra_nonce then None
      else if 0x01 \<noteq> hd extra_nonce then None
      else Some (tl extra_nonce))"

section \<open>Stake transactions and RTA data\<close>

record graft_stake_tx_extra =
  gs_public_id :: string
  gs_public_address :: account_public_address
  gs_signature :: blob

definition save_graft_stake :: "graft_stake_tx_extra saver" where
  "save_graft_stake g =
     save_all [save_string (gs_public_id g), save_address (gs_public_address g), save_blob (gs_signature g)]"

definition load_graft_stake :: "graft_stake_tx_extra loader" where
  "load_graft_stake =
     load_bind load_string (\<lambda>pid. load_bind load_address (\<lambda>address. load_bind (load_blob 64) (\<lambda>signature.
     load_return \<lparr>gs_public_id = pid, gs_public_address = address, gs_signature = signature\<rparr>)))"

text \<open>
  A dumped object as the data of a field: the blob becomes a string of the field, which is dumped
  after the tag. The code does not look at the result of \<^verbatim>\<open>dump_binary\<close>.
\<close>

definition add_container_to_extra :: "u8 \<Rightarrow> 'a saver \<Rightarrow> 'a \<Rightarrow> byte list \<Rightarrow> byte list" where
  "add_container_to_extra tag save x tx_extra =
     (let blob = (case dump_binary save x of None \<Rightarrow> [] | Some b \<Rightarrow> b);
          blob = (case dump_binary save_string (map char_of_byte blob) of None \<Rightarrow> [] | Some b \<Rightarrow> b)
      in tx_extra @ tag # blob)"

definition add_graft_stake_tx_extra_to_extra ::
  "byte list \<Rightarrow> string \<Rightarrow> account_public_address \<Rightarrow> blob \<Rightarrow> byte list" where
  "add_graft_stake_tx_extra_to_extra tx_extra supernode_public_id supernode_public_address supernode_signature =
     add_container_to_extra TX_EXTRA_GRAFT_STAKE_TX_TAG save_graft_stake
       \<lparr>gs_public_id = supernode_public_id, gs_public_address = supernode_public_address,
        gs_signature = supernode_signature\<rparr> tx_extra"

definition add_graft_tx_secret_key_to_extra :: "byte list \<Rightarrow> blob \<Rightarrow> byte list" where
  "add_graft_tx_secret_key_to_extra tx_extra secret_key =
     (let blob = (case dump_binary save_blob secret_key of None \<Rightarrow> [] | Some b \<Rightarrow> b)
      in tx_extra @ TX_EXTRA_GRAFT_TX_SECRET_KEY_TAG # blob)"

definition get_graft_stake_tx_extra_from_extra ::
  "transaction \<Rightarrow> (string \<times> account_public_address \<times> blob \<times> blob) option" where
  "get_graft_stake_tx_extra_from_extra tx =
     (let tx_extra_fields = snd (parse_tx_extra (extra (tx_prefix tx))) in
      case find_tx_extra_field_by_type stake_tx_of 0 tx_extra_fields of
        None \<Rightarrow> None
      | Some data \<Rightarrow>
          (case parse_binary load_graft_stake (map byte_of_char data) of
             None \<Rightarrow> None
           | Some stake_tx \<Rightarrow>
               (case find_tx_extra_field_by_type tx_secret_key_of 0 tx_extra_fields of
                  None \<Rightarrow> None
                | Some secret_key \<Rightarrow>
                    Some (gs_public_id stake_tx, gs_public_address stake_tx, gs_signature stake_tx, secret_key))))"

definition add_graft_rta_header_to_extra :: "byte list \<Rightarrow> rta_header \<Rightarrow> byte list" where
  "add_graft_rta_header_to_extra tx_extra header =
     add_container_to_extra TX_EXTRA_GRAFT_RTA_HEADER_TAG save_rta_header header tx_extra"

definition get_graft_rta_header_from_extra :: "transaction \<Rightarrow> rta_header option" where
  "get_graft_rta_header_from_extra tx =
     (case find_tx_extra_field_by_type rta_header_of 0 (snd (parse_tx_extra (extra (tx_prefix tx)))) of
        None \<Rightarrow> None
      | Some data \<Rightarrow> parse_binary load_rta_header (map byte_of_char data))"

definition add_graft_rta_signatures_to_extra2 :: "byte list \<Rightarrow> rta_signature list \<Rightarrow> byte list" where
  "add_graft_rta_signatures_to_extra2 tx_extra rta_signatures =
     add_container_to_extra TX_EXTRA_GRAFT_RTA_SIGNATURES_TAG (save_container save_rta_signature) rta_signatures tx_extra"

definition get_graft_rta_signatures_from_extra2 :: "transaction \<Rightarrow> rta_signature list option" where
  "get_graft_rta_signatures_from_extra2 tx =
     (case find_tx_extra_field_by_type rta_signatures_of 0 (snd (parse_tx_extra (extra2 tx))) of
        None \<Rightarrow> None
      | Some data \<Rightarrow> parse_binary (load_container load_rta_signature) (map byte_of_char data))"

section \<open>Parsing what was appended\<close>

text \<open>The fields whose encoding may be followed by others: all but the padding.\<close>

fun field_fits :: "tx_extra_field \<Rightarrow> bool" where
  "field_fits (tx_extra_padding n) = False"
| "field_fits (tx_extra_pub_key k) = blob_fits 32 k"
| "field_fits (tx_extra_nonce s) = (length s \<le> TX_EXTRA_NONCE_MAX_COUNT)"
| "field_fits (tx_extra_merge_mining_tag d r) = blob_fits 32 r"
| "field_fits (tx_extra_additional_pub_keys ks) = container_fits (blob_fits 32) ks"
| "field_fits (tx_extra_mysterious_minergate s) = string_fits s"
| "field_fits (tx_extra_graft_extra s) = string_fits s"
| "field_fits (tx_extra_graft_stake_tx s) = string_fits s"
| "field_fits (tx_extra_graft_tx_secret_key k) = blob_fits 32 k"
| "field_fits (tx_extra_graft_rta_header s) = string_fits s"
| "field_fits (tx_extra_graft_rta_signatures s) = string_fits s"

lemma codes_nonce:
  assumes "length s \<le> TX_EXTRA_NONCE_MAX_COUNT"
  shows "codes (save_nonce s) load_nonce s"
proof -
  have "string_fits s" "\<not> TX_EXTRA_NONCE_MAX_COUNT < length s"
    using assms by (auto simp: string_fits_def TX_EXTRA_NONCE_MAX_COUNT_def)
  then show ?thesis
    unfolding save_nonce_def load_nonce_def
    by - (rule codes_Cons codes_ret codes_guard string_codec.codes | assumption | simp)+
qed

lemma codes_mm_tag:
  assumes "blob_fits 32 r"
  shows "codes (save_mm_tag (d, r)) load_mm_tag (d, r)"
proof -
  have helper: "codes (save_mm_helper (d, r)) load_mm_helper (d, r)"
    using assms unfolding save_mm_helper_def load_mm_helper_def
    by - (rule codes_Cons codes_ret codes_varint key_codec.codes | simp)+
  obtain b where b: "save_mm_helper (d, r) = Some b"
    using helper by (auto simp: codes_def)
  have "length (write_varint d) \<le> 10"
    by (rule length_write_varint_u64)
  then have "string_fits (map char_of_byte b)"
    using b assms by (auto simp: string_fits_def save_mm_helper_def save_varint_def save_blob_def blob_fits_def save_all.simps(1) elim!: save_all_ConsE)
  moreover have "parse_binary load_mm_helper b = Some (d, r)"
    using helper b by (rule codes_parse)
  ultimately show ?thesis
    using b codes_string [of "map char_of_byte b"]
    by (auto simp: save_mm_tag_def load_mm_tag_def codes_def load_bind_def load_return_def comp_def)
qed


interpretation field_codec: nonempty_codec save_field load_field field_fits
proof
  show "codes (save_field f) load_field f" if "field_fits f" for f
    using that unfolding load_field_def field_loaders_def
    by (cases f; simp only: save_field.simps field_fits.simps; intro codes_tagged; simp add: tag_defs)
      (rule codes_map codes_nonce codes_mm_tag string_codec.codes key_codec.codes key_codec.codes_container | simp)+
  show "save_field f \<noteq> Some []" for f
    by (cases f) (simp_all add: save_tagged_not_Nil)
qed

text \<open>The encoding of a list of fields.\<close>

definition encode_fields :: "tx_extra_field list \<Rightarrow> byte list" where
  "encode_fields fs = concat (map save_parsed fs)"

lemma save_field_parsed: "field_fits f \<Longrightarrow> save_field f = Some (save_parsed f)"
  using field_codec.codes [of f] by (auto simp: codes_def save_parsed_def)

lemma load_field_parsed: "field_fits f \<Longrightarrow> load_field (save_parsed f @ rest) = Some (f, rest)"
  using field_codec.codes [of f] by (auto simp: codes_def save_parsed_def)

lemma save_parsed_not_Nil: "field_fits f \<Longrightarrow> save_parsed f \<noteq> []"
  using field_codec.save_not_Nil [of f] save_field_parsed [of f] by auto

lemma parse_fields_encode:
  "list_all field_fits fs \<Longrightarrow> fs \<noteq> [] \<Longrightarrow> parse_fields (encode_fields fs) = (True, fs)"
proof (induction fs)
  case (Cons f fs)
  show ?case
  proof (cases "fs = []")
    case True
    then show ?thesis
      using Cons.prems load_field_parsed [of f "[]"]
      by (simp add: encode_fields_def parse_fields.simps [of "save_parsed f"])
  next
    case False
    then obtain g gs where "fs = g # gs" by (cases fs) auto
    then have "encode_fields fs \<noteq> []"
      using Cons.prems save_parsed_not_Nil [of g] by (simp add: encode_fields_def)
    with False Cons show ?thesis
      using load_field_parsed [of f "encode_fields fs"]
      by (subst parse_fields.simps) (simp add: encode_fields_def)
  qed
qed simp

lemma parse_tx_extra_encode: "list_all field_fits fs \<Longrightarrow> parse_tx_extra (encode_fields fs) = (True, fs)"
  using parse_fields_encode [of fs] save_parsed_not_Nil
  by (cases fs) (auto simp: parse_tx_extra_def encode_fields_def)

lemma save_tagged_Some: "save_tagged tag (Some b) = Some (tag # b)"
  by (simp add: save_tagged_def save_uint_def word_size save_all_Some save_all.simps(1) byte_and_0xff)

lemma encode_append: "encode_fields (fs @ [f]) = encode_fields fs @ save_parsed f"
  by (simp add: encode_fields_def)

lemma add_tx_pub_key_encode:
  "add_tx_pub_key_to_extra (encode_fields fs) k = encode_fields (fs @ [tx_extra_pub_key k])"
  by (simp add: add_tx_pub_key_to_extra_def encode_append save_parsed_def save_blob_def save_tagged_Some)

lemma add_additional_encode:
  assumes "container_fits (blob_fits 32) ks"
  shows "add_additional_tx_pub_keys_to_extra (encode_fields fs) ks = Some (encode_fields (fs @ [tx_extra_additional_pub_keys ks]))"
  using save_field_parsed [of "tx_extra_additional_pub_keys ks"] assms
  by (simp add: add_additional_tx_pub_keys_to_extra_def encode_append del: save_field.simps)

lemma add_extra_nonce_encode:
  assumes "length s < 0x80"
  shows "add_extra_nonce_to_tx_extra (encode_fields fs) (map byte_of_char s) = Some (encode_fields (fs @ [tx_extra_nonce s]))"
proof -
  have u: "unat (word_of_nat (length s) :: u64) = length s"
    using assms by (intro unat_length_u64) simp
  have "unat (ucast (word_of_nat (length s) :: u64) :: byte) = unat (word_of_nat (length s) :: byte)"
    using final_byte(4) [of "word_of_nat (length s) :: u64"] assms u by (simp add: unat_of_nat)
  then have "ucast (word_of_nat (length s) :: u64) = (word_of_nat (length s) :: byte)"
    by (simp add: word_eq_iff_unsigned [where 'a = nat])
  then have "write_varint (word_of_nat (length s) :: u64) = [word_of_nat (length s)]"
    using assms u by (subst write_varint.simps) simp
  then have "save_nonce s = Some (word_of_nat (length s) # map byte_of_char s)"
    using assms
    by (simp add: save_nonce_def save_string_def save_varint_def save_blob_def save_guard_def save_all_Some save_all.simps(1)
      TX_EXTRA_NONCE_MAX_COUNT_def)
  with assms show ?thesis
    by (simp add: add_extra_nonce_to_tx_extra_def encode_append save_parsed_def save_tagged_Some TX_EXTRA_NONCE_MAX_COUNT_def)
qed

lemma add_container_encode:
  assumes "save x = Some b" and "string_fits (map char_of_byte b)"
    and "\<And>s. save_field (f s) = save_tagged tag (save_string s)"
  shows "add_container_to_extra tag save x (encode_fields fs) = encode_fields (fs @ [f (map char_of_byte b)])"
proof -
  obtain bs where "save_string (map char_of_byte b) = Some bs"
    using codes_string [OF assms(2)] by (auto simp: codes_def)
  with assms(1,3) show ?thesis
    by (simp add: add_container_to_extra_def dump_binary_def encode_append save_parsed_def save_tagged_Some)
qed

lemma add_tx_secret_key_encode:
  "add_graft_tx_secret_key_to_extra (encode_fields fs) k = encode_fields (fs @ [tx_extra_graft_tx_secret_key k])"
  by (simp add: add_graft_tx_secret_key_to_extra_def encode_append save_parsed_def save_blob_def save_tagged_Some dump_binary_def)

lemma find_append_None:
  "(\<forall>f \<in> set fs. sel f = None) \<Longrightarrow> find_tx_extra_field_by_type sel 0 (fs @ gs) = find_tx_extra_field_by_type sel 0 gs"
  by (induction fs) auto

definition graft_stake_fits :: "graft_stake_tx_extra \<Rightarrow> bool" where
  "graft_stake_fits g \<longleftrightarrow> length (gs_public_id g) < 2 ^ 32 \<and> address_fits (gs_public_address g) \<and> blob_fits 64 (gs_signature g)"

lemma codes_graft_stake:
  assumes "graft_stake_fits g"
  shows "codes (save_graft_stake g) load_graft_stake g"
proof -
  have "string_fits (gs_public_id g)" "address_fits (gs_public_address g)" "blob_fits 64 (gs_signature g)"
    using assms by (auto simp: graft_stake_fits_def string_fits_def)
  then show ?thesis
    unfolding save_graft_stake_def load_graft_stake_def
    by - (rule codes_Cons codes_ret string_codec.codes address_codec.codes signature_codec.codes | assumption | simp)+
qed

lemma length_save_graft_stake:
  assumes "graft_stake_fits g" and "save_graft_stake g = Some b"
  shows "string_fits (map char_of_byte b)"
proof -
  have "length (write_varint (word_of_nat (length (gs_public_id g)) :: u64)) \<le> 10"
    by (rule length_write_varint_u64)
  then have "length b \<le> 10 + length (gs_public_id g) + 128"
    using assms
    by (auto simp: save_graft_stake_def graft_stake_fits_def save_string_def save_address_def save_varint_def save_blob_def
      address_fits_def blob_fits_def save_all.simps(1) elim!: save_all_ConsE)
  then show ?thesis using assms(1) by (simp add: graft_stake_fits_def string_fits_def)
qed


lemma added_stake_tx_extra:
  assumes "list_all field_fits fs" and "\<forall>f \<in> set fs. stake_tx_of f = None \<and> tx_secret_key_of f = None"
    and "length pid < 2 ^ 32" and "address_fits address" and "blob_fits 64 signature" and "blob_fits 32 secret_key"
    and "extra (tx_prefix tx) =
      add_graft_tx_secret_key_to_extra (add_graft_stake_tx_extra_to_extra (encode_fields fs) pid address signature) secret_key"
  shows "get_graft_stake_tx_extra_from_extra tx = Some (pid, address, signature, secret_key)"
proof -
  let ?g = "\<lparr>gs_public_id = pid, gs_public_address = address, gs_signature = signature\<rparr>"
  have fits: "graft_stake_fits ?g" using assms(3-5) by (simp add: graft_stake_fits_def)
  then obtain b where b: "save_graft_stake ?g = Some b"
    using codes_graft_stake by (auto simp: codes_def)
  note str = length_save_graft_stake [OF fits b]
  let ?fs = "fs @ [tx_extra_graft_stake_tx (map char_of_byte b), tx_extra_graft_tx_secret_key secret_key]"
  have "extra (tx_prefix tx) = encode_fields ?fs"
    using add_container_encode [where f = tx_extra_graft_stake_tx and save = save_graft_stake, OF b str]
    by (simp add: assms(7) add_graft_stake_tx_extra_to_extra_def add_tx_secret_key_encode)
  moreover have "list_all field_fits ?fs"
    using assms(1,6) str by simp
  ultimately have "snd (parse_tx_extra (extra (tx_prefix tx))) = ?fs"
    by (simp add: parse_tx_extra_encode)
  moreover have "parse_binary load_graft_stake b = Some ?g"
    using codes_graft_stake [OF fits] b by (rule codes_parse)
  ultimately show ?thesis
    using assms(2)
    by (simp add: get_graft_stake_tx_extra_from_extra_def find_append_None stake_tx_of_def tx_secret_key_of_def comp_def)
qed

text \<open>
  C10. The stake data and the secret key that a wallet appends to the extra data of a transaction
  are what a node reads from it, whatever other fields come before, as long as none of them is of
  these two types.
\<close>

theorem get_added_stake_tx_extra:
  assumes "list_all field_fits fs" and "\<forall>f \<in> set fs. stake_tx_of f = None \<and> tx_secret_key_of f = None"
    and "length pid < 2 ^ 32" and "address_fits address" and "blob_fits 64 signature" and "blob_fits 32 secret_key"
    and "extra (tx_prefix tx) =
      add_graft_tx_secret_key_to_extra (add_graft_stake_tx_extra_to_extra (encode_fields fs) pid address signature) secret_key"
  shows "get_graft_stake_tx_extra_from_extra tx = Some (pid, address, signature, secret_key)"
  using assms by (rule added_stake_tx_extra)

text \<open>
  Removing the fields of a type from the extra data leaves the other fields, in their order.
\<close>

theorem remove_field_keeps_others:
  assumes "list_all field_fits fs"
  shows "\<exists>rest. remove_field_from_tx_extra (encode_fields fs) is_type = (True, rest) \<and>
    parse_tx_extra rest = (True, filter (\<lambda>f. \<not> is_type f) fs)"
proof (intro exI conjI)
  show "remove_field_from_tx_extra (encode_fields fs) is_type = (True, encode_fields (filter (\<lambda>f. \<not> is_type f) fs))"
    using parse_tx_extra_encode [OF assms] save_parsed_not_Nil assms
    by (cases fs) (auto simp: remove_field_from_tx_extra_def encode_fields_def)
  show "parse_tx_extra (encode_fields (filter (\<lambda>f. \<not> is_type f) fs)) = (True, filter (\<lambda>f. \<not> is_type f) fs)"
    using assms by (intro parse_tx_extra_encode) (auto simp: list_all_iff)
qed

lemma read_varint_loop_rest:
  "read_varint_loop bits shift n w bs = (m, v, rest) \<Longrightarrow> length rest \<le> length bs - 1"
  by (induction bits shift n w bs rule: read_varint_loop.induct) (auto simp: Let_def split: if_splits)

lemma read_varint_rest:
  assumes "read_varint (b # bs) = (m, v :: u64, rest)" and "bit b 7"
  shows "length rest \<le> length bs - 1"
proof -
  have "b \<noteq> 0" using assms(2) by auto
  then have "read_varint_loop 64 7 1 (ucast (b AND 0x7f)) bs = (m, v, rest)"
    using assms by (simp add: read_varint_def and_0x80)
  then show ?thesis by (rule read_varint_loop_rest)
qed

lemma load_string_length:
  assumes "load_string bs = Some (s, rest)"
  shows "length s + length rest \<le> length bs"
    and "bs = b # bs' \<Longrightarrow> bit b 7 \<Longrightarrow> length s + length rest \<le> length bs' - 1"
proof -
  obtain m and sz :: u64 and bs1 where sz: "read_varint bs = (m, sz, bs1)" and len: "length s + length rest = length bs1"
    using assms
    by (auto simp: load_string_def load_varint_def load_remaining_def load_blob_def load_return_def elim!: load_bind_SomeE
      split: if_splits prod.splits)
  have "length bs1 \<le> length bs - 1"
    using sz by (auto simp: read_varint_def dest: read_varint_loop_rest)
  with len show "length s + length rest \<le> length bs" by simp
  show "length s + length rest \<le> length bs' - 1" if "bs = b # bs'" "bit b 7"
    using read_varint_rest [of b bs' m sz bs1] sz that len by simp
qed

lemma load_field_nonce:
  assumes "load_field (t # bs) = Some (tx_extra_nonce s, rest)"
  shows "load_string bs = Some (s, rest)"
  using assms unfolding load_field_def load_tagged_def field_loaders_def
  by (auto simp: load_uint_def load_map_def load_nonce_def load_return_def load_fail_def tag_defs
    elim!: load_bind_SomeE load_guard_SomeE split: if_splits prod.splits)

lemma parsed_nonce_shorter:
  "tx_extra_nonce s \<in> set (snd (parse_fields bs)) \<Longrightarrow> length s < length bs"
proof (induction bs rule: parse_fields.induct)
  case (1 bs)
  then obtain f rest where f: "load_field bs = Some (f, rest)"
    by (subst (asm) (2) parse_fields.simps) (auto split: option.splits)
  then have short: "length rest < length bs" by (rule load_field_shorter)
  then obtain t bs' where bs: "bs = t # bs'" by (cases bs) auto
  have "f = tx_extra_nonce s \<or> (rest \<noteq> [] \<and> tx_extra_nonce s \<in> set (snd (parse_fields rest)))"
    using 1(2) f by (subst (asm) parse_fields.simps) (auto split: if_splits prod.splits)
  then show ?case
  proof (elim disjE conjE)
    assume "f = tx_extra_nonce s"
    then have "load_string bs' = Some (s, rest)"
      using f load_field_nonce by (simp add: bs)
    then show ?thesis using load_string_length(1) by (fastforce simp: bs)
  next
    assume "rest \<noteq> []" "tx_extra_nonce s \<in> set (snd (parse_fields rest))"
    then have "length s < length rest" using 1(1) f by simp
    with short show ?thesis by simp
  qed
qed

lemma find_nonce_in: "find_tx_extra_field_by_type nonce_of i fs = Some s \<Longrightarrow> tx_extra_nonce s \<in> set fs"
  by (induction fs arbitrary: i)
    (auto simp: nonce_of_def split: option.splits if_splits tx_extra_field.splits)

lemma long_nonce_not_read:
  assumes "add_extra_nonce_to_tx_extra [] n = Some ex" and "128 \<le> length n"
  shows "tx_extra_nonce (map char_of_byte n) \<notin> set (snd (parse_tx_extra ex))"
proof
  let ?s = "map char_of_byte n"
  let ?b = "word_of_nat (length n) :: byte"
  have le: "length n \<le> 255" and ex: "ex = TX_EXTRA_NONCE # ?b # n"
    using assms(1) by (auto simp: add_extra_nonce_to_tx_extra_def TX_EXTRA_NONCE_MAX_COUNT_def split: if_splits)
  have "unat ?b = length n" using le by (simp add: unat_of_nat)
  then have bit: "bit ?b 7" using assms(2) unat_byte_less [of ?b] by simp
  assume "tx_extra_nonce ?s \<in> set (snd (parse_tx_extra ex))"
  then have in_set: "tx_extra_nonce ?s \<in> set (snd (parse_fields ex))"
    by (simp add: parse_tx_extra_def ex)
  then obtain f rest where f: "load_field ex = Some (f, rest)"
    by (subst (asm) parse_fields.simps) (auto split: option.splits)
  have load: "length rest \<le> length n - 1" if "load_string (?b # n) = Some (s, rest)" for s
    using load_string_length(2) [OF that refl bit] by simp
  have "\<exists>s. f = tx_extra_nonce s \<and> load_string (?b # n) = Some (s, rest) \<and> length s + length rest \<le> length n - 1"
    using f load_string_length(2) [OF _ refl bit] unfolding load_field_def load_tagged_def field_loaders_def ex
    by (auto simp: load_uint_def load_map_def load_nonce_def load_return_def tag_defs elim!: load_bind_SomeE load_guard_SomeE)
  then obtain s where s: "f = tx_extra_nonce s" "length s + length rest \<le> length n - 1" by blast
  have "f = tx_extra_nonce ?s \<or> tx_extra_nonce ?s \<in> set (snd (parse_fields rest))"
    using in_set f by (subst (asm) parse_fields.simps) (auto split: if_splits prod.splits)
  then have "length ?s \<le> length n - 1"
    using s parsed_nonce_shorter [of ?s rest] by (auto simp del: length_map)
  with assms(2) show False by simp
qed

text \<open>
  C11. The nonce that is appended to the extra data is read back, if it is shorter than 128 bytes.
  A longer one, up to 255 bytes, is accepted and can never be read back: its length is written
  as one byte but read as a varint.
\<close>

theorem extra_nonce_length_byte:
  "(list_all field_fits fs \<and> length s < 128 \<longrightarrow>
     (\<exists>ex. add_extra_nonce_to_tx_extra (encode_fields fs) (map byte_of_char s) = Some ex \<and>
        parse_tx_extra ex = (True, fs @ [tx_extra_nonce s]))) \<and>
   (128 \<le> length n \<and> length n \<le> TX_EXTRA_NONCE_MAX_COUNT \<longrightarrow>
     (\<exists>ex. add_extra_nonce_to_tx_extra [] n = Some ex \<and>
        find_tx_extra_field_by_type nonce_of i (snd (parse_tx_extra ex)) \<noteq> Some (map char_of_byte n)))"
proof (intro conjI impI)
  assume "list_all field_fits fs \<and> length s < 128"
  then show "\<exists>ex. add_extra_nonce_to_tx_extra (encode_fields fs) (map byte_of_char s) = Some ex \<and>
        parse_tx_extra ex = (True, fs @ [tx_extra_nonce s])"
    by (simp add: add_extra_nonce_encode parse_tx_extra_encode TX_EXTRA_NONCE_MAX_COUNT_def)
next
  assume n: "128 \<le> length n \<and> length n \<le> TX_EXTRA_NONCE_MAX_COUNT"
  then obtain ex where ex: "add_extra_nonce_to_tx_extra [] n = Some ex"
    by (simp add: add_extra_nonce_to_tx_extra_def)
  with long_nonce_not_read [OF ex] n find_nonce_in show "\<exists>ex. add_extra_nonce_to_tx_extra [] n = Some ex \<and>
        find_tx_extra_field_by_type nonce_of i (snd (parse_tx_extra ex)) \<noteq> Some (map char_of_byte n)"
    by blast
qed

section \<open>Witnesses\<close>

definition example_supernode_address :: account_public_address where
  "example_supernode_address = \<lparr>m_spend_public_key = replicate 32 1, m_view_public_key = replicate 32 2\<rparr>"

definition example_stake_tx :: transaction where
  "example_stake_tx = example_transaction\<lparr>tx_prefix := example_prefix\<lparr>extra :=
     add_graft_tx_secret_key_to_extra (add_graft_stake_tx_extra_to_extra
       (encode_fields [tx_extra_pub_key (replicate 32 5)]) ''sn'' example_supernode_address (replicate 64 8)) (replicate 32 9)\<rparr>\<rparr>"

theorem get_added_stake_tx_extra_witness:
  "get_graft_stake_tx_extra_from_extra example_stake_tx =
     Some (''sn'', example_supernode_address, replicate 64 8, replicate 32 9)"
  by (rule get_added_stake_tx_extra [where fs = "[tx_extra_pub_key (replicate 32 5)]"])
    (simp_all add: stake_tx_of_def tx_secret_key_of_def blob_fits_def address_fits_def example_supernode_address_def example_stake_tx_def)

theorem remove_field_keeps_others_witness:
  "\<exists>rest. remove_field_from_tx_extra
       (encode_fields [tx_extra_pub_key (replicate 32 5), tx_extra_nonce ''a'']) (\<lambda>f. nonce_of f \<noteq> None) = (True, rest) \<and>
     parse_tx_extra rest = (True, [tx_extra_pub_key (replicate 32 5)])"
  using remove_field_keeps_others [of "[tx_extra_pub_key (replicate 32 5), tx_extra_nonce ''a'']" "\<lambda>f. nonce_of f \<noteq> None"]
  by (simp add: blob_fits_def TX_EXTRA_NONCE_MAX_COUNT_def nonce_of_def)

theorem extra_nonce_length_byte_witness:
  "(\<exists>ex. add_extra_nonce_to_tx_extra (encode_fields []) (map byte_of_char ''abc'') = Some ex \<and>
      parse_tx_extra ex = (True, [tx_extra_nonce ''abc''])) \<and>
   (\<exists>ex. add_extra_nonce_to_tx_extra [] (replicate 200 1) = Some ex \<and>
      find_tx_extra_field_by_type nonce_of 0 (snd (parse_tx_extra ex)) \<noteq> Some (map char_of_byte (replicate 200 1)))"
proof -
  note claim = extra_nonce_length_byte [of "[]" "''abc''" "replicate 200 1" 0]
  have "list_all field_fits [] \<and> length ''abc'' < 128" "128 \<le> length (replicate 200 (1 :: byte)) \<and>
      length (replicate 200 (1 :: byte)) \<le> TX_EXTRA_NONCE_MAX_COUNT"
    by (simp_all add: TX_EXTRA_NONCE_MAX_COUNT_def)
  with claim show ?thesis by simp
qed

end
