(* ===== verification/Keccak.thy ===== *)
theory Keccak
  imports Binary_Archive
begin

text \<open>
  Model of \<^verbatim>\<open>src/crypto/keccak.c\<close> and \<^verbatim>\<open>src/crypto/hash.c\<close>: the
  permutation Keccak-f on 25 words of 64 bits, the hash of a message in one call, the hash of
  a message in parts with a context that keeps the bytes of an unfinished block, and
  \<open>cn_fast_hash\<close>. The theorems show when the hash function returns and that the two ways
  of hashing agree.
\<close>

unbundle bit_operations_syntax

section \<open>The permutation\<close>

definition KECCAK_ROUNDS :: nat where "KECCAK_ROUNDS = 24"

definition ROTL64 :: "u64 \<Rightarrow> nat \<Rightarrow> u64" where
  "ROTL64 x y = push_bit y x OR drop_bit (64 - y) x"

definition keccakf_rndc :: "u64 list" where
  "keccakf_rndc =
    [0x0000000000000001, 0x0000000000008082, 0x800000000000808a,
     0x8000000080008000, 0x000000000000808b, 0x0000000080000001,
     0x8000000080008081, 0x8000000000008009, 0x000000000000008a,
     0x0000000000000088, 0x0000000080008009, 0x000000008000000a,
     0x000000008000808b, 0x800000000000008b, 0x8000000000008089,
     0x8000000000008003, 0x8000000000008002, 0x8000000000000080,
     0x000000000000800a, 0x800000008000000a, 0x8000000080008081,
     0x8000000000008080, 0x0000000080000001, 0x8000000080008008]"

definition keccakf_rotc :: "nat list" where
  "keccakf_rotc =
    [1,  3,  6,  10, 15, 21, 28, 36, 45, 55, 2,  14,
     27, 41, 56, 8,  25, 43, 62, 18, 39, 61, 20, 44]"

definition keccakf_piln :: "nat list" where
  "keccakf_piln =
    [10, 7,  11, 17, 18, 3, 5,  16, 8,  21, 24, 4,
     15, 23, 19, 13, 12, 2, 20, 14, 22, 9,  6,  1]"

definition theta :: "u64 list \<Rightarrow> u64 list" where
  "theta st =
     (let bc = map (\<lambda>i. st ! i XOR st ! (i + 5) XOR st ! (i + 10) XOR st ! (i + 15) XOR st ! (i + 20)) [0..<5]
      in fold (\<lambda>i st.
           let t = bc ! ((i + 4) mod 5) XOR ROTL64 (bc ! ((i + 1) mod 5)) 1
           in fold (\<lambda>j st. st[j + i := st ! (j + i) XOR t]) [0, 5, 10, 15, 20] st) [0..<5] st)"

definition rho_pi :: "u64 list \<Rightarrow> u64 list" where
  "rho_pi st =
     fst (fold (\<lambda>i (st, t).
           let j = keccakf_piln ! i;
               bc0 = st ! j
           in (st[j := ROTL64 t (keccakf_rotc ! i)], bc0)) [0..<24] (st, st ! 1))"

definition chi :: "u64 list \<Rightarrow> u64 list" where
  "chi st =
     fold (\<lambda>j st.
       let bc = map (\<lambda>i. st ! (j + i)) [0..<5]
       in fold (\<lambda>i st. st[j + i := st ! (j + i) XOR (NOT (bc ! ((i + 1) mod 5)) AND bc ! ((i + 2) mod 5))])
            [0..<5] st) [0, 5, 10, 15, 20] st"

definition iota :: "nat \<Rightarrow> u64 list \<Rightarrow> u64 list" where
  "iota round st = st[0 := st ! 0 XOR keccakf_rndc ! round]"

definition keccakf :: "u64 list \<Rightarrow> nat \<Rightarrow> u64 list" where
  "keccakf st rounds = fold (\<lambda>round st. iota round (chi (rho_pi (theta st)))) [0..<rounds] st"

section \<open>Hashing in one call\<close>

definition HASH_SIZE :: nat where "HASH_SIZE = 32"
definition HASH_DATA_AREA :: nat where "HASH_DATA_AREA = 136"

text \<open>
  The arrays of 64-bit words are read from and written to bytes on a little-endian machine,
  where \<^verbatim>\<open>swap64le\<close> is the identity.
\<close>

definition word_at :: "byte list \<Rightarrow> nat \<Rightarrow> u64" where
  "word_at bs i = foldr (\<lambda>b w. ucast b OR push_bit 8 w) (take 8 (drop (8 * i) bs)) 0"

definition words_bytes :: "u64 list \<Rightarrow> byte list" where
  "words_bytes ws = concat (map (uint_bytes 8) ws)"

definition xor_words :: "nat \<Rightarrow> byte list \<Rightarrow> u64 list \<Rightarrow> u64 list" where
  "xor_words n bs st = fold (\<lambda>i st. st[i := st ! i XOR word_at bs i]) [0..<n] st"

text \<open>
  \<open>None\<close> stands for not returning: the loop over the full blocks does not end when the
  block size is 0, and \<^verbatim>\<open>local_abort\<close> leaves the program.
\<close>

partial_function (option) keccak_absorb :: "nat \<Rightarrow> u64 list \<Rightarrow> byte list \<Rightarrow> (u64 list \<times> byte list) option" where
  "keccak_absorb rsiz st inp =
     (if rsiz \<le> length inp
      then keccak_absorb rsiz (keccakf (xor_words (rsiz div 8) inp st) KECCAK_ROUNDS) (drop rsiz inp)
      else Some (st, inp))"

declare keccak_absorb.simps [code]

definition keccak_pad :: "nat \<Rightarrow> byte list \<Rightarrow> byte list" where
  "keccak_pad rsiz inp =
     (let temp = inp @ [1] @ replicate (rsiz - (length inp + 1)) 0
      in temp[rsiz - 1 := temp ! (rsiz - 1) OR 0x80])"

definition keccak :: "byte list \<Rightarrow> int \<Rightarrow> byte list option" where
  "keccak inp mdlen =
     (if mdlen \<le> 0 \<or> (100 < mdlen \<and> mdlen \<noteq> 200) then None
      else
        let rsiz = (if mdlen = 200 then HASH_DATA_AREA else 200 - 2 * nat mdlen);
            rsizw = rsiz div 8
        in case keccak_absorb rsiz (replicate 25 0) inp of
             None \<Rightarrow> None
           | Some (st, inp) \<Rightarrow>
               if 144 \<le> length inp + 1 \<or> rsiz < length inp \<or> 144 \<le> rsiz - length inp + length inp + 1 \<or>
                  rsiz = 0 \<or> 144 \<le> rsiz - 1 \<or> 144 < rsizw * 8 then None
               else
                 let st = keccakf (xor_words rsizw (keccak_pad rsiz inp) st) KECCAK_ROUNDS
                 in if nat mdlen mod 8 \<noteq> 0 then None
                    else Some (words_bytes (take (nat mdlen div 8) st)))"

definition keccak1600 :: "byte list \<Rightarrow> byte list option" where
  "keccak1600 inp = keccak inp 200"

text \<open>\<open>keccak1600\<close> always returns (\<open>keccak1600_returns\<close>).\<close>

definition cn_fast_hash :: "byte list \<Rightarrow> hash" where
  "cn_fast_hash data = (case keccak1600 data of None \<Rightarrow> [] | Some state \<Rightarrow> take HASH_SIZE state)"

section \<open>Hashing in parts\<close>

definition KECCAK_BLOCKLEN :: nat where "KECCAK_BLOCKLEN = 136"
definition KECCAK_WORDS :: nat where "KECCAK_WORDS = 17"
definition KECCAK_DIGESTSIZE :: nat where "KECCAK_DIGESTSIZE = 32"
definition KECCAK_FINALIZED :: nat where "KECCAK_FINALIZED = 0x80000000"

record keccak_ctx =
  ctx_hash :: "u64 list"
  ctx_message :: "byte list"
  ctx_rest :: nat

definition KECCAK_PROCESS_BLOCK :: "byte list \<Rightarrow> u64 list \<Rightarrow> u64 list" where
  "KECCAK_PROCESS_BLOCK block st = keccakf (xor_words KECCAK_WORDS block st) KECCAK_ROUNDS"

definition keccak_init :: keccak_ctx where
  "keccak_init = \<lparr>ctx_hash = replicate 25 0, ctx_message = replicate 136 0, ctx_rest = 0\<rparr>"

definition memcpy :: "nat \<Rightarrow> byte list \<Rightarrow> byte list \<Rightarrow> byte list" where
  "memcpy pos src dst = take pos dst @ src @ drop (pos + length src) dst"

function keccak_blocks :: "bool \<Rightarrow> byte list \<Rightarrow> keccak_ctx \<Rightarrow> keccak_ctx \<times> byte list" where
  "keccak_blocks is_aligned inp ctx =
     (if KECCAK_BLOCKLEN \<le> length inp
      then
        let ctx = (if is_aligned then ctx else ctx\<lparr>ctx_message := take KECCAK_BLOCKLEN inp\<rparr>);
            aligned_message_block = (if is_aligned then inp else ctx_message ctx)
        in keccak_blocks is_aligned (drop KECCAK_BLOCKLEN inp)
             (ctx\<lparr>ctx_hash := KECCAK_PROCESS_BLOCK aligned_message_block (ctx_hash ctx)\<rparr>)
      else (ctx, inp))"
  by auto

termination
  by (relation "measure (\<lambda>(_, inp, _). length inp)") (auto simp: KECCAK_BLOCKLEN_def)

declare keccak_blocks.simps [simp del]

text \<open>
  Whether the input is aligned to 8 bytes depends on the address of its first byte:
  \<open>aligned n\<close> says so for the byte \<open>n\<close> of the input.
\<close>

definition keccak_update :: "(nat \<Rightarrow> bool) \<Rightarrow> byte list \<Rightarrow> keccak_ctx \<Rightarrow> keccak_ctx option" where
  "keccak_update aligned inp ctx =
     (if ctx_rest ctx AND KECCAK_FINALIZED \<noteq> 0 then None
      else
        let idx = ctx_rest ctx;
            ctx = ctx\<lparr>ctx_rest := (ctx_rest ctx + length inp) mod KECCAK_BLOCKLEN\<rparr>;
            left = KECCAK_BLOCKLEN - idx;
            ctx = (if idx \<noteq> 0
                   then ctx\<lparr>ctx_message := memcpy idx (take (if length inp < left then length inp else left) inp) (ctx_message ctx)\<rparr>
                   else ctx)
        in if idx \<noteq> 0 \<and> length inp < left then Some ctx
           else
             let ctx = (if idx \<noteq> 0 then ctx\<lparr>ctx_hash := KECCAK_PROCESS_BLOCK (ctx_message ctx) (ctx_hash ctx)\<rparr> else ctx);
                 skipped = (if idx \<noteq> 0 then left else 0);
                 (ctx, inp) = keccak_blocks (aligned skipped) (drop skipped inp) ctx
             in Some (if inp \<noteq> [] then ctx\<lparr>ctx_message := memcpy 0 inp (ctx_message ctx)\<rparr> else ctx))"

definition keccak_finish :: "keccak_ctx \<Rightarrow> byte list \<times> keccak_ctx" where
  "keccak_finish ctx =
     (let ctx = (if ctx_rest ctx AND KECCAK_FINALIZED \<noteq> 0 then ctx
                 else
                   let message = memcpy (ctx_rest ctx) (replicate (KECCAK_BLOCKLEN - ctx_rest ctx) 0) (ctx_message ctx);
                       message = message[ctx_rest ctx := message ! ctx_rest ctx OR 0x01];
                       message = message[KECCAK_BLOCKLEN - 1 := message ! (KECCAK_BLOCKLEN - 1) OR 0x80]
                   in ctx\<lparr>ctx_message := message,
                          ctx_hash := KECCAK_PROCESS_BLOCK message (ctx_hash ctx),
                          ctx_rest := KECCAK_FINALIZED\<rparr>)
      in (take KECCAK_DIGESTSIZE (words_bytes (ctx_hash ctx)), ctx))"

section \<open>Lengths\<close>

lemma length_fold_update:
  "(\<And>x st. x \<in> set xs \<Longrightarrow> length (f x st) = length st) \<Longrightarrow> length (fold f xs st) = length (st :: 'a list)"
  by (induction xs arbitrary: st) auto

lemma length_theta [simp]: "length (theta st) = length st"
  by (simp add: theta_def Let_def length_fold_update)

lemma length_chi [simp]: "length (chi st) = length st"
  by (simp add: chi_def Let_def length_fold_update)

lemma length_rho_pi [simp]: "length (rho_pi st) = length st"
proof -
  have "length (fst (fold (\<lambda>i (st, t). let j = keccakf_piln ! i; bc0 = st ! j
          in (st[j := ROTL64 t (keccakf_rotc ! i)], bc0)) xs p)) = length (fst p)" for xs p
    by (induction xs arbitrary: p) (auto simp: Let_def split: prod.splits)
  then show ?thesis
    by (simp add: rho_pi_def)
qed

lemma length_keccakf [simp]: "length (keccakf st rounds) = length st"
  by (simp add: keccakf_def iota_def length_fold_update)

lemma length_xor_words [simp]: "length (xor_words n bs st) = length st"
  by (simp add: xor_words_def length_fold_update)

lemma length_words_bytes [simp]: "length (words_bytes ws) = 8 * length ws"
  by (induction ws) (simp_all add: words_bytes_def)

lemma take_words_bytes: "take (8 * n) (words_bytes ws) = words_bytes (take n ws)"
proof (induction ws arbitrary: n)
  case (Cons w ws)
  then show ?case
    by (cases n) (simp_all add: words_bytes_def)
qed (simp add: words_bytes_def)

section \<open>The loop over the full blocks\<close>

lemma word_at_append: "8 * i + 8 \<le> length bs \<Longrightarrow> word_at (bs @ zs) i = word_at bs i"
  by (simp add: word_at_def)

lemma xor_words_cong:
  "(\<And>i. i < n \<Longrightarrow> word_at bs i = word_at bs' i) \<Longrightarrow> xor_words n bs st = xor_words n bs' st"
  unfolding xor_words_def by (rule fold_cong) auto

lemma xor_words_append: "8 * n \<le> length bs \<Longrightarrow> xor_words n (bs @ zs) st = xor_words n bs st"
  by (rule xor_words_cong) (simp add: word_at_append)

lemma xor_words_take: "8 * n \<le> m \<Longrightarrow> m \<le> length bs \<Longrightarrow> xor_words n (take m bs) st = xor_words n bs st"
  using xor_words_append [of n "take m bs" "drop m bs" st] by simp

lemma keccak_absorb_short: "length inp < n \<Longrightarrow> keccak_absorb n st inp = Some (st, inp)"
  by (subst keccak_absorb.simps) simp

lemma keccak_absorb_block:
  "n \<le> length inp \<Longrightarrow>
   keccak_absorb n st inp = keccak_absorb n (keccakf (xor_words (n div 8) inp st) KECCAK_ROUNDS) (drop n inp)"
  by (subst keccak_absorb.simps) simp

lemma keccak_absorb_0: "keccak_absorb 0 st inp = None"
proof -
  have "keccak_absorb n st inp = Some y \<Longrightarrow> n \<noteq> 0" for n y
    by (rule keccak_absorb.raw_induct [where P = "\<lambda>n _ _ _. n \<noteq> 0"]) (auto split: if_splits)
  then show ?thesis
    by (cases "keccak_absorb 0 st inp") auto
qed

lemma keccak_absorb_returns:
  "0 < n \<Longrightarrow> \<exists>st' r. keccak_absorb n st inp = Some (st', r) \<and> length st' = length st \<and>
     length r = length inp mod n"
proof (induction "length inp" arbitrary: st inp rule: less_induct)
  case less
  show ?case
  proof (cases "n \<le> length inp")
    case True
    have "\<exists>st' r. keccak_absorb n (keccakf (xor_words (n div 8) inp st) KECCAK_ROUNDS) (drop n inp) = Some (st', r) \<and>
        length st' = length (keccakf (xor_words (n div 8) inp st) KECCAK_ROUNDS) \<and> length r = length (drop n inp) mod n"
      using less.prems True by (intro less.hyps) auto
    with True show ?thesis
      by (simp add: keccak_absorb_block le_mod_geq)
  qed (simp add: keccak_absorb_short)
qed

lemma keccak_absorb_append:
  "0 < n \<Longrightarrow> keccak_absorb n st inp = Some (st', r) \<Longrightarrow> keccak_absorb n st (inp @ zs) = keccak_absorb n st' (r @ zs)"
proof (induction "length inp" arbitrary: st inp rule: less_induct)
  case less
  show ?case
  proof (cases "n \<le> length inp")
    case True
    have "keccak_absorb n (keccakf (xor_words (n div 8) inp st) KECCAK_ROUNDS) (drop n inp @ zs) =
        keccak_absorb n st' (r @ zs)"
      using less.prems True by (intro less.hyps) (auto simp: keccak_absorb_block)
    moreover have "xor_words (n div 8) (inp @ zs) st = xor_words (n div 8) inp st"
      using True by (intro xor_words_append) (rule order_trans [OF times_div_less_eq_dividend])
    ultimately show ?thesis
      using True by (simp add: keccak_absorb_block [of n "inp @ zs"])
  next
    case False
    then show ?thesis
      using less.prems by (simp add: keccak_absorb_short)
  qed
qed

section \<open>When the hash function returns\<close>

definition keccak_rate :: "int \<Rightarrow> nat" where
  "keccak_rate mdlen = (if mdlen = 200 then HASH_DATA_AREA else 200 - 2 * nat mdlen)"

lemma keccak_unfold:
  assumes len: "\<not> (mdlen \<le> 0 \<or> (100 < mdlen \<and> mdlen \<noteq> 200))"
    and absorb: "keccak_absorb (keccak_rate mdlen) (replicate 25 0) inp = Some (st, r)"
    and r: "length r < keccak_rate mdlen"
  shows "keccak inp mdlen =
    (if 143 \<le> keccak_rate mdlen \<or> nat mdlen mod 8 \<noteq> 0 then None
     else Some (words_bytes (take (nat mdlen div 8)
       (keccakf (xor_words (keccak_rate mdlen div 8) (keccak_pad (keccak_rate mdlen) r) st) KECCAK_ROUNDS))))"
proof -
  have checks: "(144 \<le> length r + 1 \<or> n < length r \<or> 144 \<le> n - length r + length r + 1 \<or>
      n = 0 \<or> 144 \<le> n - 1 \<or> 144 < n div 8 * 8) \<longleftrightarrow> 143 \<le> n" if "length r < n" for n
  proof -
    have "n div 8 * 8 \<le> n"
      by simp
    with that show ?thesis
      by linarith
  qed
  show ?thesis
    unfolding keccak_def keccak_rate_def [symmetric] Let_def if_not_P [OF len] absorb option.case prod.case checks [OF r]
    by (cases "143 \<le> keccak_rate mdlen"; cases "nat mdlen mod 8 = 0") simp_all
qed

lemma keccak_bad_length: "mdlen \<le> 0 \<or> (100 < mdlen \<and> mdlen \<noteq> 200) \<Longrightarrow> keccak inp mdlen = None"
  by (simp only: keccak_def if_P)

lemma keccak_100: "keccak inp 100 = None"
  by (simp add: keccak_def keccak_absorb_0)

lemma keccak_returns_iff:
  "keccak inp mdlen \<noteq> None \<longleftrightarrow> mdlen = 200 \<or> (32 \<le> mdlen \<and> mdlen < 100 \<and> nat mdlen mod 8 = 0)"
proof (cases "mdlen \<le> 0 \<or> (100 < mdlen \<and> mdlen \<noteq> 200) \<or> mdlen = 100")
  case True
  then have "keccak inp mdlen = None"
    using keccak_bad_length [of mdlen inp] keccak_100 [of inp] by auto
  with True show ?thesis
    by auto
next
  case False
  then have pos: "0 < keccak_rate mdlen"
    by (auto simp: keccak_rate_def HASH_DATA_AREA_def)
  from keccak_absorb_returns [OF this] obtain st r where
    absorb: "keccak_absorb (keccak_rate mdlen) (replicate 25 0) inp = Some (st, r)" and "length r = length inp mod keccak_rate mdlen"
    by blast
  with pos have "length r < keccak_rate mdlen"
    by simp
  then have "keccak inp mdlen \<noteq> None \<longleftrightarrow> keccak_rate mdlen < 143 \<and> nat mdlen mod 8 = 0"
    using False by (subst keccak_unfold [OF _ absorb]) (simp_all add: not_le)
  also have "keccak_rate mdlen < 143 \<longleftrightarrow> mdlen = 200 \<or> (29 \<le> mdlen \<and> mdlen < 100)"
  proof (cases "mdlen = 200")
    case False
    with \<open>\<not> (mdlen \<le> 0 \<or> (100 < mdlen \<and> mdlen \<noteq> 200) \<or> mdlen = 100)\<close> show ?thesis
      unfolding keccak_rate_def by (simp, linarith)
  qed (simp add: keccak_rate_def HASH_DATA_AREA_def)
  also have "(mdlen = 200 \<or> (29 \<le> mdlen \<and> mdlen < 100)) \<and> nat mdlen mod 8 = 0 \<longleftrightarrow>
      mdlen = 200 \<or> (32 \<le> mdlen \<and> mdlen < 100 \<and> nat mdlen mod 8 = 0)"
  proof (cases "mdlen \<in> {29, 30, 31, 200}")
    case True
    then show ?thesis by auto
  next
    case False
    then have "29 \<le> mdlen \<longleftrightarrow> 32 \<le> mdlen" "mdlen \<noteq> 200"
      by auto
    then show ?thesis
      by blast
  qed
  finally show ?thesis .
qed

lemma keccak_eq:
  assumes ok: "mdlen = 200 \<or> (32 \<le> mdlen \<and> mdlen < 100 \<and> nat mdlen mod 8 = 0)"
    and absorb: "keccak_absorb (keccak_rate mdlen) (replicate 25 0) inp = Some (st, r)"
  shows "keccak inp mdlen =
    Some (words_bytes (take (nat mdlen div 8)
      (keccakf (xor_words (keccak_rate mdlen div 8) (keccak_pad (keccak_rate mdlen) r) st) KECCAK_ROUNDS)))"
proof -
  have rate: "0 < keccak_rate mdlen" "keccak_rate mdlen < 143"
    using ok by (auto simp: keccak_rate_def HASH_DATA_AREA_def)
  then have "length r < keccak_rate mdlen"
    using keccak_absorb_returns [OF rate(1), of "replicate 25 0" inp] absorb by auto
  moreover have "nat mdlen mod 8 = 0"
    using ok by auto
  ultimately show ?thesis
    using keccak_unfold [OF _ absorb] ok rate by auto
qed

lemma keccak1600_returns: "keccak1600 inp \<noteq> None"
  using keccak_returns_iff [of inp 200] by (simp add: keccak1600_def)

lemma length_keccak:
  assumes "keccak inp mdlen = Some md"
  shows "length md = nat mdlen"
proof -
  have ok: "mdlen = 200 \<or> (32 \<le> mdlen \<and> mdlen < 100 \<and> nat mdlen mod 8 = 0)"
    using assms keccak_returns_iff [of inp mdlen] by simp
  then have "0 < keccak_rate mdlen"
    by (auto simp: keccak_rate_def HASH_DATA_AREA_def)
  from keccak_absorb_returns [OF this, of "replicate 25 0" inp]
  obtain st r where st: "keccak_absorb (keccak_rate mdlen) (replicate 25 0) inp = Some (st, r)" "length st = 25"
    by auto
  then show ?thesis
    using keccak_eq [OF ok st(1)] assms ok by auto
qed

lemma length_cn_fast_hash [simp]: "length (cn_fast_hash data) = 32"
  using length_keccak [of data 200] keccak1600_returns [of data]
  by (auto simp: cn_fast_hash_def keccak1600_def HASH_SIZE_def split: option.splits)

section \<open>Hashing in parts\<close>

definition ctx_inv :: "byte list \<Rightarrow> keccak_ctx \<Rightarrow> bool" where
  "ctx_inv data ctx \<longleftrightarrow>
     length (ctx_message ctx) = 136 \<and> ctx_rest ctx < 136 \<and>
     keccak_absorb 136 (replicate 25 0) data = Some (ctx_hash ctx, take (ctx_rest ctx) (ctx_message ctx))"

lemma not_finalized: "n < 136 \<Longrightarrow> n AND KECCAK_FINALIZED = 0"
  using and_exp_eq_0_iff_not_bit [of n 31] by (simp add: KECCAK_FINALIZED_def bit_iff_odd)

lemma process_block_take: "136 \<le> length inp \<Longrightarrow> KECCAK_PROCESS_BLOCK (take 136 inp) st = KECCAK_PROCESS_BLOCK inp st"
  using xor_words_take [of 17 136 inp st] by (simp add: KECCAK_PROCESS_BLOCK_def KECCAK_WORDS_def)

lemma process_block_absorb:
  "136 \<le> length inp \<Longrightarrow> keccak_absorb 136 st inp = keccak_absorb 136 (KECCAK_PROCESS_BLOCK inp st) (drop 136 inp)"
  by (simp add: keccak_absorb_block KECCAK_PROCESS_BLOCK_def KECCAK_WORDS_def)

lemma keccak_blocks_absorb:
  "keccak_blocks al inp ctx = (ctx', r) \<Longrightarrow>
     keccak_absorb 136 (ctx_hash ctx) inp = Some (ctx_hash ctx', r) \<and> ctx_rest ctx' = ctx_rest ctx \<and>
     (length (ctx_message ctx) = 136 \<longrightarrow> length (ctx_message ctx') = 136)"
proof (induction al inp ctx rule: keccak_blocks.induct)
  case (1 al inp ctx)
  show ?case
  proof (cases "136 \<le> length inp")
    case True
    then show ?thesis
      using 1 by (cases al) (auto simp: KECCAK_BLOCKLEN_def process_block_absorb process_block_take keccak_blocks.simps [of _ inp] Let_def)
  next
    case False
    then show ?thesis
      using 1(2) by (simp add: KECCAK_BLOCKLEN_def keccak_blocks.simps [of _ inp] keccak_absorb_short)
  qed
qed

lemma ctx_inv_init: "ctx_inv [] keccak_init"
  by (simp add: ctx_inv_def keccak_init_def keccak_absorb_short)

lemma length_memcpy: "pos + length src \<le> length dst \<Longrightarrow> length (memcpy pos src dst) = length dst"
  by (simp add: memcpy_def)

lemma take_memcpy: "pos \<le> length dst \<Longrightarrow> take (pos + length src) (memcpy pos src dst) = take pos dst @ src"
  by (simp add: memcpy_def)

lemma absorb_rest: "keccak_absorb 136 st inp = Some (st', r) \<Longrightarrow> length r = length inp mod 136"
  using keccak_absorb_returns [of 136 st inp] by auto

lemma ctx_inv_blocks:
  assumes "keccak_blocks al inp ctx = (ctx', r)" and "length (ctx_message ctx) = 136"
    and "ctx_rest ctx = length r" and "keccak_absorb 136 (replicate 25 0) data = keccak_absorb 136 (ctx_hash ctx) inp"
  shows "ctx_inv data (if r \<noteq> [] then ctx'\<lparr>ctx_message := memcpy 0 r (ctx_message ctx')\<rparr> else ctx')"
proof -
  note blocks = keccak_blocks_absorb [OF assms(1)]
  then have "length r < 136"
    using absorb_rest by auto
  then show ?thesis
    using blocks assms take_memcpy [of 0 "ctx_message ctx'" r] by (auto simp: ctx_inv_def length_memcpy)
qed

lemma ctx_inv_update:
  assumes "ctx_inv data ctx"
  shows "\<exists>ctx'. keccak_update aligned inp ctx = Some ctx' \<and> ctx_inv (data @ inp) ctx'"
proof -
  define idx where "idx = ctx_rest ctx"
  define r where "r = take idx (ctx_message ctx)"
  have inv: "length (ctx_message ctx) = 136" "idx < 136" "length r = idx"
      "keccak_absorb 136 (replicate 25 0) (data @ inp) = keccak_absorb 136 (ctx_hash ctx) (r @ inp)"
    using assms keccak_absorb_append [of 136] by (auto simp: ctx_inv_def idx_def r_def)
  obtain st' r' where absorb: "keccak_absorb 136 (ctx_hash ctx) (r @ inp) = Some (st', r')" and r': "length r' = (idx + length inp) mod 136"
    using keccak_absorb_returns [of 136 "ctx_hash ctx" "r @ inp"] inv(3) by auto
  consider "idx = 0" | "idx \<noteq> 0" "length inp < 136 - idx" | "idx \<noteq> 0" "136 - idx \<le> length inp"
    by linarith
  then show ?thesis
  proof cases
    case 1
    define c where "c = ctx\<lparr>ctx_rest := length inp mod 136\<rparr>"
    obtain ctx' s where b: "keccak_blocks (aligned 0) inp c = (ctx', s)"
      by fastforce
    moreover have "length s = length inp mod 136"
      using keccak_blocks_absorb [OF b] absorb_rest by blast
    ultimately have "ctx_inv (data @ inp) (if s \<noteq> [] then ctx'\<lparr>ctx_message := memcpy 0 s (ctx_message ctx')\<rparr> else ctx')"
      using inv 1 by (intro ctx_inv_blocks [OF b]) (auto simp: c_def)
    with 1 b show ?thesis
      by (simp add: keccak_update_def Let_def idx_def c_def KECCAK_BLOCKLEN_def)
  next
    case 2
    then have "ctx_rest (the (keccak_update aligned inp ctx)) = idx + length inp"
      by (simp add: keccak_update_def Let_def not_finalized idx_def [symmetric] KECCAK_BLOCKLEN_def)
    then show ?thesis
      using inv 2 take_memcpy [of idx "ctx_message ctx" inp]
      by (simp add: keccak_update_def Let_def not_finalized idx_def [symmetric] KECCAK_BLOCKLEN_def ctx_inv_def
          length_memcpy keccak_absorb_short r_def)
  next
    case 3
    define left where "left = 136 - idx"
    define msg where "msg = memcpy idx (take left inp) (ctx_message ctx)"
    define c where "c = ctx\<lparr>ctx_rest := (idx + length inp) mod 136, ctx_message := msg,
      ctx_hash := KECCAK_PROCESS_BLOCK msg (ctx_hash ctx)\<rparr>"
    have left: "left \<le> length inp" "idx + left = 136"
      using 3 inv(2) by (auto simp: left_def)
    then have msg: "msg = r @ take left inp" "length msg = 136"
      using inv by (simp_all add: msg_def memcpy_def r_def)
    obtain ctx' s where b: "keccak_blocks (aligned left) (drop left inp) c = (ctx', s)"
      by fastforce
    have "keccak_absorb 136 (ctx_hash ctx) (r @ inp) = keccak_absorb 136 (ctx_hash c) (drop left inp)"
      using process_block_absorb [of "r @ inp"] process_block_take [of "r @ inp" "ctx_hash ctx"] inv left msg
      by (simp add: c_def left_def [symmetric])
    moreover have "length s = (idx + length inp) mod 136"
      using keccak_blocks_absorb [OF b] calculation absorb r' by simp
    ultimately have "ctx_inv (data @ inp) (if s \<noteq> [] then ctx'\<lparr>ctx_message := memcpy 0 s (ctx_message ctx')\<rparr> else ctx')"
      using inv msg by (intro ctx_inv_blocks [OF b]) (auto simp: c_def)
    with 3 b left show ?thesis
      by (simp add: keccak_update_def Let_def not_finalized inv(2) idx_def [symmetric] KECCAK_BLOCKLEN_def c_def msg_def left_def)
  qed
qed

lemma ctx_finish_pad:
  assumes "length msg = 136" and "n < 136"
  shows "(let message = memcpy n (replicate (KECCAK_BLOCKLEN - n) 0) msg;
              message = message[n := message ! n OR 0x01]
          in message[KECCAK_BLOCKLEN - 1 := message ! (KECCAK_BLOCKLEN - 1) OR 0x80]) = keccak_pad 136 (take n msg)"
proof -
  have "136 - n = Suc (135 - n)"
    using assms(2) by arith
  then have zeros: "replicate (136 - n) (0 :: byte) = 0 # replicate (135 - n) 0"
    by (simp only: replicate_Suc)
  have "memcpy n (replicate (136 - n) 0) msg = take n msg @ 0 # replicate (135 - n) 0"
    using assms by (simp add: memcpy_def zeros)
  moreover have "length (take n msg) = n"
    using assms by simp
  ultimately show ?thesis
    by (simp add: KECCAK_BLOCKLEN_def keccak_pad_def Let_def list_update_append nth_append)
qed

lemma ctx_inv_finish:
  assumes "ctx_inv data ctx"
  shows "keccak data 32 = Some (fst (keccak_finish ctx))"
proof -
  define r where "r = take (ctx_rest ctx) (ctx_message ctx)"
  have inv: "length (ctx_message ctx) = 136" "ctx_rest ctx < 136" "keccak_absorb 136 (replicate 25 0) data = Some (ctx_hash ctx, r)"
    using assms by (simp_all add: ctx_inv_def r_def)
  have "keccak data 32 = Some (words_bytes (take 4 (keccakf (xor_words 17 (keccak_pad 136 r) (ctx_hash ctx)) KECCAK_ROUNDS)))"
    using keccak_eq [of 32 data "ctx_hash ctx" r] inv(3) by (simp add: keccak_rate_def)
  moreover have "fst (keccak_finish ctx) = take 32 (words_bytes (KECCAK_PROCESS_BLOCK (keccak_pad 136 r) (ctx_hash ctx)))"
    using ctx_finish_pad [OF inv(1,2)] inv(2)
    by (simp add: keccak_finish_def Let_def not_finalized KECCAK_DIGESTSIZE_def r_def)
  ultimately show ?thesis
    using take_words_bytes [of 4] by (simp add: KECCAK_PROCESS_BLOCK_def KECCAK_WORDS_def)
qed

lemma cn_fast_hash_keccak: "keccak data 32 = Some (cn_fast_hash data)"
proof -
  obtain st r where absorb: "keccak_absorb 136 (replicate 25 0) data = Some (st, r)"
    using keccak_absorb_returns [of 136 "replicate 25 0" data] by auto
  define t where "t = keccakf (xor_words 17 (keccak_pad 136 r) st) KECCAK_ROUNDS"
  have "keccak data 32 = Some (words_bytes (take 4 t))" "keccak data 200 = Some (words_bytes (take 25 t))"
    using keccak_eq [of 32 data st r] keccak_eq [of 200 data st r] absorb
    by (simp_all add: keccak_rate_def HASH_DATA_AREA_def t_def)
  moreover have "take 32 (words_bytes (take 25 t)) = words_bytes (take 4 t)"
    using take_words_bytes [of 4 "take 25 t"] by simp
  ultimately show ?thesis
    by (simp add: cn_fast_hash_def keccak1600_def HASH_SIZE_def)
qed

text \<open>A message given in parts, each at some address.\<close>

fun keccak_updates :: "((nat \<Rightarrow> bool) \<times> byte list) list \<Rightarrow> keccak_ctx \<Rightarrow> keccak_ctx option" where
  "keccak_updates [] ctx = Some ctx"
| "keccak_updates ((aligned, inp) # parts) ctx =
     (case keccak_update aligned inp ctx of None \<Rightarrow> None | Some ctx \<Rightarrow> keccak_updates parts ctx)"

lemma ctx_inv_updates:
  "ctx_inv data ctx \<Longrightarrow> \<exists>ctx'. keccak_updates parts ctx = Some ctx' \<and> ctx_inv (data @ concat (map snd parts)) ctx'"
proof (induction parts arbitrary: data ctx)
  case (Cons part parts)
  obtain aligned inp where part: "part = (aligned, inp)" by fastforce
  obtain c where c: "keccak_update aligned inp ctx = Some c" "ctx_inv (data @ inp) c"
    using ctx_inv_update [OF Cons.prems] by blast
  with Cons.IH [OF c(2)] show ?case
    by (simp add: part)
qed simp

section \<open>Properties\<close>

text \<open>
  C14. Hashing a message in parts gives the hash of the whole message, for every division of
  the message into parts and every alignment of the parts in memory: updating a fresh context
  with the parts never aborts, and what \<^verbatim>\<open>keccak_finish\<close> returns is both the
  32-byte \<^verbatim>\<open>keccak\<close> and the \<^verbatim>\<open>cn_fast_hash\<close> of the concatenated parts.
\<close>

theorem keccak_in_parts:
  "\<exists>ctx. keccak_updates parts keccak_init = Some ctx \<and>
     keccak (concat (map snd parts)) 32 = Some (fst (keccak_finish ctx)) \<and>
     cn_fast_hash (concat (map snd parts)) = fst (keccak_finish ctx)"
proof -
  obtain ctx where ctx: "keccak_updates parts keccak_init = Some ctx" "ctx_inv (concat (map snd parts)) ctx"
    using ctx_inv_updates [OF ctx_inv_init, of parts] by auto
  then have "keccak (concat (map snd parts)) 32 = Some (fst (keccak_finish ctx))"
    by (intro ctx_inv_finish)
  with ctx(1) cn_fast_hash_keccak [of "concat (map snd parts)"] show ?thesis
    by simp
qed


end
