(* ===== verification/Int_Util.thy ===== *)
theory Int_Util
  imports Prelude
begin

text \<open>
  Model of \<^verbatim>\<open>src/common/int-util.h\<close>: the 128-bit product of two 64-bit
  integers and the division of a 128-bit integer by a 32-bit one, both composed of 64-bit
  operations, with the proofs that they are exact, and the reversal of the byte order.
\<close>

unbundle bit_operations_syntax

section \<open>Products and quotients of 128 bits\<close>

definition hi_dword :: "u64 \<Rightarrow> u64" where
  "hi_dword val = drop_bit 32 val"

definition lo_dword :: "u64 \<Rightarrow> u64" where
  "lo_dword val = val AND 0xFFFFFFFF"

text \<open>The low word is the result, the high word the output parameter.\<close>

definition mul128 :: "u64 \<Rightarrow> u64 \<Rightarrow> u64 \<times> u64" where
  "mul128 multiplier multiplicand =
     (let a = hi_dword multiplier;
          b = lo_dword multiplier;
          c = hi_dword multiplicand;
          d = lo_dword multiplicand;
          ac = a * c;
          ad = a * d;
          bc = b * c;
          bd = b * d;
          adbc = ad + bc;
          adbc_carry = (if adbc < ad then 1 else 0);
          product_lo = bd + push_bit 32 adbc;
          product_lo_carry = (if product_lo < bd then 1 else 0);
          product_hi = ac + drop_bit 32 adbc + push_bit 32 adbc_carry + product_lo_carry
      in (product_lo, product_hi))"

text \<open>The quotient and the remainder, the latter a 32-bit variable.\<close>

definition div_with_reminder :: "u64 \<Rightarrow> u32 \<Rightarrow> u32 \<Rightarrow> u64 \<times> u32" where
  "div_with_reminder dividend divisor remainder =
     (let dividend = dividend OR push_bit 32 (ucast remainder)
      in (dividend div ucast divisor, ucast (dividend mod ucast divisor)))"

text \<open>The remainder and the two words of the quotient, the high one first.\<close>

definition div128_32 :: "u64 \<Rightarrow> u64 \<Rightarrow> u32 \<Rightarrow> u32 \<times> u64 \<times> u64" where
  "div128_32 dividend_hi dividend_lo divisor =
     (let (q3, remainder) = div_with_reminder (hi_dword dividend_hi) divisor 0;
          (q2, remainder) = div_with_reminder (lo_dword dividend_hi) divisor remainder;
          (q1, remainder) = div_with_reminder (hi_dword dividend_lo) divisor remainder;
          (q0, remainder) = div_with_reminder (lo_dword dividend_lo) divisor remainder
      in (remainder, push_bit 32 q3 OR q2, push_bit 32 q1 OR q0))"

section \<open>Byte order\<close>

text \<open>The macro \<^verbatim>\<open>SWAP64\<close>, which is \<^verbatim>\<open>SWAP64BE\<close> on a little-endian machine.\<close>

definition SWAP64 :: "u64 \<Rightarrow> u64" where
  "SWAP64 x =
     push_bit 56 (x AND 0x00000000000000ff) OR
     push_bit 40 (x AND 0x000000000000ff00) OR
     push_bit 24 (x AND 0x0000000000ff0000) OR
     push_bit 8 (x AND 0x00000000ff000000) OR
     drop_bit 8 (x AND 0x000000ff00000000) OR
     drop_bit 24 (x AND 0x0000ff0000000000) OR
     drop_bit 40 (x AND 0x00ff000000000000) OR
     drop_bit 56 (x AND 0xff00000000000000)"

section \<open>Facts\<close>

lemma unat_lt64: "unat (x :: u64) < 2 ^ 64"
  using unsigned_less [of x, where ?'a = nat] by simp

lemma unat_hi_dword: "unat (hi_dword x) = unat x div 2 ^ 32"
  by (simp only: hi_dword_def unat_drop_bit_eq) (simp only: drop_bit_eq_div)

lemma unat_lo_dword: "unat (lo_dword x) = unat x mod 2 ^ 32"
proof -
  have "lo_dword x = take_bit 32 x"
    by (simp add: lo_dword_def take_bit_eq_mask mask_numeral)
  then show ?thesis
    by (simp only: unsigned_take_bit_eq) (simp only: take_bit_eq_mod)
qed

lemma unat_push_bit_32: "unat (push_bit 32 (x :: u64)) = (unat x mod 2 ^ 32) * 2 ^ 32"
proof -
  have "unat (push_bit 32 x) = unat x * 2 ^ 32 mod 2 ^ 64"
    by (simp add: push_bit_eq_mult unat_word_ariths)
  also have "\<dots> = (unat x mod 2 ^ 32) * 2 ^ 32"
    using mult_mod_left [of "unat x" "2 ^ 32" "2 ^ 32 :: nat"] by simp
  finally show ?thesis .
qed

lemma unat_add_carry: "unat x + unat y = unat (x + y) + 2 ^ 64 * (if x + y < x then 1 else 0 :: nat)"
  for x y :: u64
proof (cases "unat x + unat y < 2 ^ 64")
  case True
  then have "unat (x + y) = unat x + unat y"
    by (simp add: unat_word_ariths)
  then show ?thesis
    by (simp add: word_less_nat_alt)
next
  case False
  then have "unat (x + y) = unat x + unat y - 2 ^ 64"
    using unat_lt64 [of x] unat_lt64 [of y] by (simp add: unat_word_ariths mod_if)
  moreover from this have "unat (x + y) < unat x"
    using False unat_lt64 [of y] by linarith
  ultimately show ?thesis
    using False by (simp add: word_less_nat_alt)
qed

lemma unat_mult_dwords:
  assumes "unat a < 2 ^ 32" and "unat b < 2 ^ 32"
  shows "unat (a * b :: u64) = unat a * unat b"
proof -
  have "unat a * unat b < 2 ^ 32 * 2 ^ 32"
    using assms by (intro mult_strict_mono) auto
  then show ?thesis
    by (simp add: unat_word_ariths)
qed

lemma mul128_exact: "(case mul128 x y of (lo, hi) \<Rightarrow> unat hi * 2 ^ 64 + unat lo) = unat x * unat y"
proof -
  define a b c d where abcd: "a = hi_dword x" "b = lo_dword x" "c = hi_dword y" "d = lo_dword y"
  have lt: "unat a < 2 ^ 32" "unat b < 2 ^ 32" "unat c < 2 ^ 32" "unat d < 2 ^ 32"
    using unat_lt64 [of x] unat_lt64 [of y] by (simp_all add: abcd unat_hi_dword unat_lo_dword)
  note prods = unat_mult_dwords [OF lt(1,3)] unat_mult_dwords [OF lt(1,4)]
    unat_mult_dwords [OF lt(2,3)] unat_mult_dwords [OF lt(2,4)]
  define s where "s = a * d + b * c"
  define c1 :: nat where "c1 = (if s < a * d then 1 else 0)"
  define lo where "lo = b * d + push_bit 32 s"
  define c2 :: nat where "c2 = (if lo < b * d then 1 else 0)"
  define q where "q = unat s div 2 ^ 32"
  define r where "r = unat s mod 2 ^ 32"
  have qr: "unat s = q * 2 ^ 32 + r"
    by (simp add: q_def r_def)
  define hi where "hi = unat a * unat c + q + c1 * 2 ^ 32 + c2"
  have s: "unat a * unat d + unat b * unat c = unat s + 2 ^ 64 * c1"
    using unat_add_carry [of "a * d" "b * c"] by (simp add: prods s_def c1_def)
  have l: "unat b * unat d + r * 2 ^ 32 = unat lo + 2 ^ 64 * c2"
    using unat_add_carry [of "b * d" "push_bit 32 s"] by (simp add: prods lo_def c2_def unat_push_bit_32 r_def)
  have xy: "unat x = unat a * 2 ^ 32 + unat b" "unat y = unat c * 2 ^ 32 + unat d"
    by (simp_all add: abcd unat_hi_dword unat_lo_dword)
  have "unat x * unat y
      = unat a * unat c * 2 ^ 64 + (unat a * unat d + unat b * unat c) * 2 ^ 32 + unat b * unat d"
    by (simp add: xy algebra_simps)
  also have "\<dots> = unat a * unat c * 2 ^ 64 + (unat s + 2 ^ 64 * c1) * 2 ^ 32 + unat b * unat d"
    by (simp only: s)
  also have "\<dots> = (unat a * unat c + q + c1 * 2 ^ 32) * 2 ^ 64 + (unat b * unat d + r * 2 ^ 32)"
    by (simp only: qr) (simp add: algebra_simps)
  also have "\<dots> = hi * 2 ^ 64 + unat lo"
    by (simp only: l hi_def) (simp add: algebra_simps)
  finally have total: "unat x * unat y = hi * 2 ^ 64 + unat lo" .
  have "unat x * unat y < 2 ^ 64 * 2 ^ 64"
    using unat_lt64 [of x] unat_lt64 [of y] by (intro mult_strict_mono) auto
  then have "hi < 2 ^ 64"
    using total by simp
  moreover have "drop_bit 32 s = of_nat q"
    unfolding q_def by (simp only: hi_dword_def [symmetric] unat_hi_dword [symmetric]) simp
  then have "snd (mul128 x y) = of_nat hi"
    by (simp add: mul128_def Let_def flip: abcd s_def)
       (simp add: hi_def c1_def c2_def lo_def prods [symmetric] push_bit_eq_mult)
  ultimately have "unat (snd (mul128 x y)) = hi"
    by (simp add: unat_of_nat)
  moreover have "fst (mul128 x y) = lo"
    by (simp add: mul128_def Let_def lo_def s_def flip: abcd)
  ultimately show ?thesis
    using total by (simp add: case_prod_unfold)
qed


lemma or_push_bit_32:
  assumes "unat lo < 2 ^ 32" and "unat hi < 2 ^ 32"
  shows "unat (push_bit 32 hi OR lo :: u64) = unat hi * 2 ^ 32 + unat lo"
proof -
  have "lo = take_bit 32 lo"
    using assms(1) by (simp add: word_eq_iff_unsigned [where 'a = nat] unsigned_take_bit_eq take_bit_nat_eq_self)
  moreover have "push_bit 32 hi AND take_bit 32 lo = 0"
    by (rule bit_word_eqI) (simp add: bit_simps)
  ultimately have "push_bit 32 hi OR lo = push_bit 32 hi + lo"
    using disjunctive_add_eq_or [of "push_bit 32 hi" lo] by simp
  moreover have "unat (push_bit 32 hi) = unat hi * 2 ^ 32"
    using assms(2) by (simp add: unat_push_bit_32)
  ultimately show ?thesis
    using assms by (simp add: unat_word_ariths)
qed

lemma div_with_reminder_exact:
  assumes "unat d < 2 ^ 32" and "r < v" and "div_with_reminder d v r = (q, r')"
  shows "unat r * 2 ^ 32 + unat d = unat q * unat v + unat r'" and "r' < v" and "unat q < 2 ^ 32"
proof -
  define n where "n = d OR push_bit 32 (ucast r)"
  have r: "unat (ucast r :: u64) = unat r" "unat r < 2 ^ 32" "unat (ucast v :: u64) = unat v"
    using unsigned_less [of r, where ?'a = nat] unsigned_less [of v, where ?'a = nat]
    by (simp_all add: unsigned_ucast_eq take_bit_nat_eq_self)
  then have n: "unat n = unat r * 2 ^ 32 + unat d"
    using or_push_bit_32 [of d "ucast r"] assms(1) by (simp add: n_def or.commute)
  have v: "unat r < unat v" "unat v < 2 ^ 32"
    using assms(2) unsigned_less [of v, where ?'a = nat] by (simp_all add: word_less_nat_alt)
  have q: "unat q = unat n div unat v"
    using assms(3) r by (auto simp: div_with_reminder_def Let_def n_def unat_div)
  have "unat n mod unat v < unat v"
    using v(1) by simp
  then have "unat n mod unat v < 2 ^ 32"
    using v(2) by (rule less_trans)
  then have r': "unat r' = unat n mod unat v"
    using assms(3) r by (auto simp: div_with_reminder_def Let_def n_def unat_mod unsigned_ucast_eq take_bit_nat_eq_self)
  show "unat r * 2 ^ 32 + unat d = unat q * unat v + unat r'"
    using n by (simp add: q r')
  show "r' < v"
    using v by (simp add: word_less_nat_alt r')
  have "unat n < unat v * 2 ^ 32"
  proof -
    have "unat n < (unat r + 1) * 2 ^ 32"
      using n assms(1) by simp
    also have "\<dots> \<le> unat v * 2 ^ 32"
      using v(1) by (intro mult_le_mono1) simp
    finally show ?thesis .
  qed
  then show "unat q < 2 ^ 32"
    using v by (simp add: q less_mult_imp_div_less mult.commute)
qed

lemma div128_32_exact:
  assumes "v \<noteq> 0" and "div128_32 hi lo v = (r, qhi, qlo)"
  shows "unat hi * 2 ^ 64 + unat lo = (unat qhi * 2 ^ 64 + unat qlo) * unat v + unat r \<and> unat r < unat v"
proof -
  obtain q3 r3 where e3: "div_with_reminder (hi_dword hi) v 0 = (q3, r3)" by fastforce
  obtain q2 r2 where e2: "div_with_reminder (lo_dword hi) v r3 = (q2, r2)" by fastforce
  obtain q1 r1 where e1: "div_with_reminder (hi_dword lo) v r2 = (q1, r1)" by fastforce
  obtain q0 r0 where e0: "div_with_reminder (lo_dword lo) v r1 = (q0, r0)" by fastforce
  have small: "unat (hi_dword x) < 2 ^ 32" "unat (lo_dword x) < 2 ^ 32" for x
    using unat_lt64 [of x] by (simp_all add: unat_hi_dword unat_lo_dword)
  have "0 < v"
    using assms(1) by (simp add: word_gt_0)
  note d3 = div_with_reminder_exact [OF small(1) this e3]
  note d2 = div_with_reminder_exact [OF small(2) d3(2) e2]
  note d1 = div_with_reminder_exact [OF small(1) d2(2) e1]
  note d0 = div_with_reminder_exact [OF small(2) d1(2) e0]
  have res: "r = r0" "qhi = push_bit 32 q3 OR q2" "qlo = push_bit 32 q1 OR q0"
    using assms(2) e3 e2 e1 e0 by (auto simp: div128_32_def Let_def)
  have words: "unat qhi = unat q3 * 2 ^ 32 + unat q2" "unat qlo = unat q1 * 2 ^ 32 + unat q0"
    using or_push_bit_32 d3(3) d2(3) d1(3) d0(3) by (simp_all only: res)
  have split: "unat x = unat (hi_dword x) * 2 ^ 32 + unat (lo_dword x)" for x
    by (simp add: unat_hi_dword unat_lo_dword)
  have "unat hi * 2 ^ 64 + unat lo
      = unat q3 * unat v * 2 ^ 96 + unat q2 * unat v * 2 ^ 64 + unat q1 * unat v * 2 ^ 32 + unat q0 * unat v + unat r0"
    using d3(1) d2(1) d1(1) d0(1) split [of hi] split [of lo] by simp
  also have "\<dots> = (unat qhi * 2 ^ 64 + unat qlo) * unat v + unat r"
    by (simp add: words res(1) algebra_simps)
  finally show ?thesis
    using d0(2) res(1) by (simp add: word_less_nat_alt)
qed



lemma bit_push_byte:
  "bit (push_bit k (x AND push_bit m (mask 8)) :: u64) n \<longleftrightarrow> n < 64 \<and> m + k \<le> n \<and> n < m + k + 8 \<and> bit x (n - k)"
  by (auto simp: bit_push_bit_iff bit_and_iff bit_mask_iff)

lemma bit_drop_byte:
  "bit (drop_bit k (x AND push_bit m (mask 8)) :: u64) n \<longleftrightarrow> n + k < 64 \<and> m \<le> n + k \<and> n + k < m + 8 \<and> bit x (n + k)"
  by (auto simp: bit_drop_bit_eq bit_push_bit_iff bit_and_iff bit_mask_iff add.commute)

lemma bit_SWAP64: "bit (SWAP64 x) n \<longleftrightarrow> n < 64 \<and> bit x (8 * (7 - n div 8) + n mod 8)"
proof -
  have masks: "(0x00000000000000ff :: u64) = push_bit 0 (mask 8)" "(0x000000000000ff00 :: u64) = push_bit 8 (mask 8)"
    "(0x0000000000ff0000 :: u64) = push_bit 16 (mask 8)" "(0x00000000ff000000 :: u64) = push_bit 24 (mask 8)"
    "(0x000000ff00000000 :: u64) = push_bit 32 (mask 8)" "(0x0000ff0000000000 :: u64) = push_bit 40 (mask 8)"
    "(0x00ff000000000000 :: u64) = push_bit 48 (mask 8)" "(0xff00000000000000 :: u64) = push_bit 56 (mask 8)"
    by (simp_all add: mask_eq_exp_minus_1)
  define q r where "q = n div 8" and "r = n mod 8"
  then have n: "n = 8 * q + r" and "r < 8"
    by simp_all
  consider "q = 0" | "q = 1" | "q = 2" | "q = 3" | "q = 4" | "q = 5" | "q = 6" | "q = 7" | "8 \<le> q"
    by linarith
  then show ?thesis
    unfolding SWAP64_def masks bit_or_iff bit_push_byte bit_drop_byte q_def [symmetric] r_def [symmetric]
    using \<open>r < 8\<close> by cases (simp_all add: n add.commute)
qed

lemma SWAP64_byte:
  assumes "j < 8"
  shows "take_bit 8 (drop_bit (8 * j) (SWAP64 x)) = take_bit 8 (drop_bit (8 * (7 - j)) x)"
proof (rule bit_word_eqI)
  fix n assume "n < LENGTH(64)"
  show "bit (take_bit 8 (drop_bit (8 * j) (SWAP64 x))) n = bit (take_bit 8 (drop_bit (8 * (7 - j)) x)) n"
  proof (cases "n < 8")
    case True
    then have "(8 * j + n) div 8 = j" and "(8 * j + n) mod 8 = n" and "8 * j + n < 64"
      using assms by auto
    then show ?thesis
      by (simp add: bit_take_bit_iff bit_drop_bit_eq bit_SWAP64)
  qed (simp add: bit_take_bit_iff)
qed

end
