(* ===== verification/Base58.thy ===== *)
theory Base58
  imports Keccak Int_Util Varint
begin

text \<open>
  Model of \<^verbatim>\<open>src/common/base58.cpp\<close>: blocks of up to 8 bytes written as up to 11
  digits of base 58, the text of a sequence of blocks, and addresses, which are a tag, the
  data and four bytes of checksum. The digits of a block are stored into a preallocated
  string from the right; a store outside of it is the value \<open>None\<close>. The theorems show
  that encoding never fails, that decoding accepts exactly the encodings, and that an
  address is read back.
\<close>

unbundle bit_operations_syntax

section \<open>Blocks\<close>

definition alphabet :: string where
  "alphabet = ''123456789ABCDEFGHJKLMNPQRSTUVWXYZabcdefghijkmnopqrstuvwxyz''"

definition alphabet_size :: nat where "alphabet_size = 58"

definition encoded_block_sizes :: "nat list" where
  "encoded_block_sizes = [0, 2, 3, 5, 6, 7, 9, 10, 11]"

definition full_block_size :: nat where "full_block_size = 8"
definition full_encoded_block_size :: nat where "full_encoded_block_size = 11"
definition addr_checksum_size :: nat where "addr_checksum_size = 4"

text \<open>
  The table from letters to digits, filled by the constructor of \<open>reverse_alphabet\<close>. The
  difference to the first letter is converted to an unsigned index, so that a smaller letter
  has an index beyond the table.
\<close>

definition reverse_alphabet_data :: "int list" where
  "reverse_alphabet_data =
     fold (\<lambda>i data. data[of_char (alphabet ! i) - of_char (alphabet ! 0) := int i]) [0..<alphabet_size]
       (replicate (of_char (alphabet ! (alphabet_size - 1)) - of_char (alphabet ! 0) + 1) (- 1))"

definition reverse_alphabet :: "char \<Rightarrow> int" where
  "reverse_alphabet letter =
     (if of_char letter < (of_char (alphabet ! 0) :: nat) then - 1
      else
        let idx = of_char letter - of_char (alphabet ! 0)
        in if idx < length reverse_alphabet_data then reverse_alphabet_data ! idx else - 1)"

definition decoded_block_sizes_data :: "int list" where
  "decoded_block_sizes_data =
     fold (\<lambda>i data. data[encoded_block_sizes ! i := int i]) [0..<full_block_size + 1]
       (replicate (encoded_block_sizes ! full_block_size + 1) (- 1))"

definition decoded_block_size :: "nat \<Rightarrow> int" where
  "decoded_block_size encoded_block_size = decoded_block_sizes_data ! encoded_block_size"

text \<open>The switch falls through from the case for the first byte to the one for the last.\<close>

definition uint_8be_to_64 :: "byte list \<Rightarrow> u64" where
  "uint_8be_to_64 data = foldl (\<lambda>res b. push_bit 8 res OR ucast b) 0 data"

definition uint_64_to_8be :: "u64 \<Rightarrow> nat \<Rightarrow> byte list" where
  "uint_64_to_8be num sz = take sz (drop (8 - sz) (uint_bytes 8 (SWAP64 num)))"

lemma div_58_less: "0 < (num :: u64) \<Longrightarrow> unat (num div of_nat alphabet_size) < unat num"
  by (simp add: unat_div word_less_nat_alt alphabet_size_def)

function encode_block_loop :: "u64 \<Rightarrow> int \<Rightarrow> string \<Rightarrow> string option" where
  "encode_block_loop num i res =
     (if 0 < num
      then
        let remainder = num mod of_nat alphabet_size;
            num = num div of_nat alphabet_size
        in if i < 0 \<or> length res \<le> nat i then None
           else encode_block_loop num (i - 1) (res[nat i := alphabet ! unat remainder])
      else Some res)"
  by auto

termination
  by (relation "measure (\<lambda>(num, _, _). unat num)") (auto intro: div_58_less)

declare encode_block_loop.simps [simp del]

definition encode_block :: "byte list \<Rightarrow> string \<Rightarrow> string option" where
  "encode_block block res =
     encode_block_loop (uint_8be_to_64 block) (int (encoded_block_sizes ! length block) - 1) res"

text \<open>The loop over the letters of a block from the last to the first.\<close>

fun decode_block_loop :: "string \<Rightarrow> u64 \<Rightarrow> u64 \<Rightarrow> u64 option" where
  "decode_block_loop [] res_num order = Some res_num"
| "decode_block_loop (letter # letters) res_num order =
     (let digit = reverse_alphabet letter
      in if digit < 0 then None
         else
           let (product_lo, product_hi) = mul128 order (word_of_int digit);
               tmp = res_num + product_lo
           in if tmp < res_num \<or> 0 \<noteq> product_hi then None
              else decode_block_loop letters tmp (order * of_nat alphabet_size))"

definition decode_block :: "string \<Rightarrow> byte list option" where
  "decode_block block =
     (let res_size = decoded_block_size (length block)
      in if res_size \<le> 0 then None
         else
           case decode_block_loop (rev block) 0 1 of
             None \<Rightarrow> None
           | Some res_num \<Rightarrow>
               if nat res_size < full_block_size \<and> push_bit (8 * nat res_size) 1 \<le> res_num then None
               else Some (uint_64_to_8be res_num (nat res_size)))"

section \<open>Texts\<close>

text \<open>
  Each block is written into its own part of the result, which was filled with the letter
  for 0: the text is the concatenation of the parts.
\<close>

fun encode_blocks :: "nat \<Rightarrow> byte list \<Rightarrow> string option" where
  "encode_blocks 0 data =
     (if 0 < length data
      then encode_block data (replicate (encoded_block_sizes ! length data) (alphabet ! 0))
      else Some [])"
| "encode_blocks (Suc n) data =
     (case encode_block (take full_block_size data) (replicate full_encoded_block_size (alphabet ! 0)) of
        None \<Rightarrow> None
      | Some part \<Rightarrow> map_option ((@) part) (encode_blocks n (drop full_block_size data)))"

definition encode :: "byte list \<Rightarrow> string option" where
  "encode data =
     (if data = [] then Some []
      else encode_blocks (length data div full_block_size) data)"

fun decode_blocks :: "nat \<Rightarrow> string \<Rightarrow> byte list option" where
  "decode_blocks 0 enc = (if 0 < length enc then decode_block enc else Some [])"
| "decode_blocks (Suc n) enc =
     (case decode_block (take full_encoded_block_size enc) of
        None \<Rightarrow> None
      | Some part \<Rightarrow> map_option ((@) part) (decode_blocks n (drop full_encoded_block_size enc)))"

definition decode :: "string \<Rightarrow> byte list option" where
  "decode enc =
     (if enc = [] then Some []
      else if decoded_block_size (length enc mod full_encoded_block_size) < 0 then None
      else decode_blocks (length enc div full_encoded_block_size) enc)"

section \<open>Addresses\<close>

definition encode_addr :: "u64 \<Rightarrow> byte list \<Rightarrow> string option" where
  "encode_addr tag data =
     (let buf = write_varint tag @ data;
          hash = cn_fast_hash buf
      in encode (buf @ take addr_checksum_size hash))"

definition decode_addr :: "string \<Rightarrow> (u64 \<times> byte list) option" where
  "decode_addr addr =
     (case decode addr of
        None \<Rightarrow> None
      | Some addr_data \<Rightarrow>
          if length addr_data \<le> addr_checksum_size then None
          else
            let checksum = drop (length addr_data - addr_checksum_size) addr_data;
                addr_data = take (length addr_data - addr_checksum_size) addr_data;
                expected_checksum = take addr_checksum_size (cn_fast_hash addr_data)
            in if expected_checksum \<noteq> checksum then None
               else
                 case read_varint addr_data of
                   (read, tag, rest) \<Rightarrow> if read \<le> 0 then None else Some (tag, drop (nat read) addr_data))"

section \<open>Tables\<close>

lemma length_alphabet: "length alphabet = 58"
  by (simp add: alphabet_def)

lemma distinct_alphabet: "distinct alphabet"
  by (simp add: alphabet_def)

lemma alphabet_range: "c \<in> set alphabet \<Longrightarrow> 49 \<le> (of_char c :: nat) \<and> (of_char c :: nat) \<le> 122"
proof -
  have "\<forall>c\<in>set alphabet. 49 \<le> (of_char c :: nat) \<and> (of_char c :: nat) \<le> 122"
    by (simp add: alphabet_def)
  then show "c \<in> set alphabet \<Longrightarrow> 49 \<le> (of_char c :: nat) \<and> (of_char c :: nat) \<le> 122"
    by blast
qed

lemma length_fold_list_update: "length (fold (\<lambda>i data. data[f i := g i]) is xs) = length xs"
  by (induction "is" arbitrary: xs) auto

lemma fold_list_update_nth:
  assumes "k < length xs" and "inj_on f {..<n}"
  shows "(\<forall>i<n. f i = k \<longrightarrow> fold (\<lambda>i data. data[f i := g i]) [0..<n] xs ! k = g i) \<and>
    ((\<forall>i<n. f i \<noteq> k) \<longrightarrow> fold (\<lambda>i data. data[f i := g i]) [0..<n] xs ! k = xs ! k)"
  using assms(2)
proof (induction n)
  case (Suc n)
  then have "inj_on f {..<n}" "\<And>i. i < n \<Longrightarrow> f i \<noteq> f n"
    by (auto simp: inj_on_def)
  then show ?case
    using Suc.IH assms(1) by (cases "f n = k") (auto simp: length_fold_list_update less_Suc_eq)
qed simp

lemma length_reverse_alphabet_data: "length reverse_alphabet_data = 74"
  by (simp add: reverse_alphabet_data_def length_fold_list_update alphabet_def alphabet_size_def)

lemma alphabet_first: "(of_char (alphabet ! 0) :: nat) = 49"
  by (simp add: alphabet_def)

lemma reverse_alphabet_data_nth:
  assumes "k < 74"
  shows "(\<forall>i<58. of_char (alphabet ! i) - 49 = k \<longrightarrow> reverse_alphabet_data ! k = int i) \<and>
    ((\<forall>i<58. of_char (alphabet ! i) - 49 \<noteq> k) \<longrightarrow> reverse_alphabet_data ! k = - 1)"
proof -
  have "inj_on (\<lambda>i. of_char (alphabet ! i) - (49 :: nat)) {..<58}"
  proof (rule inj_onI)
    fix i j :: nat assume ij: "i \<in> {..<58}" "j \<in> {..<58}" and eq: "of_char (alphabet ! i) - (49 :: nat) = of_char (alphabet ! j) - 49"
    have "49 \<le> (of_char (alphabet ! i) :: nat)" "49 \<le> (of_char (alphabet ! j) :: nat)"
      using ij alphabet_range [of "alphabet ! i"] alphabet_range [of "alphabet ! j"] by (simp_all add: length_alphabet)
    with eq have "(of_char (alphabet ! i) :: nat) = of_char (alphabet ! j)"
      by linarith
    then have "alphabet ! i = alphabet ! j"
      by simp
    then show "i = j"
      using ij distinct_alphabet by (simp add: nth_eq_iff_index_eq length_alphabet)
  qed
  from fold_list_update_nth [OF _ this, of k "replicate 74 (- 1)" int] assms show ?thesis
    unfolding reverse_alphabet_data_def alphabet_first alphabet_size_def
    by (simp add: alphabet_def [THEN arg_cong, of "\<lambda>a. of_char (a ! 57) :: nat"])
qed

lemma reverse_alphabet_nth: "d < 58 \<Longrightarrow> reverse_alphabet (alphabet ! d) = int d"
  using alphabet_range [of "alphabet ! d"] reverse_alphabet_data_nth [of "of_char (alphabet ! d) - 49"]
  by (auto simp: length_alphabet reverse_alphabet_def alphabet_first length_reverse_alphabet_data Let_def)

lemma nth_reverse_alphabet:
  assumes "0 \<le> reverse_alphabet c"
  shows "reverse_alphabet c < 58 \<and> alphabet ! nat (reverse_alphabet c) = c"
proof -
  define k :: nat where "k = of_char c - 49"
  have k: "49 \<le> (of_char c :: nat)" "k < 74" "reverse_alphabet c = reverse_alphabet_data ! k"
    using assms by (auto simp: reverse_alphabet_def alphabet_first length_reverse_alphabet_data k_def Let_def split: if_splits)
  with assms reverse_alphabet_data_nth [OF k(2)] obtain i where i: "i < 58" "of_char (alphabet ! i) - 49 = k"
    by (metis neg_0_le_iff_le not_one_le_zero)
  have "49 \<le> (of_char (alphabet ! i) :: nat)"
    using alphabet_range [of "alphabet ! i"] i(1) by (simp add: length_alphabet)
  then have "(of_char (alphabet ! i) :: nat) = of_char c"
    using i(2) k(1) unfolding k_def by linarith
  then have "alphabet ! i = c"
    by simp
  with i reverse_alphabet_data_nth [OF k(2)] k(3) show ?thesis
    by auto
qed

lemma decoded_block_size_iff:
  assumes "w \<le> 11"
  shows "0 < decoded_block_size w \<longleftrightarrow> (\<exists>n. 1 \<le> n \<and> n \<le> 8 \<and> w = encoded_block_sizes ! n \<and> decoded_block_size w = int n)"
proof -
  have "\<forall>w \<in> set [0..<12]. (0 < decoded_block_size w) = list_ex (\<lambda>n. w = encoded_block_sizes ! n \<and> decoded_block_size w = int n) [1..<9]"
    by code_simp
  with assms have "0 < decoded_block_size w \<longleftrightarrow> (\<exists>n\<in>set [1..<9]. w = encoded_block_sizes ! n \<and> decoded_block_size w = int n)"
    unfolding list_ex_iff by simp
  then show ?thesis
    by (auto simp: less_Suc_eq_le)
qed

lemma decoded_block_size_nth: "1 \<le> n \<Longrightarrow> n \<le> 8 \<Longrightarrow> decoded_block_size (encoded_block_sizes ! n) = int n"
proof -
  have "\<forall>n \<in> set [1..<9]. decoded_block_size (encoded_block_sizes ! n) = int n"
    by code_simp
  then show "1 \<le> n \<Longrightarrow> n \<le> 8 \<Longrightarrow> decoded_block_size (encoded_block_sizes ! n) = int n"
    by simp
qed

section \<open>Bytes and numbers\<close>

lemma uint_8be_to_64_snoc: "uint_8be_to_64 (bs @ [b]) = push_bit 8 (uint_8be_to_64 bs) OR ucast b"
  by (simp add: uint_8be_to_64_def)

lemma unat_uint_8be_to_64: "length bs \<le> 8 \<Longrightarrow> unat (uint_8be_to_64 bs) < 256 ^ length bs"
proof (induction bs rule: rev_induct)
  case Nil
  then show ?case by (simp add: uint_8be_to_64_def)
next
  case (snoc b bs)
  define v where "v = uint_8be_to_64 bs"
  have v: "unat v < 256 ^ length bs" "length bs \<le> 7"
    using snoc by (simp_all add: v_def)
  have b: "unat (ucast b :: u64) < 256"
    using unsigned_less [of b, where ?'a = nat] by (simp add: unsigned_ucast_eq take_bit_nat_eq_self)
  have "(256 :: nat) ^ length bs \<le> 256 ^ 7"
    using v(2) by (intro power_increasing) auto
  then have "unat (push_bit 8 v) = unat v * 256"
    using v(1) by (simp add: push_bit_eq_mult unat_word_ariths)
  moreover have "push_bit 8 v AND ucast b = 0"
    by (rule bit_word_eqI) (auto simp: bit_simps dest: bit_imp_le_length)
  then have "push_bit 8 v OR ucast b = push_bit 8 v + ucast b"
    by (simp add: disjunctive_add_eq_or)
  ultimately have "unat (push_bit 8 v OR ucast b) \<le> unat v * 256 + unat (ucast b :: u64)"
    by (metis unat_plus_simple unat_word_ariths(1) mod_less_eq_dividend)
  also have "\<dots> < (unat v + 1) * 256"
    using b by simp
  also have "\<dots> \<le> 256 ^ length bs * 256"
    using v(1) by (intro mult_le_mono1) simp
  finally show ?case
    by (simp add: uint_8be_to_64_snoc v_def [symmetric] mult.commute)
qed

lemma take_byte_uint_8be:
  "length bs \<le> 8 \<Longrightarrow> i < length bs \<Longrightarrow>
   ucast (drop_bit (8 * i) (uint_8be_to_64 bs)) = bs ! (length bs - 1 - i)"
proof (induction bs arbitrary: i rule: rev_induct)
  case (snoc b bs)
  define v where "v = uint_8be_to_64 bs"
  show ?case
  proof (cases i)
    case 0
    have "ucast (push_bit 8 v OR ucast b) = b"
      by (rule bit_word_eqI) (auto simp: bit_simps)
    with 0 show ?thesis
      by (simp add: uint_8be_to_64_snoc v_def)
  next
    case (Suc j)
    then have j: "j < length bs" "j < 7"
      using snoc.prems by auto
    have "(ucast (drop_bit (8 * Suc j) (push_bit 8 v OR ucast b)) :: byte) = ucast (drop_bit (8 * j) v)"
      using j(2) by (intro bit_word_eqI) (auto simp: bit_simps dest: bit_imp_le_length)
    also have "\<dots> = bs ! (length bs - 1 - j)"
      unfolding v_def using snoc j(1) by simp
    moreover have "length bs - Suc j < length bs"
      using j(1) by arith
    ultimately show ?thesis
      using Suc j(1) by (simp add: uint_8be_to_64_snoc v_def nth_append)
  qed
qed simp

lemma nth_uint_bytes: "i < n \<Longrightarrow> uint_bytes n (v :: u64) ! i = ucast (drop_bit (8 * i) v)"
proof (induction n arbitrary: v i)
  case (Suc n)
  have "(ucast (v AND 0xff) :: byte) = ucast v"
  proof -
    have "(0xff :: u64) = mask 8"
      by (simp add: mask_eq_exp_minus_1)
    then show ?thesis
      by (intro bit_word_eqI) (simp only: bit_and_iff bit_mask_iff bit_ucast_iff, simp)
  qed
  then show ?case
    using Suc by (cases i) (simp_all add: word_size drop_bit_drop_bit add.commute)
qed simp

lemma nth_uint_64_to_8be:
  assumes "sz \<le> 8" and "i < sz"
  shows "uint_64_to_8be num sz ! i = ucast (drop_bit (8 * (sz - 1 - i)) num)"
proof -
  have "(ucast (drop_bit (8 * (8 - sz + i)) (SWAP64 num)) :: byte) = ucast (take_bit 8 (drop_bit (8 * (8 - sz + i)) (SWAP64 num)))"
    by (rule bit_word_eqI) (simp add: bit_simps)
  also have "\<dots> = ucast (take_bit 8 (drop_bit (8 * (7 - (8 - sz + i))) num))"
    using assms by (subst SWAP64_byte) auto
  also have "\<dots> = ucast (drop_bit (8 * (7 - (8 - sz + i))) num)"
    by (rule bit_word_eqI) (simp add: bit_simps)
  also have "7 - (8 - sz + i) = sz - 1 - i"
    using assms by simp
  finally show ?thesis
    using assms by (simp add: uint_64_to_8be_def nth_uint_bytes)
qed

lemma length_uint_64_to_8be: "sz \<le> 8 \<Longrightarrow> length (uint_64_to_8be num sz) = sz"
  by (simp add: uint_64_to_8be_def)

lemma uint_64_to_8be_to_64: "length bs \<le> 8 \<Longrightarrow> uint_64_to_8be (uint_8be_to_64 bs) (length bs) = bs"
  by (rule nth_equalityI) (simp_all add: length_uint_64_to_8be nth_uint_64_to_8be take_byte_uint_8be)


lemma uint_64_to_8be_Suc:
  assumes "sz < 8"
  shows "uint_64_to_8be num (Suc sz) = uint_64_to_8be (drop_bit 8 num) sz @ [ucast num]"
proof (rule nth_equalityI)
  fix i assume "i < length (uint_64_to_8be num (Suc sz))"
  then have "i < Suc sz"
    using assms by (simp add: length_uint_64_to_8be)
  then show "uint_64_to_8be num (Suc sz) ! i = (uint_64_to_8be (drop_bit 8 num) sz @ [ucast num]) ! i"
    using assms by (auto simp: nth_uint_64_to_8be nth_append length_uint_64_to_8be less_Suc_eq algebra_simps Suc_diff_le)
qed (use assms in \<open>simp add: length_uint_64_to_8be\<close>)

lemma uint_8be_to_64_to_8be: "sz \<le> 8 \<Longrightarrow> unat num < 256 ^ sz \<Longrightarrow> uint_8be_to_64 (uint_64_to_8be num sz) = num"
proof (induction sz arbitrary: num)
  case 0
  then show ?case
    by (simp add: uint_64_to_8be_def uint_8be_to_64_def unat_eq_0)
next
  case (Suc sz)
  have "unat (drop_bit 8 num) = unat num div 256"
    by (simp only: unat_drop_bit_eq) (simp add: drop_bit_eq_div)
  then have "unat (drop_bit 8 num) < 256 ^ sz"
    using Suc.prems(2) by (simp add: less_mult_imp_div_less mult.commute)
  moreover have "push_bit 8 (drop_bit 8 num) OR ucast (ucast num :: byte) = num"
    by (rule bit_word_eqI) (auto simp: bit_simps)
  ultimately show ?case
    using Suc by (simp add: uint_64_to_8be_Suc uint_8be_to_64_snoc)
qed

section \<open>Digits\<close>

text \<open>The digits of a number in base 58, the most significant first, and their value.\<close>

fun digits58 :: "nat \<Rightarrow> nat \<Rightarrow> nat list" where
  "digits58 0 n = []"
| "digits58 (Suc w) n = digits58 w (n div 58) @ [n mod 58]"

text \<open>The value of digits, the least significant first.\<close>

fun value58 :: "nat list \<Rightarrow> nat" where
  "value58 [] = 0"
| "value58 (d # ds) = d + 58 * value58 ds"

lemma length_digits58 [simp]: "length (digits58 w n) = w"
  by (induction w arbitrary: n) auto

lemma digits58_less: "d \<in> set (digits58 w n) \<Longrightarrow> d < 58"
  by (induction w arbitrary: n) auto

lemma value58_digits58: "n < 58 ^ w \<Longrightarrow> value58 (rev (digits58 w n)) = n"
  by (induction w arbitrary: n) (auto simp: less_mult_imp_div_less mult.commute)

lemma digits58_value58: "\<forall>d \<in> set ds. d < 58 \<Longrightarrow> digits58 (length ds) (value58 ds) = rev ds"
  by (induction ds) auto

lemma value58_less: "\<forall>d \<in> set ds. d < 58 \<Longrightarrow> value58 ds < 58 ^ length ds"
  by (induction ds) auto

lemma digits58_0: "digits58 w 0 = replicate w 0"
  by (induction w) (simp_all add: replicate_append_same)

lemma encode_block_loop_digits:
  assumes "unat num < 58 ^ k"
  shows "encode_block_loop num (int k - 1) (replicate k (alphabet ! 0) @ zs) = Some (map ((!) alphabet) (digits58 k (unat num)) @ zs)"
  using assms
proof (induction k arbitrary: num zs)
  case 0
  then show ?case
    by (simp add: encode_block_loop.simps unat_eq_0)
next
  case (Suc k)
  show ?case
  proof (cases "num = 0")
    case True
    then show ?thesis
      by (simp add: encode_block_loop.simps digits58_0 replicate_append_same [symmetric])
  next
    case False
    define r where "r = alphabet ! (unat num mod 58)"
    have div: "unat (num div 58) = unat num div 58" and "unat (num mod 58) = unat num mod 58"
      by (simp_all add: unat_div unat_mod)
    then have "encode_block_loop num (int (Suc k) - 1) (replicate (Suc k) (alphabet ! 0) @ zs) =
        encode_block_loop (num div 58) (int k - 1) ((replicate (Suc k) (alphabet ! 0) @ zs)[k := r])"
      using False by (subst encode_block_loop.simps) (simp add: word_gt_0 alphabet_size_def r_def Let_def split: nat.split)
    also have "(replicate (Suc k) (alphabet ! 0) @ zs)[k := r] = replicate k (alphabet ! 0) @ r # zs"
      by (simp add: replicate_append_same [symmetric] list_update_append)
    also have "encode_block_loop (num div 58) (int k - 1) (replicate k (alphabet ! 0) @ r # zs) =
        Some (map ((!) alphabet) (digits58 k (unat num div 58)) @ r # zs)"
      using Suc.prems div by (subst Suc.IH) (simp_all add: less_mult_imp_div_less mult.commute)
    finally show ?thesis
      by (simp add: r_def)
  qed
qed

lemma decode_block_loop_digits:
  assumes "\<forall>d \<in> set ds. d < 58" and "ds = [] \<or> unat order = 58 ^ j \<and> j + length ds \<le> 11"
  shows "decode_block_loop (map ((!) alphabet) ds) res order =
    (if unat res + unat order * value58 ds < 2 ^ 64 then Some (res + of_nat (unat order * value58 ds)) else None)"
  using assms
proof (induction ds arbitrary: res order j)
  case Nil
  then show ?case
    using unat_lt64 [of res] by simp
next
  case (Cons d ds)
  then have d: "d < 58" and order: "unat order = 58 ^ j" "j \<le> 10"
    by auto
  obtain lo hi where mul: "mul128 order (word_of_int (int d)) = (lo, hi)"
    by fastforce
  have "unat (word_of_int (int d) :: u64) = d"
    using d by (simp add: unat_of_nat)
  then have prod: "unat hi * 2 ^ 64 + unat lo = unat order * d"
    using mul128_exact [of order "word_of_int (int d)"] mul by simp
  have loop: "decode_block_loop (map ((!) alphabet) (d # ds)) res order =
      (if res + lo < res \<or> 0 \<noteq> hi then None else decode_block_loop (map ((!) alphabet) ds) (res + lo) (order * 58))"
    using d mul by (simp add: reverse_alphabet_nth alphabet_size_def Let_def)
  show ?case
  proof (cases "hi = 0 \<and> \<not> res + lo < res")
    case True
    then have lo: "unat lo = unat order * d"
      using prod by simp
    have sum: "unat (res + lo) = unat res + unat order * d"
      using unat_add_carry [of res lo] True lo by simp
    have nxt: "ds = [] \<or> unat (order * 58) = 58 ^ Suc j \<and> Suc j + length ds \<le> 11"
    proof (cases "ds = []")
      case False
      then have "j \<le> 9"
        using Cons.prems(2) by (cases ds) auto
      then have "(58 :: nat) ^ Suc j \<le> 58 ^ 10"
        by (intro power_increasing) auto
      then show ?thesis
        using Cons.prems(2) order by (simp add: unat_word_ariths)
    qed simp
    have "unat (order * 58) * value58 ds = unat order * 58 * value58 ds"
      using nxt order by auto
    moreover have "unat order * value58 (d # ds) = unat order * d + unat order * 58 * value58 ds"
      by (simp add: algebra_simps)
    ultimately have val: "unat order * value58 (d # ds) = unat lo + unat (order * 58) * value58 ds"
      by (simp only: lo)
    have "decode_block_loop (map ((!) alphabet) ds) (res + lo) (order * 58) =
        (if unat (res + lo) + unat (order * 58) * value58 ds < 2 ^ 64
         then Some (res + lo + of_nat (unat (order * 58) * value58 ds)) else None)"
      using Cons.prems(1) by (intro Cons.IH [OF _ nxt]) simp
    then show ?thesis
      unfolding loop val sum lo [symmetric] using True by (simp add: add.assoc)
  next
    case False
    have "2 ^ 64 \<le> unat res + unat order * d"
    proof (cases "hi = 0")
      case True
      then show ?thesis
        using False unat_add_carry [of res lo] prod by auto
    next
      case False
      then have "1 \<le> unat hi"
        by (simp add: Suc_leI unat_gt_0)
      then have "2 ^ 64 \<le> unat hi * 2 ^ 64"
        by simp
      then show ?thesis
        using prod by linarith
    qed
    then have "\<not> unat res + unat order * value58 (d # ds) < 2 ^ 64"
      by (simp add: algebra_simps)
    then show ?thesis
      unfolding loop using False by auto
  qed
qed


section \<open>Blocks\<close>

lemma block_sizes:
  assumes "1 \<le> n" and "n \<le> 8"
  shows "256 ^ n \<le> (58 :: nat) ^ (encoded_block_sizes ! n)" and "1 \<le> encoded_block_sizes ! n"
    and "encoded_block_sizes ! n \<le> 11" and "encoded_block_sizes ! n = 11 \<longleftrightarrow> n = 8"
proof -
  consider "n = 1" | "n = 2" | "n = 3" | "n = 4" | "n = 5" | "n = 6" | "n = 7" | "n = 8"
    using assms by linarith
  then show "256 ^ n \<le> (58 :: nat) ^ (encoded_block_sizes ! n)" "1 \<le> encoded_block_sizes ! n"
      "encoded_block_sizes ! n \<le> 11" "encoded_block_sizes ! n = 11 \<longleftrightarrow> n = 8"
    by (cases; simp add: encoded_block_sizes_def)+
qed

definition block_text :: "byte list \<Rightarrow> string" where
  "block_text bs = map ((!) alphabet) (digits58 (encoded_block_sizes ! length bs) (unat (uint_8be_to_64 bs)))"

lemma length_block_text: "length (block_text bs) = encoded_block_sizes ! length bs"
  by (simp add: block_text_def)

lemma encode_block_text:
  assumes "1 \<le> length bs" and "length bs \<le> 8"
  shows "encode_block bs (replicate (encoded_block_sizes ! length bs) (alphabet ! 0)) = Some (block_text bs)"
proof -
  have "unat (uint_8be_to_64 bs) < 58 ^ (encoded_block_sizes ! length bs)"
    using unat_uint_8be_to_64 [OF assms(2)] block_sizes(1) [OF assms] by linarith
  from encode_block_loop_digits [OF this, of "[]"] show ?thesis
    by (simp add: encode_block_def block_text_def)
qed

lemma decode_block_loop_letters:
  "decode_block_loop cs res order \<noteq> None \<Longrightarrow> \<exists>ds. cs = map ((!) alphabet) ds \<and> (\<forall>d \<in> set ds. d < 58)"
proof (induction cs arbitrary: res order)
  case (Cons c cs)
  then have c: "0 \<le> reverse_alphabet c"
    by (auto simp: Let_def split: if_splits)
  obtain res' order' where "decode_block_loop cs res' order' \<noteq> None"
    using Cons.prems by (auto simp: Let_def split: if_splits prod.splits)
  then obtain ds where ds: "cs = map ((!) alphabet) ds" "\<forall>d \<in> set ds. d < 58"
    using Cons.IH by blast
  then show ?case
    using nth_reverse_alphabet [OF c] c by (intro exI [of _ "nat (reverse_alphabet c) # ds"]) auto
qed simp

lemma decode_block_loop_value:
  assumes "\<forall>d \<in> set ds. d < 58" and "length ds \<le> 11"
  shows "decode_block_loop (map ((!) alphabet) ds) 0 1 =
    (if value58 ds < 2 ^ 64 then Some (of_nat (value58 ds)) else None)"
  using decode_block_loop_digits [OF assms(1), of 1 0 0] assms(2) by simp

lemma unat_of_value: "n < 2 ^ 64 \<Longrightarrow> unat (of_nat n :: u64) = n"
  by (simp add: unat_of_nat)

text \<open>The range check of the decoded number, for blocks of every size.\<close>

lemma block_range:
  assumes "1 \<le> n" and "n \<le> 8"
  shows "(n < full_block_size \<and> push_bit (8 * n) 1 \<le> (v :: u64)) \<longleftrightarrow> \<not> unat v < 256 ^ n"
proof (cases "n = 8")
  case True
  then show ?thesis
    using unat_lt64 [of v] by (simp add: full_block_size_def)
next
  case False
  then have "n < 8"
    using assms(2) by simp
  have "(256 :: nat) ^ n = 2 ^ (8 * n)"
    by (simp add: power_mult)
  moreover have "(2 :: nat) ^ (8 * n) < 2 ^ 64"
    using \<open>n < 8\<close> by (intro power_strict_increasing) auto
  then have "unat (2 ^ (8 * n) :: u64) = 2 ^ (8 * n)"
    using unat_of_value [of "2 ^ (8 * n)"] by simp
  ultimately show ?thesis
    using \<open>n < 8\<close> by (simp add: full_block_size_def push_bit_eq_mult word_le_nat_alt not_less)
qed

lemma decode_block_iff:
  assumes "length enc \<le> 11"
  shows "decode_block enc = Some bs \<longleftrightarrow> 1 \<le> length bs \<and> length bs \<le> 8 \<and> enc = block_text bs"
proof
  assume dec: "decode_block enc = Some bs"
  then have "0 < decoded_block_size (length enc)"
    by (auto simp: decode_block_def Let_def split: if_splits)
  then obtain n where n: "1 \<le> n" "n \<le> 8" "length enc = encoded_block_sizes ! n" "decoded_block_size (length enc) = int n"
    using decoded_block_size_iff [OF assms] by blast
  with dec obtain num where num: "decode_block_loop (rev enc) 0 1 = Some num" "unat num < 256 ^ n" "bs = uint_64_to_8be num n"
    using block_range [OF n(1,2)] by (auto simp: decode_block_def Let_def split: option.splits if_splits)
  then obtain ds where ds: "rev enc = map ((!) alphabet) ds" "\<forall>d \<in> set ds. d < 58"
    using decode_block_loop_letters by blast
  have len: "length ds = length enc"
    using arg_cong [OF ds(1), of length] by simp
  have "unat num = value58 ds"
    using decode_block_loop_value [OF ds(2)] num(1) len assms ds(1) unat_of_value by (auto split: if_splits)
  then have "digits58 (encoded_block_sizes ! n) (unat num) = rev ds"
    using digits58_value58 [OF ds(2)] len n(3) by simp
  moreover have "enc = map ((!) alphabet) (rev ds)"
    using ds(1) by (metis rev_map rev_rev_ident)
  moreover have "length bs = n" "uint_8be_to_64 bs = num"
    using num(2,3) n(2) by (simp_all add: length_uint_64_to_8be uint_8be_to_64_to_8be)
  ultimately show "1 \<le> length bs \<and> length bs \<le> 8 \<and> enc = block_text bs"
    using n by (simp add: block_text_def)
next
  assume bs: "1 \<le> length bs \<and> length bs \<le> 8 \<and> enc = block_text bs"
  define num where "num = uint_8be_to_64 bs"
  define ds where "ds = rev (digits58 (encoded_block_sizes ! length bs) (unat num))"
  have lt: "unat num < 256 ^ length bs"
    using unat_uint_8be_to_64 bs by (simp add: num_def)
  have "value58 ds = unat num"
    using lt block_sizes(1) [of "length bs"] bs unfolding ds_def by (intro value58_digits58) auto
  moreover have "\<forall>d \<in> set ds. d < 58"
    using digits58_less by (auto simp: ds_def)
  moreover have "rev enc = map ((!) alphabet) ds"
    using bs by (simp add: block_text_def ds_def num_def rev_map)
  ultimately have "decode_block_loop (rev enc) 0 1 = Some num"
    using decode_block_loop_value [of ds] unat_lt64 [of num] block_sizes(3) [of "length bs"] bs
    by (simp add: ds_def)
  then show "decode_block enc = Some bs"
    using bs lt block_range [of "length bs" num] decoded_block_size_nth [of "length bs"] uint_64_to_8be_to_64 [of bs]
    by (auto simp: decode_block_def length_block_text num_def Let_def)
qed

section \<open>Texts\<close>

lemma div_Suc_le: "a div b = Suc n \<Longrightarrow> b \<le> (a :: nat)"
  by (rule ccontr) simp

lemma encode_full_block:
  "length bs = 8 \<Longrightarrow> encode_block bs (replicate full_encoded_block_size (alphabet ! 0)) = Some (block_text bs)"
  using encode_block_text [of bs] by (simp add: full_encoded_block_size_def encoded_block_sizes_def)

lemma length_full_block_text: "length bs = 8 \<Longrightarrow> length (block_text bs) = 11"
  by (simp add: length_block_text encoded_block_sizes_def)

lemma encode_blocks_0: "length bs < 8 \<Longrightarrow> encode_blocks 0 bs = Some (block_text bs)"
  using encode_block_text [of bs] by (cases "bs = []") (simp_all add: block_text_def encoded_block_sizes_def Suc_le_eq)

lemma encode_blocks_Suc:
  "8 \<le> length data \<Longrightarrow> encode_blocks (Suc n) data = map_option ((@) (block_text (take 8 data))) (encode_blocks n (drop 8 data))"
  by (simp add: encode_full_block full_block_size_def)

lemma encode_blocks_returns:
  "length data div 8 = n \<Longrightarrow> \<exists>enc. encode_blocks n data = Some enc \<and> length enc = 11 * n + encoded_block_sizes ! (length data mod 8)"
proof (induction n arbitrary: data)
  case 0
  then show ?case
    by (auto simp: encode_blocks_0 length_block_text div_eq_0_iff simp del: encode_blocks.simps)
next
  case (Suc n)
  then have len: "8 \<le> length data"
    using div_Suc_le by blast
  with Suc.prems have "length (drop 8 data) div 8 = n"
    by (simp add: le_div_geq)
  with Suc.IH obtain enc where "encode_blocks n (drop 8 data) = Some enc"
      "length enc = 11 * n + encoded_block_sizes ! (length (drop 8 data) mod 8)"
    by blast
  with len show ?case
    by (simp add: encode_blocks_Suc length_full_block_text le_mod_geq del: encode_blocks.simps)
qed

lemma block_size_small: "n < 8 \<Longrightarrow> encoded_block_sizes ! n < 11 \<and> decoded_block_size (encoded_block_sizes ! n) = int n"
proof -
  have "\<forall>n \<in> set [0..<8]. encoded_block_sizes ! n < 11 \<and> decoded_block_size (encoded_block_sizes ! n) = int n"
    by code_simp
  then show "n < 8 \<Longrightarrow> encoded_block_sizes ! n < 11 \<and> decoded_block_size (encoded_block_sizes ! n) = int n"
    by simp
qed

lemma decode_blocks_encode_blocks:
  "length data div 8 = n \<Longrightarrow> encode_blocks n data = Some enc \<Longrightarrow> decode_blocks n enc = Some data"
proof (induction n arbitrary: data enc)
  case 0
  then have lt: "length data < 8" and enc: "enc = block_text data"
    by (auto simp: encode_blocks_0 div_eq_0_iff simp del: encode_blocks.simps)
  show ?case
  proof (cases "data = []")
    case True
    then show ?thesis
      by (simp add: enc block_text_def encoded_block_sizes_def)
  next
    case False
    then have "0 < length enc" "decode_block enc = Some data"
      using lt block_size_small [OF lt] block_sizes(2) [of "length data"] decode_block_iff [of enc data]
      by (auto simp: enc length_block_text Suc_le_eq)
    then show ?thesis
      by simp
  qed
next
  case (Suc n)
  then have len: "8 \<le> length data"
    using div_Suc_le by blast
  with Suc.prems(1) have "length (drop 8 data) div 8 = n"
    by (simp add: le_div_geq)
  moreover obtain enc' where enc': "encode_blocks n (drop 8 data) = Some enc'" "enc = block_text (take 8 data) @ enc'"
    using Suc.prems(2) len by (auto simp: encode_blocks_Suc simp del: encode_blocks.simps)
  ultimately have "decode_blocks n enc' = Some (drop 8 data)"
    by (intro Suc.IH)
  moreover have "decode_block (take 11 enc) = Some (take 8 data)" "drop 11 enc = enc'"
    using len decode_block_iff [of "block_text (take 8 data)" "take 8 data"]
    by (simp_all add: enc'(2) length_full_block_text)
  ultimately show ?case
    by (simp add: full_encoded_block_size_def)
qed

lemma encode_blocks_decode_blocks:
  "length enc div 11 = n \<Longrightarrow> decode_blocks n enc = Some data \<Longrightarrow> encode_blocks n data = Some enc \<and> length data div 8 = n"
proof (induction n arbitrary: data enc)
  case 0
  then have lt: "length enc < 11"
    by (simp add: div_eq_0_iff)
  show ?case
  proof (cases "enc = []")
    case True
    with 0 show ?thesis
      by simp
  next
    case False
    then have "decode_block enc = Some data"
      using 0 by simp
    then have data: "1 \<le> length data" "length data \<le> 8" "enc = block_text data"
      using decode_block_iff [of enc data] lt by simp_all
    then have "length data \<noteq> 8"
      using lt block_sizes(4) [of "length data"] by (auto simp: length_block_text)
    then show ?thesis
      using data by (simp add: encode_blocks_0 del: encode_blocks.simps)
  qed
next
  case (Suc n)
  then have len: "11 \<le> length enc"
    using div_Suc_le by blast
  with Suc.prems(1) have "length (drop 11 enc) div 11 = n"
    by (simp add: le_div_geq)
  moreover obtain part rest where parts: "decode_block (take 11 enc) = Some part" "decode_blocks n (drop 11 enc) = Some rest" "data = part @ rest"
    using Suc.prems(2) by (auto simp: full_encoded_block_size_def split: option.splits)
  ultimately have IH: "encode_blocks n rest = Some (drop 11 enc)" "length rest div 8 = n"
    using Suc.IH by blast+
  have part: "1 \<le> length part" "length part \<le> 8" "take 11 enc = block_text part"
    using parts(1) decode_block_iff [of "take 11 enc" part] by simp_all
  have "encoded_block_sizes ! length part = 11"
    using length_block_text [of part] len by (simp flip: part(3))
  then have "length part = 8"
    using block_sizes(4) [OF part(1,2)] by simp
  then show ?case
    using IH parts(3) part(3) by (auto simp: encode_blocks_Suc simp del: encode_blocks.simps) (metis append_take_drop_id)
qed

lemma encode_returns: "\<exists>enc. encode data = Some enc"
  using encode_blocks_returns [of data] by (auto simp: encode_def full_block_size_def)

lemma length_encode: "encode data = Some enc \<Longrightarrow> length enc = 11 * (length data div 8) + encoded_block_sizes ! (length data mod 8)"
  using encode_blocks_returns [of data "length data div 8"]
  by (auto simp: encode_def full_block_size_def encoded_block_sizes_def split: if_splits)

lemma decode_iff_encode: "decode enc = Some data \<longleftrightarrow> encode data = Some enc"
proof
  assume "encode data = Some enc"
  show "decode enc = Some data"
  proof (cases "data = []")
    case True
    with \<open>encode data = Some enc\<close> show ?thesis
      by (simp add: encode_def decode_def)
  next
    case False
    then have enc: "encode_blocks (length data div 8) data = Some enc"
      using \<open>encode data = Some enc\<close> by (simp add: encode_def full_block_size_def)
    moreover have "length enc mod 11 = encoded_block_sizes ! (length data mod 8)" "length enc div 11 = length data div 8"
      using length_encode [OF \<open>encode data = Some enc\<close>] block_size_small [of "length data mod 8"] by simp_all
    moreover from this have "enc \<noteq> []"
      using False decode_blocks_encode_blocks [OF refl enc] by (cases "length data div 8") (auto simp: div_eq_0_iff)
    ultimately show ?thesis
      using decode_blocks_encode_blocks [OF refl enc] block_size_small [of "length data mod 8"]
      by (simp add: decode_def full_encoded_block_size_def)
  qed
next
  assume dec: "decode enc = Some data"
  show "encode data = Some enc"
  proof (cases "enc = []")
    case True
    with dec show ?thesis
      by (simp add: encode_def decode_def)
  next
    case False
    then have "decode_blocks (length enc div 11) enc = Some data"
      using dec by (simp add: decode_def full_encoded_block_size_def split: if_splits)
    then have "encode_blocks (length data div 8) data = Some enc"
      using encode_blocks_decode_blocks [OF refl] by metis
    moreover have "data \<noteq> []"
      using calculation False by auto
    ultimately show ?thesis
      by (simp add: encode_def full_block_size_def)
  qed
qed

lemma encode_addr_decodes:
  "\<exists>addr. encode_addr tag data = Some addr \<and> decode_addr addr = Some (tag, data)"
proof -
  define buf where "buf = write_varint tag @ data"
  define cs where "cs = take 4 (cn_fast_hash buf)"
  obtain addr where addr: "encode (buf @ cs) = Some addr"
    using encode_returns by blast
  then have "decode addr = Some (buf @ cs)"
    by (simp add: decode_iff_encode)
  moreover have "length cs = 4" "buf \<noteq> []"
    by (simp_all add: cs_def buf_def)
  moreover have "read_varint buf = (int (length (write_varint tag)), tag, data)"
    by (simp add: buf_def read_write_varint)
  ultimately have "decode_addr addr = Some (tag, data)"
    by (simp add: decode_addr_def addr_checksum_size_def Let_def cs_def [symmetric]) (simp add: buf_def)
  with addr show ?thesis
    by (simp add: encode_addr_def buf_def [symmetric] cs_def addr_checksum_size_def)
qed

section \<open>Properties\<close>

text \<open>
  C20. Encoding to base 58 never stores outside of the preallocated text, and decoding accepts
  exactly the texts that encoding writes, with the data they were written for: a text that
  has another letter, another length, or a block whose value is out of range is refused, and
  no two texts decode to the same data.
\<close>

theorem base58_decode_iff_encode:
  "(\<exists>enc. encode data = Some enc) \<and> (decode enc' = Some data' \<longleftrightarrow> encode data' = Some enc')"
  using encode_returns decode_iff_encode by blast

text \<open>
  An address made of a tag and data is read back: decoding it finds the same tag and the
  same data, the checksum being the first bytes of the hash of both.
\<close>

theorem decode_encode_addr:
  "\<exists>addr. encode_addr tag data = Some addr \<and> decode_addr addr = Some (tag, data)"
  by (rule encode_addr_decodes)

end
