(* ===== verification/Hex.thy ===== *)
theory Hex
  imports Prelude
begin

text \<open>
  Model of the hexadecimal texts of \<^verbatim>\<open>contrib/epee\<close>: \<^verbatim>\<open>src/hex.cpp\<close>
  writes bytes as pairs of digits, \<^verbatim>\<open>include/string_tools.h\<close> reads them with the
  C function \<^verbatim>\<open>strtoul\<close>, two letters at a time. The theorem shows that what was
  written is read back, and that the reader also accepts letters that are no digits.
\<close>

unbundle bit_operations_syntax

section \<open>Writing\<close>

definition hex_digits :: string where "hex_digits = ''0123456789abcdef''"

definition write_hex :: "byte list \<Rightarrow> string" where
  "write_hex src =
     concat (map (\<lambda>byte. [hex_digits ! unat (drop_bit 4 byte), hex_digits ! unat (byte AND 0x0F)]) src)"

definition pod_to_hex :: "byte list \<Rightarrow> string" where
  "pod_to_hex s = write_hex s"

section \<open>Reading\<close>

text \<open>The C function \<^verbatim>\<open>isspace\<close> in the C locale.\<close>

definition isspace :: "char \<Rightarrow> bool" where
  "isspace c = (let n = of_char c :: nat in n = 32 \<or> (9 \<le> n \<and> n \<le> 13))"

definition trim :: "string \<Rightarrow> string" where
  "trim s = rev (dropWhile isspace (rev (dropWhile isspace s)))"

definition hex_value :: "char \<Rightarrow> nat option" where
  "hex_value c =
     (let n = of_char c in
      if 48 \<le> n \<and> n \<le> 57 then Some (n - 48)
      else if 97 \<le> n \<and> n \<le> 102 then Some (n - 87)
      else if 65 \<le> n \<and> n \<le> 70 then Some (n - 55)
      else None)"

definition is_hex :: "char \<Rightarrow> bool" where
  "is_hex c = (hex_value c \<noteq> None)"

text \<open>
  The C function \<^verbatim>\<open>strtoul\<close> with base 16 on the text up to its first NUL: white
  space, an optional sign, an optional \<open>0x\<close> before a digit, digits. The results are the
  value, negated after a minus sign, and the position of the first letter not used, which is
  0 when there are no digits.
\<close>

definition strtoul16 :: "string \<Rightarrow> int \<times> nat" where
  "strtoul16 text =
     (let s = takeWhile (\<lambda>c. of_char c \<noteq> (0 :: nat)) text;
          spaces = length (takeWhile isspace s);
          s1 = drop spaces s;
          sign = (if s1 \<noteq> [] \<and> (hd s1 = CHR ''+'' \<or> hd s1 = CHR ''-'') then 1 else 0);
          s2 = drop sign s1;
          prefix = (if 3 \<le> length s2 \<and> s2 ! 0 = CHR ''0'' \<and> (s2 ! 1 = CHR ''x'' \<or> s2 ! 1 = CHR ''X'') \<and> is_hex (s2 ! 2)
                    then 2 else 0);
          digits = takeWhile is_hex (drop prefix s2);
          v = foldl (\<lambda>v c. 16 * v + int (the (hex_value c))) 0 digits
      in if digits = [] then (0, 0)
         else (if sign = 1 \<and> hd s1 = CHR ''-'' then - v else v, spaces + sign + prefix + length digits))"

fun parse_hex_pairs :: "string \<Rightarrow> byte list option" where
  "parse_hex_pairs [] = Some []"
| "parse_hex_pairs [a] = None"
| "parse_hex_pairs (a # b # s) =
     (case strtoul16 [a, b] of (v, endptr) \<Rightarrow>
        if v < 0 \<or> 0xFF < v \<or> endptr \<noteq> 2 then None
        else map_option ((#) (word_of_int v)) (parse_hex_pairs s))"

definition parse_hexstr_to_binbuff :: "string \<Rightarrow> byte list option" where
  "parse_hexstr_to_binbuff s = (if odd (length s) then None else parse_hex_pairs s)"

text \<open>The target is an object of \<open>sz\<close> bytes; the length is checked before trimming.\<close>

definition hex_to_pod :: "nat \<Rightarrow> string \<Rightarrow> byte list option" where
  "hex_to_pod sz hex_str =
     (let hex_str_tr = trim hex_str
      in if sz * 2 \<noteq> length hex_str then None
         else
           case parse_hexstr_to_binbuff hex_str_tr of
             None \<Rightarrow> None
           | Some bin_buff \<Rightarrow> if length bin_buff \<noteq> sz then None else Some bin_buff)"

section \<open>Reading what was written\<close>

lemma hex_digits_nth: "n < 16 \<Longrightarrow> hex_value (hex_digits ! n) = Some n \<and> \<not> isspace (hex_digits ! n)"
proof -
  have "\<forall>n \<in> set [0..<16]. hex_value (hex_digits ! n) = Some n \<and> \<not> isspace (hex_digits ! n)"
    by code_simp
  then show "n < 16 \<Longrightarrow> hex_value (hex_digits ! n) = Some n \<and> \<not> isspace (hex_digits ! n)"
    by simp
qed

lemma hex_value_letter:
  assumes "hex_value c = Some n"
  shows "(of_char c :: nat) \<noteq> 0" and "\<not> isspace c" and "c \<noteq> CHR ''+''" and "c \<noteq> CHR ''-''" and "is_hex c" and "n < 16"
  using assms by (auto simp: hex_value_def isspace_def is_hex_def Let_def split: if_splits)

lemma strtoul16_pair:
  assumes "hex_value a = Some m" and "hex_value b = Some n"
  shows "strtoul16 [a, b] = (16 * int m + int n, 2)"
  using assms hex_value_letter [OF assms(1)] hex_value_letter [OF assms(2)]
  by (simp add: strtoul16_def Let_def)

lemma strtoul16_plus:
  assumes "hex_value b = Some n"
  shows "strtoul16 [CHR ''+'', b] = (int n, 2)"
proof -
  have "\<not> isspace (CHR ''+'')"
    by (simp add: isspace_def)
  then show ?thesis
    using assms hex_value_letter [OF assms] by (simp add: strtoul16_def Let_def)
qed

lemma unat_byte_split: "16 * unat (drop_bit 4 b) + unat (b AND 0x0F) = unat (b :: byte)"
proof -
  have "unat (drop_bit 4 b) = unat b div 16"
    by (simp only: unat_drop_bit_eq) (simp add: drop_bit_eq_div)
  moreover have "b AND 0x0F = take_bit 4 b"
    by (simp add: take_bit_eq_mask mask_numeral)
  then have "unat (b AND 0x0F) = unat b mod 16"
    by (simp only: unsigned_take_bit_eq) (simp add: take_bit_eq_mod)
  ultimately show ?thesis
    by simp
qed

lemma byte_digits_less: "unat (drop_bit 4 b) < 16" "unat (b AND 0x0F) < 16" for b :: byte
proof -
  show "unat (drop_bit 4 b) < 16"
    using unat_byte_split [of b] unsigned_less [of b, where ?'a = nat] by simp
  have "b AND 0x0F = take_bit 4 b"
    by (simp add: take_bit_eq_mask mask_numeral)
  then show "unat (b AND 0x0F) < 16"
    using take_bit_nat_less_exp [of 4 "unat b"] by (simp add: unsigned_take_bit_eq)
qed

lemma parse_hex_pair:
  assumes "strtoul16 [a, c] = (uint b, 2)"
  shows "parse_hex_pairs (a # c # s) = map_option ((#) b) (parse_hex_pairs s)"
  using assms unsigned_less [of b, where ?'a = int] by simp

lemma parse_write_hex: "parse_hex_pairs (write_hex bs @ s) = map_option ((@) bs) (parse_hex_pairs s)"
proof (induction bs)
  case Nil
  then show ?case
    by (cases "parse_hex_pairs s") (simp_all add: write_hex_def)
next
  case (Cons b bs)
  define h where "h = unat (drop_bit 4 b)"
  define l where "l = unat (b AND 0x0F)"
  have "uint b = 16 * int h + int l"
    using arg_cong [OF unat_byte_split [of b], of int] by (simp add: h_def l_def)
  then have "strtoul16 [hex_digits ! h, hex_digits ! l] = (uint b, 2)"
    using hex_digits_nth byte_digits_less [of b] strtoul16_pair [of "hex_digits ! h" h "hex_digits ! l" l]
    by (simp add: h_def l_def)
  then show ?case
    using Cons parse_hex_pair [of _ _ b "write_hex bs @ s"]
    by (simp add: write_hex_def h_def l_def option.map_comp comp_def)
qed

lemma length_write_hex [simp]: "length (write_hex bs) = 2 * length bs"
  by (induction bs) (simp_all add: write_hex_def)

lemma write_hex_letters: "c \<in> set (write_hex bs) \<Longrightarrow> \<not> isspace c"
  using hex_digits_nth byte_digits_less by (auto simp: write_hex_def)

lemma trim_id:
  assumes "\<forall>c \<in> set s. \<not> isspace c"
  shows "trim s = s"
proof -
  have "dropWhile isspace t = t" if "\<forall>c \<in> set t. \<not> isspace c" for t
    using that by (cases t) auto
  from this [of s] this [of "rev s"] show ?thesis
    using assms by (simp add: trim_def)
qed

lemma hex_to_pod_write_hex: "hex_to_pod (length bs) (write_hex bs) = Some bs"
  using parse_write_hex [of bs "[]"] trim_id [of "write_hex bs"] write_hex_letters
  by (simp add: hex_to_pod_def parse_hexstr_to_binbuff_def)

section \<open>Properties\<close>

text \<open>
  The hexadecimal text of an object is read back as the object. The reader is not
  injective: when the first digit is a zero, the text with a plus sign in its place is read as
  the same object, because \<^verbatim>\<open>strtoul\<close> accepts a sign in each pair of letters.
\<close>

theorem hex_to_pod_reads_hex:
  "hex_to_pod (length bs) (pod_to_hex bs) = Some bs \<and>
   (unat b < 16 \<longrightarrow> hex_to_pod (Suc (length bs)) (CHR ''+'' # tl (pod_to_hex (b # bs))) = Some (b # bs))"
proof (intro conjI impI)
  show "hex_to_pod (length bs) (pod_to_hex bs) = Some bs"
    by (simp add: pod_to_hex_def hex_to_pod_write_hex)
  assume "unat b < 16"
  then have l: "unat (b AND 0x0F) = unat b"
    using unat_byte_split [of b] by arith
  define c where "c = hex_digits ! unat (b AND 0x0F)"
  have "hex_value c = Some (unat b)"
    using hex_digits_nth [OF byte_digits_less(2) [of b]] l by (simp add: c_def)
  then have "strtoul16 [CHR ''+'', c] = (uint b, 2)"
    using strtoul16_plus by simp
  then have "parse_hex_pairs (CHR ''+'' # c # write_hex bs) = Some (b # bs)"
    using parse_hex_pair parse_write_hex [of bs "[]"] by simp
  moreover have "tl (pod_to_hex (b # bs)) = c # write_hex bs"
    by (simp add: pod_to_hex_def write_hex_def c_def)
  moreover have "\<not> isspace c"
    using hex_digits_nth [OF byte_digits_less(2)] by (simp add: c_def)
  then have "trim (CHR ''+'' # c # write_hex bs) = CHR ''+'' # c # write_hex bs"
    using write_hex_letters by (intro trim_id) (auto simp: isspace_def)
  ultimately show "hex_to_pod (Suc (length bs)) (CHR ''+'' # tl (pod_to_hex (b # bs))) = Some (b # bs)"
    by (simp add: hex_to_pod_def parse_hexstr_to_binbuff_def del: parse_hex_pairs.simps)
qed

theorem hex_to_pod_reads_hex_witness:
  "hex_to_pod 2 ''05ff'' = Some [5, 255] \<and> hex_to_pod 2 ''+5ff'' = Some [5, 255]"
proof -
  have "pod_to_hex [5, 255] = ''05ff''"
    by code_simp
  then show ?thesis
    using hex_to_pod_reads_hex [of "[5, 255]" 5] hex_to_pod_reads_hex [of "[255]" 5] by (simp flip: numeral_2_eq_2)
qed

end
