(* ===== verification/Addresses.thy ===== *)
theory Addresses
  imports Base58 Hex Cryptonote_Basic
begin

text \<open>
  Model of the address texts of \<^verbatim>\<open>src/cryptonote_basic/cryptonote_basic_impl.cpp\<close>
  and of the address prefixes of \<^verbatim>\<open>src/cryptonote_config.h\<close>: writing an address, a
  subaddress or an integrated address, and reading them and the old hexadecimal format. The
  theorems show that a text is read back on its own network only, and what the old format
  leaves unchecked. The serialization to a blob and the hash of a transaction prefix that is taken
  of it, in \<^verbatim>\<open>cryptonote_format_utils\<close>, are here for the theories that share them.
\<close>

section \<open>Network types\<close>

datatype network_type = MAINNET | TESTNET | STAGENET | FAKECHAIN | UNDEFINED

record config_t =
  CRYPTONOTE_PUBLIC_ADDRESS_BASE58_PREFIX :: u64
  CRYPTONOTE_PUBLIC_INTEGRATED_ADDRESS_BASE58_PREFIX :: u64
  CRYPTONOTE_PUBLIC_SUBADDRESS_BASE58_PREFIX :: u64

text \<open>The address prefixes of the configuration; \<open>None\<close> is the exception for an invalid type.\<close>

definition mainnet :: config_t where
  "mainnet = \<lparr>CRYPTONOTE_PUBLIC_ADDRESS_BASE58_PREFIX = 90,
     CRYPTONOTE_PUBLIC_INTEGRATED_ADDRESS_BASE58_PREFIX = 91, CRYPTONOTE_PUBLIC_SUBADDRESS_BASE58_PREFIX = 102\<rparr>"

definition testnet :: config_t where
  "testnet = \<lparr>CRYPTONOTE_PUBLIC_ADDRESS_BASE58_PREFIX = 84,
     CRYPTONOTE_PUBLIC_INTEGRATED_ADDRESS_BASE58_PREFIX = 85, CRYPTONOTE_PUBLIC_SUBADDRESS_BASE58_PREFIX = 112\<rparr>"

definition stagenet :: config_t where
  "stagenet = \<lparr>CRYPTONOTE_PUBLIC_ADDRESS_BASE58_PREFIX = 24,
     CRYPTONOTE_PUBLIC_INTEGRATED_ADDRESS_BASE58_PREFIX = 25, CRYPTONOTE_PUBLIC_SUBADDRESS_BASE58_PREFIX = 36\<rparr>"

fun get_config :: "network_type \<Rightarrow> config_t option" where
  "get_config MAINNET = Some mainnet"
| "get_config TESTNET = Some testnet"
| "get_config STAGENET = Some stagenet"
| "get_config FAKECHAIN = Some mainnet"
| "get_config UNDEFINED = None"

section \<open>Writing addresses\<close>

type_synonym integrated_address = "account_public_address \<times> blob"

definition save_integrated_address :: "integrated_address saver" where
  "save_integrated_address iadr = save_all [save_address (fst iadr), save_blob (snd iadr)]"

definition load_integrated_address :: "integrated_address loader" where
  "load_integrated_address =
     load_bind load_address (\<lambda>adr. load_bind (load_blob 8) (\<lambda>payment_id. load_return (adr, payment_id)))"

definition t_serializable_object_to_blob :: "'a saver \<Rightarrow> 'a \<Rightarrow> blob" where
  "t_serializable_object_to_blob save obj = (case dump_binary save obj of None \<Rightarrow> [] | Some b \<Rightarrow> b)"

text \<open>
  The hash of the prefix of a transaction. A prefix that was parsed serializes; for another one the
  code does not look at the failure and hashes what was written before it, here nothing.
\<close>

definition get_transaction_prefix_hash :: "transaction_prefix \<Rightarrow> hash" where
  "get_transaction_prefix_hash tx = cn_fast_hash (t_serializable_object_to_blob save_transaction_prefix tx)"

definition get_account_address_as_str :: "network_type \<Rightarrow> bool \<Rightarrow> account_public_address \<Rightarrow> string option" where
  "get_account_address_as_str nettype subaddress adr =
     (case get_config nettype of
        None \<Rightarrow> None
      | Some config \<Rightarrow>
          let address_prefix = (if subaddress then CRYPTONOTE_PUBLIC_SUBADDRESS_BASE58_PREFIX config
                                else CRYPTONOTE_PUBLIC_ADDRESS_BASE58_PREFIX config)
          in encode_addr address_prefix (t_serializable_object_to_blob save_address adr))"

definition get_account_integrated_address_as_str :: "network_type \<Rightarrow> account_public_address \<Rightarrow> blob \<Rightarrow> string option" where
  "get_account_integrated_address_as_str nettype adr payment_id =
     (case get_config nettype of
        None \<Rightarrow> None
      | Some config \<Rightarrow>
          encode_addr (CRYPTONOTE_PUBLIC_INTEGRATED_ADDRESS_BASE58_PREFIX config)
            (t_serializable_object_to_blob save_integrated_address (adr, payment_id)))"

section \<open>Reading addresses\<close>

record address_parse_info =
  info_address :: account_public_address
  info_is_subaddress :: bool
  info_has_payment_id :: bool
  info_payment_id :: blob

definition CRYPTONOTE_PUBLIC_ADDRESS_TEXTBLOB_VER :: u8 where
  "CRYPTONOTE_PUBLIC_ADDRESS_TEXTBLOB_VER = 0"

text \<open>The packed structure is a version byte, the two keys and a checksum byte.\<close>

definition public_address_outer_blob_size :: nat where "public_address_outer_blob_size = 66"

definition get_account_address_checksum :: "byte list \<Rightarrow> u8" where
  "get_account_address_checksum bl = fold (\<lambda>i summ. summ + bl ! i) [0..<public_address_outer_blob_size - 1] 0"

text \<open>The elliptic curve test of a key is a parameter. \<open>info\<close> is what the caller passed in.\<close>

definition parse_address_data ::
  "(blob \<Rightarrow> bool) \<Rightarrow> address_parse_info \<Rightarrow> config_t \<Rightarrow> u64 \<Rightarrow> blob \<Rightarrow> address_parse_info option" where
  "parse_address_data check_key info config addr_prefix data =
     (let checked = (\<lambda>info. if \<not> check_key (m_spend_public_key (info_address info)) \<or>
                              \<not> check_key (m_view_public_key (info_address info)) then None else Some info);
          plain = (\<lambda>is_subaddress.
            case parse_binary load_address data of
              None \<Rightarrow> None
            | Some adr \<Rightarrow> checked (info\<lparr>info_is_subaddress := is_subaddress, info_has_payment_id := False, info_address := adr\<rparr>))
      in if CRYPTONOTE_PUBLIC_INTEGRATED_ADDRESS_BASE58_PREFIX config = addr_prefix
         then
           (case parse_binary load_integrated_address data of
              None \<Rightarrow> None
            | Some (adr, payment_id) \<Rightarrow>
                checked (info\<lparr>info_is_subaddress := False, info_has_payment_id := True, info_address := adr,
                  info_payment_id := payment_id\<rparr>))
         else if CRYPTONOTE_PUBLIC_ADDRESS_BASE58_PREFIX config = addr_prefix then plain False
         else if CRYPTONOTE_PUBLIC_SUBADDRESS_BASE58_PREFIX config = addr_prefix then plain True
         else None)"

definition parse_old_address :: "address_parse_info \<Rightarrow> string \<Rightarrow> address_parse_info option" where
  "parse_old_address info str =
     (case parse_hexstr_to_binbuff str of
        None \<Rightarrow> None
      | Some buff \<Rightarrow>
          if length buff \<noteq> public_address_outer_blob_size then None
          else if CRYPTONOTE_PUBLIC_ADDRESS_TEXTBLOB_VER < buff ! 0 then None
          else if buff ! (public_address_outer_blob_size - 1) \<noteq> get_account_address_checksum buff then None
          else Some (info\<lparr>info_address := \<lparr>m_spend_public_key = take 32 (drop 1 buff), m_view_public_key = take 32 (drop 33 buff)\<rparr>,
                 info_is_subaddress := False, info_has_payment_id := False\<rparr>))"

definition get_account_address_from_str ::
  "(blob \<Rightarrow> bool) \<Rightarrow> address_parse_info \<Rightarrow> network_type \<Rightarrow> string \<Rightarrow> address_parse_info option" where
  "get_account_address_from_str check_key info nettype str =
     (case get_config nettype of
        None \<Rightarrow> None
      | Some config \<Rightarrow>
          if 2 * public_address_outer_blob_size \<noteq> length str
          then
            (case decode_addr str of
               None \<Rightarrow> None
             | Some (addr_prefix, data) \<Rightarrow> parse_address_data check_key info config addr_prefix data)
          else parse_old_address info str)"

section \<open>What is written is read back\<close>

interpretation payment_id_codec: nonempty_codec save_blob "load_blob 8" "blob_fits 8"
  by (rule codec_blob) simp

lemma codes_integrated_address:
  assumes "address_fits adr" and "blob_fits 8 payment_id"
  shows "codes (save_integrated_address (adr, payment_id)) load_integrated_address (adr, payment_id)"
  using assms unfolding save_integrated_address_def load_integrated_address_def fst_conv snd_conv
  by - (rule codes_Cons codes_ret address_codec.codes payment_id_codec.codes | simp)+

lemma parse_blob:
  assumes "codes (save x) load x"
  shows "parse_binary load (t_serializable_object_to_blob save x) = Some x"
proof -
  obtain b where b: "save x = Some b"
    using assms by (auto simp: codes_def)
  then show ?thesis
    using codes_parse [OF assms b] by (simp add: t_serializable_object_to_blob_def dump_binary_def)
qed

lemma length_address_blob:
  "address_fits adr \<Longrightarrow> length (t_serializable_object_to_blob save_address adr) = 64"
  "address_fits adr \<Longrightarrow> blob_fits 8 payment_id \<Longrightarrow>
     length (t_serializable_object_to_blob save_integrated_address (adr, payment_id)) = 72"
  by (simp_all add: t_serializable_object_to_blob_def dump_binary_def save_address_def save_integrated_address_def
      save_all_Some save_all.simps(1) save_blob_def address_fits_def blob_fits_def)

lemma length_encode_addr:
  assumes "unat tag < 128" and "encode_addr tag data = Some str"
  shows "length str = 11 * ((length data + 5) div 8) + encoded_block_sizes ! ((length data + 5) mod 8)"
proof -
  have "length (write_varint tag) = 1"
    using assms(1) by (simp add: write_varint.simps)
  then show ?thesis
    using assms(2) length_encode [of "(write_varint tag @ data) @ take 4 (cn_fast_hash (write_varint tag @ data))" str]
    by (simp add: encode_addr_def addr_checksum_size_def Let_def add.commute)
qed

text \<open>The three prefixes of the three networks are nine different numbers below 128.\<close>

lemma prefixes:
  assumes "get_config nettype = Some config"
  shows "unat (CRYPTONOTE_PUBLIC_ADDRESS_BASE58_PREFIX config) < 128"
    and "unat (CRYPTONOTE_PUBLIC_INTEGRATED_ADDRESS_BASE58_PREFIX config) < 128"
    and "unat (CRYPTONOTE_PUBLIC_SUBADDRESS_BASE58_PREFIX config) < 128"
  using assms by (cases nettype; auto simp: mainnet_def testnet_def stagenet_def)+


lemma encode_addr_decode: "encode_addr tag data = Some addr \<Longrightarrow> decode_addr addr = Some (tag, data)"
  using encode_addr_decodes [of tag data] by auto

lemma length_address_text:
  assumes "encode_addr tag data = Some str" and "unat tag < 128" and "length data = 64 \<or> length data = 72"
  shows "length str \<noteq> 2 * public_address_outer_blob_size"
  using length_encode_addr [OF assms(2,1)] assms(3)
  by (auto simp: public_address_outer_blob_size_def encoded_block_sizes_def)

text \<open>The prefixes of two networks are the same or all different.\<close>

lemma prefixes_disjoint:
  assumes "get_config nt = Some c" and "get_config nt' = Some c'" and "c \<noteq> c'"
  shows "{CRYPTONOTE_PUBLIC_ADDRESS_BASE58_PREFIX c, CRYPTONOTE_PUBLIC_INTEGRATED_ADDRESS_BASE58_PREFIX c,
      CRYPTONOTE_PUBLIC_SUBADDRESS_BASE58_PREFIX c} \<inter>
    {CRYPTONOTE_PUBLIC_ADDRESS_BASE58_PREFIX c', CRYPTONOTE_PUBLIC_INTEGRATED_ADDRESS_BASE58_PREFIX c',
      CRYPTONOTE_PUBLIC_SUBADDRESS_BASE58_PREFIX c'} = {}"
  using assms by (cases nt; cases nt'; auto simp: mainnet_def testnet_def stagenet_def)

lemma prefixes_distinct:
  assumes "get_config nt = Some c"
  shows "CRYPTONOTE_PUBLIC_ADDRESS_BASE58_PREFIX c \<noteq> CRYPTONOTE_PUBLIC_INTEGRATED_ADDRESS_BASE58_PREFIX c"
    and "CRYPTONOTE_PUBLIC_ADDRESS_BASE58_PREFIX c \<noteq> CRYPTONOTE_PUBLIC_SUBADDRESS_BASE58_PREFIX c"
    and "CRYPTONOTE_PUBLIC_SUBADDRESS_BASE58_PREFIX c \<noteq> CRYPTONOTE_PUBLIC_INTEGRATED_ADDRESS_BASE58_PREFIX c"
  using assms by (cases nt; auto simp: mainnet_def testnet_def stagenet_def)+

lemma address_of_other_network:
  assumes "encode_addr tag data = Some str" and "unat tag < 128" and "length data = 64 \<or> length data = 72"
    and "get_config nt = Some c" and "get_config nt' \<noteq> Some c"
    and "tag \<in> {CRYPTONOTE_PUBLIC_ADDRESS_BASE58_PREFIX c, CRYPTONOTE_PUBLIC_INTEGRATED_ADDRESS_BASE58_PREFIX c,
      CRYPTONOTE_PUBLIC_SUBADDRESS_BASE58_PREFIX c}"
  shows "get_account_address_from_str check_key info nt' str = None"
proof (cases "get_config nt'")
  case None
  then show ?thesis
    by (simp add: get_account_address_from_str_def)
next
  case (Some c')
  have "c \<noteq> c'"
    using Some assms(5) by auto
  from prefixes_disjoint [OF assms(4) Some this] assms(6)
  have "parse_address_data check_key info c' tag data = None"
    by (auto simp: parse_address_data_def Let_def)
  then show ?thesis
    using Some length_address_text [OF assms(1-3)] encode_addr_decode [OF assms(1)]
    by (simp add: get_account_address_from_str_def)
qed

section \<open>Properties\<close>

text \<open>
  C21. The text of an address is read back on the networks with the same prefixes, and on no
  other. For valid keys, the texts of an address, of a subaddress and of an integrated
  address exist on every network but the undefined one; reading such a text gives the
  address, whether it is a subaddress, and the payment id if there is one, when the reading
  network has the configuration of the writing one, and fails otherwise.
\<close>

theorem address_read_back:
  assumes "address_fits adr" and "blob_fits 8 payment_id" and "nt \<noteq> UNDEFINED"
    and "check_key (m_spend_public_key adr)" and "check_key (m_view_public_key adr)"
  shows "\<exists>str istr. get_account_address_as_str nt subaddress adr = Some str \<and>
    get_account_integrated_address_as_str nt adr payment_id = Some istr \<and>
    get_account_address_from_str check_key info nt' str =
      (if get_config nt' = get_config nt
       then Some (info\<lparr>info_address := adr, info_is_subaddress := subaddress, info_has_payment_id := False\<rparr>)
       else None) \<and>
    get_account_address_from_str check_key info nt' istr =
      (if get_config nt' = get_config nt
       then Some (info\<lparr>info_address := adr, info_is_subaddress := False, info_has_payment_id := True,
              info_payment_id := payment_id\<rparr>)
       else None)"
proof -
  obtain c where c: "get_config nt = Some c"
    using assms(3) by (cases nt) auto
  define tag where "tag = (if subaddress then CRYPTONOTE_PUBLIC_SUBADDRESS_BASE58_PREFIX c
    else CRYPTONOTE_PUBLIC_ADDRESS_BASE58_PREFIX c)"
  define itag where "itag = CRYPTONOTE_PUBLIC_INTEGRATED_ADDRESS_BASE58_PREFIX c"
  define data where "data = t_serializable_object_to_blob save_address adr"
  define idata where "idata = t_serializable_object_to_blob save_integrated_address (adr, payment_id)"
  obtain str where str: "encode_addr tag data = Some str"
    using encode_addr_decodes by blast
  obtain istr where istr: "encode_addr itag idata = Some istr"
    using encode_addr_decodes by blast
  have tags: "unat tag < 128" "unat itag < 128" "length data = 64" "length idata = 72"
    using prefixes [OF c] length_address_blob assms(1,2) by (simp_all add: tag_def itag_def data_def idata_def)
  have parsed: "parse_binary load_address data = Some adr" "parse_binary load_integrated_address idata = Some (adr, payment_id)"
    unfolding data_def idata_def using assms(1,2) by (intro parse_blob address_codec.codes codes_integrated_address; simp)+
  have same: "get_account_address_from_str check_key info nt' str =
        Some (info\<lparr>info_address := adr, info_is_subaddress := subaddress, info_has_payment_id := False\<rparr>)"
      "get_account_address_from_str check_key info nt' istr =
        Some (info\<lparr>info_address := adr, info_is_subaddress := False, info_has_payment_id := True, info_payment_id := payment_id\<rparr>)"
    if "get_config nt' = Some c"
    using that assms(4,5) parsed prefixes_distinct [OF c] encode_addr_decode [OF str] encode_addr_decode [OF istr]
      length_address_text [OF str] length_address_text [OF istr] tags
    by (auto simp: get_account_address_from_str_def parse_address_data_def Let_def tag_def itag_def)
  have other: "get_account_address_from_str check_key info nt' str = None"
      "get_account_address_from_str check_key info nt' istr = None"
    if "get_config nt' \<noteq> Some c"
    using that tags address_of_other_network [OF str _ _ c] address_of_other_network [OF istr _ _ c]
    by (auto simp: tag_def itag_def)
  have "get_account_address_as_str nt subaddress adr = Some str" "get_account_integrated_address_as_str nt adr payment_id = Some istr"
    using c str istr by (simp_all add: get_account_address_as_str_def get_account_integrated_address_as_str_def Let_def
        tag_def data_def itag_def idata_def)
  then show ?thesis
    using same other c by auto
qed

theorem address_read_back_witness:
  "let adr = \<lparr>m_spend_public_key = replicate 32 1, m_view_public_key = replicate 32 2\<rparr>;
       info = \<lparr>info_address = adr, info_is_subaddress = False, info_has_payment_id = False, info_payment_id = []\<rparr>
   in \<exists>str istr. get_account_address_as_str MAINNET True adr = Some str \<and>
    get_account_integrated_address_as_str MAINNET adr (replicate 8 3) = Some istr \<and>
    get_account_address_from_str (\<lambda>_. True) info TESTNET str =
      (if get_config TESTNET = get_config MAINNET
       then Some (info\<lparr>info_address := adr, info_is_subaddress := True, info_has_payment_id := False\<rparr>)
       else None) \<and>
    get_account_address_from_str (\<lambda>_. True) info TESTNET istr =
      (if get_config TESTNET = get_config MAINNET
       then Some (info\<lparr>info_address := adr, info_is_subaddress := False, info_has_payment_id := True,
              info_payment_id := replicate 8 3\<rparr>)
       else None)"
  unfolding Let_def by (rule address_read_back) (simp_all add: address_fits_def blob_fits_def)

text \<open>
  C22. An address in the old hexadecimal format is accepted on every network and with every
  pair of keys: unlike in the new format, nothing in the text depends on the network, and the
  keys are not tested to be points of the curve. For every address there is a text that is
  read as this address whatever \<^verbatim>\<open>check_key\<close> says of its keys.
\<close>

theorem old_address_unchecked:
  assumes "address_fits adr"
  shows "\<exists>str. \<forall>check_key info nt. nt \<noteq> UNDEFINED \<longrightarrow>
    get_account_address_from_str check_key info nt str =
      Some (info\<lparr>info_address := adr, info_is_subaddress := False, info_has_payment_id := False\<rparr>)"
proof -
  define b where "b = 0 # m_spend_public_key adr @ m_view_public_key adr"
  define cs where "cs = get_account_address_checksum (b @ [0])"
  have len: "length (m_spend_public_key adr) = 32" "length (m_view_public_key adr) = 32" "length b = 65"
    using assms by (simp_all add: address_fits_def blob_fits_def b_def)
  have "get_account_address_checksum (b @ [cs]) = cs"
    unfolding cs_def get_account_address_checksum_def public_address_outer_blob_size_def
    by (rule fold_cong) (simp_all add: len(3) nth_append)
  moreover have "(b @ [cs]) ! 0 = 0" "(b @ [cs]) ! 65 = cs" "take 32 (drop 1 (b @ [cs])) = m_spend_public_key adr"
      "take 32 (drop 33 (b @ [cs])) = m_view_public_key adr"
    using len by (simp_all add: b_def nth_append)
  moreover have "parse_hexstr_to_binbuff (write_hex (b @ [cs])) = Some (b @ [cs])"
    using parse_write_hex [of "b @ [cs]" "[]"] by (simp add: parse_hexstr_to_binbuff_def)
  ultimately have old: "parse_old_address info (write_hex (b @ [cs])) =
      Some (info\<lparr>info_address := adr, info_is_subaddress := False, info_has_payment_id := False\<rparr>)" for info
    using len by (simp add: parse_old_address_def public_address_outer_blob_size_def)
  have "get_account_address_from_str check_key info nt (write_hex (b @ [cs])) = parse_old_address info (write_hex (b @ [cs]))"
    if "nt \<noteq> UNDEFINED" for check_key info nt
    using that len by (cases nt) (simp_all add: get_account_address_from_str_def public_address_outer_blob_size_def)
  with old show ?thesis
    by (intro exI [of _ "write_hex (b @ [cs])"]) simp
qed

theorem old_address_unchecked_witness:
  "let adr = \<lparr>m_spend_public_key = replicate 32 255, m_view_public_key = replicate 32 2\<rparr>
   in address_fits adr \<and> (\<exists>str. \<forall>check_key info nt. nt \<noteq> UNDEFINED \<longrightarrow>
    get_account_address_from_str check_key info nt str =
      Some (info\<lparr>info_address := adr, info_is_subaddress := False, info_has_payment_id := False\<rparr>))"
  unfolding Let_def
  using old_address_unchecked [of "\<lparr>m_spend_public_key = replicate 32 255, m_view_public_key = replicate 32 2\<rparr>"]
  by (simp add: address_fits_def blob_fits_def)

end
