(* ===== verification/Stake_Transaction_Processor.thy ===== *)
theory Stake_Transaction_Processor
  imports Stake_Files Tx_Extra Addresses
begin

text \<open>
  Model of \<^verbatim>\<open>src/cryptonote_core/stake_transaction_processor.{h,cpp}\<close>: the
  component that reads the blocks of the blockchain, finds the stake transactions, keeps
  the stake storage and the blockchain based list in step with the chain, unrolls both
  when the chain is reorganised, and calls the update handlers.

  The blockchain is seen through the queries the processor makes, a record of functions; so
  are the operations on the elliptic curve. An operation that may throw returns the
  exception, if any, and the state at that point, because the handlers of exceptions in the
  code keep what was changed before.
\<close>

section \<open>What the processor uses\<close>

text \<open>
  The queries of \<^verbatim>\<open>Blockchain\<close>. \<open>bc_block_id_by_height\<close> is total:
  \<^verbatim>\<open>Blockchain::get_block_id_by_height\<close> catches the exception for a block that does
  not exist and returns the null hash. The result of \<open>bc_transactions\<close> is the transactions
  found and the hashes missed.
\<close>

record blockchain_view =
  bc_height :: u64
  bc_hard_fork_version :: "u64 \<Rightarrow> u8"
  bc_current_hard_fork_version :: u8
  bc_block_id_by_height :: "u64 \<Rightarrow> hash"
  bc_block_by_hash :: "hash \<Rightarrow> block option"
  bc_transactions :: "hash list \<Rightarrow> (transaction list \<times> hash list) option"
  bc_earliest_ideal_height :: "u8 \<Rightarrow> u64"
  bc_nettype :: network_type
  bc_db_height :: u64

record crypto_ops =
  generate_key_derivation :: "blob \<Rightarrow> blob \<Rightarrow> blob option"
  derive_public_key :: "blob \<Rightarrow> nat \<Rightarrow> blob \<Rightarrow> blob"
  derivation_to_scalar :: "blob \<Rightarrow> nat \<Rightarrow> blob"
  ecdh_decode :: "ecdh_tuple \<Rightarrow> blob \<Rightarrow> ecdh_tuple"
  add_keys2_H :: "blob \<Rightarrow> blob \<Rightarrow> blob"
  ops_check_key :: "blob \<Rightarrow> bool"
  check_signature :: "hash \<Rightarrow> blob \<Rightarrow> blob \<Rightarrow> bool"

section \<open>The state\<close>

datatype stake_event =
    Stakes_update u64 "supernode_stake list"
  | List_update u64 supernode_tier_array

text \<open>
  A handler is a function that says whether it returns (or throws); the calls of the handlers
  that returned are recorded as events.
\<close>

record stake_processor =
  m_config_dir :: string
  m_storage :: "stake_storage option"
  m_blockchain_based_list :: "blockchain_based_list option"
  m_on_stakes_update :: "(u64 \<Rightarrow> supernode_stake list \<Rightarrow> bool) option"
  m_on_blockchain_based_list_update :: "(u64 \<Rightarrow> supernode_tier_array \<Rightarrow> bool) option"
  m_stakes_need_update :: bool
  m_blockchain_based_list_need_update :: bool
  m_enabled :: bool
  sp_fs :: file_system
  sp_events :: "stake_event list"

type_synonym outcome = "stake_error option \<times> stake_processor"

definition STAKE_TRANSACTION_STORAGE_FILE_NAME :: string where
  "STAKE_TRANSACTION_STORAGE_FILE_NAME = ''stake_transactions.v2.bin''"

definition BLOCKCHAIN_BASED_LIST_FILE_NAME :: string where
  "BLOCKCHAIN_BASED_LIST_FILE_NAME = ''blockchain_based_list.v5.bin''"

definition new_stake_processor :: "file_system \<Rightarrow> stake_processor" where
  "new_stake_processor fs =
     \<lparr>m_config_dir = [], m_storage = None, m_blockchain_based_list = None, m_on_stakes_update = None,
      m_on_blockchain_based_list_update = None, m_stakes_need_update = True,
      m_blockchain_based_list_need_update = True, m_enabled = True, sp_fs = fs, sp_events = []\<rparr>"

definition set_on_update_stakes_handler :: "(u64 \<Rightarrow> supernode_stake list \<Rightarrow> bool) option \<Rightarrow> stake_processor \<Rightarrow> stake_processor" where
  "set_on_update_stakes_handler handler p = p\<lparr>m_on_stakes_update := handler\<rparr>"

definition set_on_update_blockchain_based_list_handler ::
  "(u64 \<Rightarrow> supernode_tier_array \<Rightarrow> bool) option \<Rightarrow> stake_processor \<Rightarrow> stake_processor" where
  "set_on_update_blockchain_based_list_handler handler p = p\<lparr>m_on_blockchain_based_list_update := handler\<rparr>"

definition set_enabled :: "bool \<Rightarrow> stake_processor \<Rightarrow> stake_processor" where
  "set_enabled arg p = p\<lparr>m_enabled := arg\<rparr>"

definition init_storages :: "string \<Rightarrow> stake_processor \<Rightarrow> outcome" where
  "init_storages config_dir p =
     (if m_storage p \<noteq> None \<or> m_blockchain_based_list p \<noteq> None then (Some Storages_already_initialized, p)
      else (None, p\<lparr>m_config_dir := config_dir\<rparr>))"

definition init_storages_impl :: "blockchain_view \<Rightarrow> mt19937_64 \<Rightarrow> stake_processor \<Rightarrow> outcome" where
  "init_storages_impl bc rng p =
     (if m_storage p \<noteq> None \<or> m_blockchain_based_list p \<noteq> None then (Some Storages_already_initialized, p)
      else
        let first_block_number = (if m_enabled p then bc_earliest_ideal_height bc STAKE_TRANSACTION_PROCESSING_DB_VERSION
                                  else - 1);
            first_block_number = (if first_block_number \<noteq> 0 then first_block_number - 1 else first_block_number)
        in case open_stake_storage (sp_fs p) (m_config_dir p @ ''/'' @ STAKE_TRANSACTION_STORAGE_FILE_NAME) first_block_number of
             Inl e \<Rightarrow> (Some e, p)
           | Inr s \<Rightarrow>
               let p = p\<lparr>m_storage := Some s\<rparr>
               in case open_blockchain_based_list (sp_fs p) (m_config_dir p @ ''/'' @ BLOCKCHAIN_BASED_LIST_FILE_NAME) first_block_number rng of
                    Inl e \<Rightarrow> (Some e, p)
                  | Inr l \<Rightarrow> (None, p\<lparr>m_blockchain_based_list := Some l\<rparr>))"

section \<open>Stake transactions of a block\<close>

definition h2d :: "blob \<Rightarrow> u64" where
  "h2d test = foldr (\<lambda>b vali. vali * 256 + ucast b) (take 8 test) 0"

text \<open>
  The amount of the output \<open>n\<close>, for the owner of the address. Reading the vectors of the
  ring signature out of range, undefined in C++, is the error \<open>None\<close>.
\<close>

definition output_amount :: "crypto_ops \<Rightarrow> transaction \<Rightarrow> account_public_address \<Rightarrow> blob \<Rightarrow> nat \<Rightarrow> u64 option" where
  "output_amount ops tx address tx_key n =
     (if version (tx_prefix tx) = 1 then Some (out_amount (vout (tx_prefix tx) ! n))
      else
        case generate_key_derivation ops (m_view_public_key address) tx_key of
          None \<Rightarrow> Some 0
        | Some derivation \<Rightarrow>
            if length (ecdhInfo (rct_base tx)) \<le> n \<or> length (outPk (rct_base tx)) \<le> n then None
            else
              let scalar1 = derivation_to_scalar ops derivation n;
                  ecdh_info = ecdh_decode ops (ecdhInfo (rct_base tx) ! n) scalar1;
                  C = ct_mask (outPk (rct_base tx) ! n);
                  Ctmp = add_keys2_H ops (ecdh_mask ecdh_info) (ecdh_amount ecdh_info)
              in Some (if C = Ctmp then h2d (ecdh_amount ecdh_info) else 0))"

fun received_amount ::
  "crypto_ops \<Rightarrow> transaction \<Rightarrow> account_public_address \<Rightarrow> blob \<Rightarrow> blob \<Rightarrow> nat list \<Rightarrow> u64 \<Rightarrow> u64 option" where
  "received_amount ops tx address tx_key derivation [] received = Some received"
| "received_amount ops tx address tx_key derivation (n # ns) received =
     (case target_key (out_target (vout (tx_prefix tx) ! n)) of
        None \<Rightarrow> received_amount ops tx address tx_key derivation ns received
      | Some key \<Rightarrow>
          if derive_public_key ops derivation n (m_spend_public_key address) = key
          then
            (case output_amount ops tx address tx_key n of
               None \<Rightarrow> None
             | Some amount \<Rightarrow> received_amount ops tx address tx_key derivation ns (received + amount))
          else received_amount ops tx address tx_key derivation ns received)"

definition get_transaction_amount :: "crypto_ops \<Rightarrow> transaction \<Rightarrow> account_public_address \<Rightarrow> blob \<Rightarrow> u64 option" where
  "get_transaction_amount ops tx address tx_key =
     (case generate_key_derivation ops (m_view_public_key address) tx_key of
        None \<Rightarrow> Some 0
      | Some derivation \<Rightarrow> received_amount ops tx address tx_key derivation [0..<length (vout (tx_prefix tx))] 0)"

definition max_unlock_time :: "blockchain_view \<Rightarrow> u64" where
  "max_unlock_time bc =
     (if bc_current_hard_fork_version bc < 16 then STAKE_MAX_UNLOCK_TIME_V15 else STAKE_MAX_UNLOCK_TIME)"

text \<open>
  The body of the loop over the transactions of a block: the stake transaction that the
  transaction is, or \<open>None\<close> where the code continues with the next one, also after an
  exception.
\<close>

definition find_stake_tx ::
  "crypto_ops \<Rightarrow> blockchain_view \<Rightarrow> u64 \<Rightarrow> transaction \<Rightarrow> stake_error + stake_transaction option" where
  "find_stake_tx ops bc block_index tx =
     (let tx_hash = get_transaction_prefix_hash (tx_prefix tx) in
      case get_graft_stake_tx_extra_from_extra tx of
        None \<Rightarrow> Inr None
      | Some (public_id, public_address, signature, secret_key) \<Rightarrow>
          (case hex_to_pod 32 public_id of
             None \<Rightarrow> Inr None
           | Some W \<Rightarrow>
               if \<not> ops_check_key ops W then Inr None
               else
                 (case get_account_address_as_str (bc_nettype bc) False public_address of
                    None \<Rightarrow> Inr None
                  | Some supernode_public_address_str \<Rightarrow>
                      let data = supernode_public_address_str @ '':'' @ public_id;
                          hash = cn_fast_hash (map byte_of_char data);
                          unlock = unlock_time (tx_prefix tx) - block_index
                      in if \<not> check_signature ops hash W signature then Inr None
                         else if unlock < STAKE_MIN_UNLOCK_TIME then Inr None
                         else if max_unlock_time bc < unlock then Inr None
                         else
                           (case get_transaction_amount ops tx public_address secret_key of
                              None \<Rightarrow> Inl Out_of_range
                            | Some amount \<Rightarrow>
                                if amount = 0 then Inr None
                                else
                                  Inr (Some \<lparr>tx_hash = tx_hash, tx_amount = amount, tx_block_height = block_index,
                                    tx_unlock_time = unlock, tx_supernode_public_id = public_id,
                                    tx_supernode_public_address = public_address, tx_supernode_signature = signature,
                                    tx_secret_key = secret_key\<rparr>)))))"

fun add_stake_txs ::
  "crypto_ops \<Rightarrow> blockchain_view \<Rightarrow> u64 \<Rightarrow> transaction list \<Rightarrow> stake_storage \<Rightarrow> stake_error option \<times> stake_storage" where
  "add_stake_txs ops bc block_index [] s = (None, s)"
| "add_stake_txs ops bc block_index (tx # txs) s =
     (case find_stake_tx ops bc block_index tx of
        Inl e \<Rightarrow> (Some e, s)
      | Inr None \<Rightarrow> add_stake_txs ops bc block_index txs s
      | Inr (Some stake_tx) \<Rightarrow> add_stake_txs ops bc block_index txs (add_tx stake_tx s))"

section \<open>Processing a block\<close>

text \<open>Storing a component and keeping it where it was when the file cannot be written.\<close>

definition store_storage :: "stake_storage \<Rightarrow> stake_processor \<Rightarrow> outcome" where
  "store_storage s p =
     (case storage_store (sp_fs p) s of
        Inl e \<Rightarrow> (Some e, p)
      | Inr (fs, s) \<Rightarrow> (None, p\<lparr>sp_fs := fs, m_storage := Some s\<rparr>))"

definition store_list :: "blockchain_based_list \<Rightarrow> stake_processor \<Rightarrow> outcome" where
  "store_list l p =
     (case list_store (sp_fs p) l of
        Inl e \<Rightarrow> (Some e, p)
      | Inr (fs, l) \<Rightarrow> (None, p\<lparr>sp_fs := fs, m_blockchain_based_list := Some l\<rparr>))"

text \<open>
  The two components are passed apart from the processor that holds them: the code
  dereferences the pointers after \<open>init_storages_impl\<close> has set them.
\<close>

definition finish_block :: "u64 \<Rightarrow> hash \<Rightarrow> bool \<Rightarrow> stake_storage \<Rightarrow> stake_processor \<Rightarrow> outcome" where
  "finish_block block_index block_hash update_storage s p =
     (case add_last_processed_block block_index block_hash s of
        Inl e \<Rightarrow> (Some e, p\<lparr>m_storage := Some s\<rparr>)
      | Inr s \<Rightarrow>
          let p = p\<lparr>m_storage := Some s\<rparr>
          in if update_storage then store_storage s p else (None, p))"

definition process_block_stake_transaction ::
  "crypto_ops \<Rightarrow> blockchain_view \<Rightarrow> u64 \<Rightarrow> block \<Rightarrow> hash \<Rightarrow> bool \<Rightarrow> stake_storage \<Rightarrow> stake_processor \<Rightarrow> outcome" where
  "process_block_stake_transaction ops bc block_index block block_hash update_storage s p =
     (if block_index \<le> m_last_processed_block_index s then (None, p)
      else if STAKE_TRANSACTION_PROCESSING_DB_VERSION \<le> bc_hard_fork_version bc block_index
      then
        (case bc_transactions bc (tx_hashes block) of
           None \<Rightarrow> (None, p)
         | Some (txs, missed_txs) \<Rightarrow>
             (case add_stake_txs ops bc block_index txs s of
                (Some e, s) \<Rightarrow> (Some e, p\<lparr>m_storage := Some s\<rparr>)
              | (None, s) \<Rightarrow>
                  let p = p\<lparr>m_stakes_need_update := True\<rparr>;
                      s = update_supernode_stakes block_index s
                  in finish_block block_index block_hash update_storage s p))
      else finish_block block_index block_hash update_storage s p)"

definition process_block_blockchain_based_list ::
  "u64 \<Rightarrow> hash \<Rightarrow> bool \<Rightarrow> stake_storage \<Rightarrow> blockchain_based_list \<Rightarrow> stake_processor \<Rightarrow> outcome" where
  "process_block_blockchain_based_list block_index block_hash update_storage s l p =
     (let prev_block_height = m_block_height l in
      case apply_block block_index block_hash s l of
        Inl e \<Rightarrow> (Some e, p)
      | Inr (s, l) \<Rightarrow>
          let p = p\<lparr>m_storage := Some s, m_blockchain_based_list := Some l\<rparr>
          in if bbl_need_store l \<or> prev_block_height \<noteq> m_block_height l
             then
               let p = p\<lparr>m_blockchain_based_list_need_update := True\<rparr>
               in if update_storage then store_list l p else (None, p)
             else (None, p))"

definition process_block :: "crypto_ops \<Rightarrow> blockchain_view \<Rightarrow> u64 \<Rightarrow> block \<Rightarrow> hash \<Rightarrow> bool \<Rightarrow> stake_processor \<Rightarrow> outcome" where
  "process_block ops bc block_index block block_hash update_storage p =
     (case m_storage p of
        None \<Rightarrow> (Some Null_pointer, p)
      | Some s \<Rightarrow>
          (case process_block_stake_transaction ops bc block_index block block_hash update_storage s p of
             (Some e, p) \<Rightarrow> (Some e, p)
           | (None, p) \<Rightarrow>
               (case (m_storage p, m_blockchain_based_list p) of
                  (Some s, Some l) \<Rightarrow> process_block_blockchain_based_list block_index block_hash update_storage s l p
                | _ \<Rightarrow> (Some Null_pointer, p))))"

section \<open>Handlers\<close>

definition invoke_update_stakes_handler_impl :: "u64 \<Rightarrow> stake_processor \<Rightarrow> stake_processor" where
  "invoke_update_stakes_handler_impl block_index p =
     (case m_storage p of
        None \<Rightarrow> p
      | Some s \<Rightarrow>
          (case m_on_stakes_update p of
             None \<Rightarrow> p
           | Some handler \<Rightarrow>
               let (stakes, s) = get_supernode_stakes block_index s;
                   p = p\<lparr>m_storage := Some s\<rparr>
               in if handler block_index stakes
                  then p\<lparr>m_stakes_need_update := False, sp_events := sp_events p @ [Stakes_update block_index stakes]\<rparr>
                  else p))"

definition invoke_update_stakes_handler :: "blockchain_view \<Rightarrow> bool \<Rightarrow> stake_processor \<Rightarrow> stake_processor" where
  "invoke_update_stakes_handler bc force p =
     (if m_on_stakes_update p = None then p
      else if \<not> m_stakes_need_update p \<and> \<not> force then p
      else invoke_update_stakes_handler_impl (bc_db_height bc - 1) p)"

text \<open>The loop over the depths; an exception of \<open>tiers\<close> or of the handler ends it.\<close>

fun invoke_list_handler ::
  "(u64 \<Rightarrow> supernode_tier_array \<Rightarrow> bool) \<Rightarrow> u64 \<Rightarrow> blockchain_based_list \<Rightarrow> nat list \<Rightarrow> stake_processor \<Rightarrow> stake_processor" where
  "invoke_list_handler handler height l [] p = p\<lparr>m_blockchain_based_list_need_update := False\<rparr>"
| "invoke_list_handler handler height l (i # is) p =
     (case tiers (of_nat i) l of
        Inl e \<Rightarrow> p
      | Inr array \<Rightarrow>
          if handler (height - of_nat i) array
          then invoke_list_handler handler height l is (p\<lparr>sp_events := sp_events p @ [List_update (height - of_nat i) array]\<rparr>)
          else p)"

definition invoke_update_blockchain_based_list_handler_impl :: "u64 \<Rightarrow> stake_processor \<Rightarrow> stake_processor" where
  "invoke_update_blockchain_based_list_handler_impl depth p =
     (case (m_blockchain_based_list p, m_on_blockchain_based_list_update p) of
        (Some l, Some handler) \<Rightarrow>
          if m_block_height l = 0 then p
          else
            let depth = (if m_history_depth l < depth then m_history_depth l else depth);
                depth = (if SUPERNODE_HISTORY_SIZE < depth then SUPERNODE_HISTORY_SIZE else depth)
            in invoke_list_handler handler (m_block_height l) l [0..<unat depth] p
      | _ \<Rightarrow> p)"

definition invoke_update_blockchain_based_list_handler :: "bool \<Rightarrow> u64 \<Rightarrow> stake_processor \<Rightarrow> stake_processor" where
  "invoke_update_blockchain_based_list_handler force depth p =
     (if m_on_blockchain_based_list_update p = None then p
      else
        let force = (if 1 < depth then True else force)
        in if \<not> m_blockchain_based_list_need_update p \<and> \<not> force then p
           else invoke_update_blockchain_based_list_handler_impl depth p)"

text \<open>\<open>find_supernode_stake\<close> of the processor; the query may refresh the table of the storage.\<close>

definition processor_find_supernode_stake :: "u64 \<Rightarrow> string \<Rightarrow> stake_processor \<Rightarrow> supernode_stake option \<times> stake_processor" where
  "processor_find_supernode_stake block_number supernode_public_id p =
     (case m_storage p of
        None \<Rightarrow> (None, p)
      | Some s \<Rightarrow>
          let (stake, s) = find_supernode_stake block_number supernode_public_id s
          in (stake, p\<lparr>m_storage := Some s\<rparr>))"

section \<open>Synchronization with the blockchain\<close>

definition MAX_ITERATIONS_COUNT :: u64 where
  [config_defs]: "MAX_ITERATIONS_COUNT = 10000"

text \<open>
  The first loop of \<open>synchronize\<close> removes processed blocks until the last one is a block
  of the chain. \<open>keeps_last_block\<close> is its test: whether the loop stops at the last processed
  block.
\<close>

definition keeps_last_block :: "blockchain_view \<Rightarrow> u64 \<Rightarrow> stake_storage \<Rightarrow> stake_error + bool" where
  "keeps_last_block bc height s =
     (if m_last_processed_block_index s < height
      then
        (case get_last_processed_block_hash s of
           Inl e \<Rightarrow> Inl e
         | Inr last_processed_block_hash \<Rightarrow>
             Inr (last_processed_block_hash = bc_block_id_by_height bc (m_last_processed_block_index s)))
      else Inr False)"

definition unroll_storage :: "stake_storage \<Rightarrow> stake_storage" where
  "unroll_storage s =
     (let s' = remove_last_processed_block s
      in if get_tx_count s \<noteq> get_tx_count s' then clear_supernode_stakes s' else s')"

function unroll_blocks ::
  "blockchain_view \<Rightarrow> u64 \<Rightarrow> stake_storage \<Rightarrow> blockchain_based_list
   \<Rightarrow> stake_error option \<times> stake_storage \<times> blockchain_based_list" where
  "unroll_blocks bc height s l =
     (if \<not> has_last_processed_block s then (None, s, l)
      else
        case keeps_last_block bc height s of
          Inl e \<Rightarrow> (Some e, s, l)
        | Inr stop \<Rightarrow>
            if stop then (None, s, l)
            else unroll_blocks bc height (unroll_storage s)
                   (if m_block_height l = m_last_processed_block_index s then remove_latest_block l else l))"
  by pat_completeness auto

lemma unroll_storage_count:
  "has_last_processed_block s \<Longrightarrow>
   m_last_processed_block_hashes_count (unroll_storage s) = m_last_processed_block_hashes_count s - 1"
  by (auto simp: unroll_storage_def remove_last_processed_block_def clear_supernode_stakes_def
      has_last_processed_block_def Let_def)

termination unroll_blocks
proof (relation "measure (\<lambda>(bc, height, s, l). unat (m_last_processed_block_hashes_count s))", goal_cases)
  case (2 bc height s l x2)
  then have s: "has_last_processed_block s"
    by simp
  then have n: "m_last_processed_block_hashes_count s \<noteq> 0"
    by (auto simp: has_last_processed_block_def)
  then have "0 < unat (m_last_processed_block_hashes_count s)"
    by (simp add: unat_gt_0)
  then show ?case
    using s unat_dec_pos [OF n] by (simp add: unroll_storage_count)
qed simp

declare unroll_blocks.simps [simp del]

text \<open>
  The second loop processes the blocks of the chain from \<open>i\<close> on; the result has the index
  of the block at which it ended. The handlers of \<^verbatim>\<open>BLOCK_DNE\<close> are not reached: the
  queries do not throw it.
\<close>

function apply_blocks ::
  "crypto_ops \<Rightarrow> blockchain_view \<Rightarrow> u64 \<Rightarrow> u64 \<Rightarrow> stake_processor \<Rightarrow> stake_error option \<times> u64 \<times> stake_processor" where
  "apply_blocks ops bc last_block_index_for_sync i p =
     (if i < last_block_index_for_sync
      then
        let block_hash = bc_block_id_by_height bc i
        in case bc_block_by_hash bc block_hash of
             None \<Rightarrow> (Some Block_hash_not_found, i, p)
           | Some block \<Rightarrow>
               (case process_block ops bc i block block_hash False p of
                  (Some e, p) \<Rightarrow> (Some e, i, p)
                | (None, p) \<Rightarrow> apply_blocks ops bc last_block_index_for_sync (i + 1) p)
      else (None, i, p))"
  by pat_completeness auto

lemma unat_less_inc:
  fixes i :: "'a::len word"
  assumes "i < n"
  shows "unat (i + 1) = unat i + 1"
proof -
  have "i \<noteq> - 1"
    using assms word_order.extremum_strict [of n] by auto
  then show ?thesis by (rule unat_inc)
qed

termination apply_blocks
proof (relation "measure (\<lambda>(ops, bc, n, i, p). unat n - unat i)", goal_cases)
  case (2 ops bc n i p)
  then show ?case
    by (simp add: unat_less_inc word_less_nat_alt)
qed simp

declare apply_blocks.simps [simp del]

definition store_changes :: "stake_processor \<Rightarrow> outcome" where
  "store_changes p =
     (case (m_storage p, m_blockchain_based_list p) of
        (Some s, Some l) \<Rightarrow>
          (case (if bbl_need_store l then store_list l p else (None, p)) of
             (Some e, p) \<Rightarrow> (Some e, p)
           | (None, p) \<Rightarrow> if m_need_store s then store_storage s p else (None, p))
      | _ \<Rightarrow> (Some Null_pointer, p))"

definition call_handlers :: "u64 \<Rightarrow> u64 \<Rightarrow> stake_processor \<Rightarrow> stake_processor" where
  "call_handlers first_block_index last_block_index p =
     (let p = (if m_stakes_need_update p \<and> m_on_stakes_update p \<noteq> None
               then invoke_update_stakes_handler_impl (last_block_index - 1) p else p)
      in if m_blockchain_based_list_need_update p \<and> m_on_blockchain_based_list_update p \<noteq> None
         then invoke_update_blockchain_based_list_handler_impl (last_block_index - first_block_index) p else p)"

definition first_block_index_for_sync :: "stake_storage \<Rightarrow> blockchain_based_list \<Rightarrow> u64" where
  "first_block_index_for_sync s l =
     (let first_block_index = m_last_processed_block_index s + 1
      in if m_block_height l + 1 < first_block_index then m_block_height l + 1 else first_block_index)"

definition last_block_index_for_sync :: "u64 \<Rightarrow> u64 \<Rightarrow> u64" where
  "last_block_index_for_sync height first_block_index =
     (if MAX_ITERATIONS_COUNT < height - first_block_index then first_block_index + MAX_ITERATIONS_COUNT else height)"

text \<open>The body of the \<^verbatim>\<open>try\<close> block of \<open>synchronize\<close>, with the exception it ends with.\<close>

definition synchronize_blocks :: "crypto_ops \<Rightarrow> blockchain_view \<Rightarrow> u64 \<Rightarrow> stake_processor \<Rightarrow> outcome" where
  "synchronize_blocks ops bc height p =
     (case (m_storage p, m_blockchain_based_list p) of
        (Some s, Some l) \<Rightarrow>
          (case unroll_blocks bc height s l of
             (Some e, s, l) \<Rightarrow> (Some e, p\<lparr>m_storage := Some s, m_blockchain_based_list := Some l\<rparr>)
           | (None, s, l) \<Rightarrow>
               let p = p\<lparr>m_storage := Some s, m_blockchain_based_list := Some l\<rparr>;
                   first_block_index = first_block_index_for_sync s l
               in case apply_blocks ops bc (last_block_index_for_sync height first_block_index) first_block_index p of
                    (Some e, last_block_index, p) \<Rightarrow> (Some e, p)
                  | (None, last_block_index, p) \<Rightarrow>
                      (case store_changes p of
                         (Some e, p) \<Rightarrow> (Some e, p)
                       | (None, p) \<Rightarrow>
                           (None, if last_block_index = height
                                  then call_handlers first_block_index last_block_index p else p)))
      | _ \<Rightarrow> (Some Null_pointer, p))"

definition synchronize :: "crypto_ops \<Rightarrow> blockchain_view \<Rightarrow> mt19937_64 \<Rightarrow> stake_processor \<Rightarrow> outcome" where
  "synchronize ops bc rng p =
     (let height = bc_height bc
      in if height = 0 \<or> bc_hard_fork_version bc (height - 1) < STAKE_TRANSACTION_PROCESSING_DB_VERSION then (None, p)
         else
           case (if m_storage p = None \<or> m_blockchain_based_list p = None then init_storages_impl bc rng p else (None, p)) of
             (Some e, p) \<Rightarrow> (Some e, p)
           | (None, p) \<Rightarrow> (None, snd (synchronize_blocks ops bc height p)))"

end
