(* ===== verification/Stake_Synchronization.thy ===== *)
theory Stake_Synchronization
  imports Stake_Transaction_Processor
begin

text \<open>
  Correctness of the synchronization of \<^verbatim>\<open>StakeTransactionProcessor\<close> with the
  blockchain: what the storage and the list hold in every reachable state, also after the chain
  was reorganised, that the processor catches up with the chain, and what happens when a query or
  a file fails.
\<close>

section \<open>What the processor should have found\<close>

text \<open>
  The specification: the hash of the block at an index, and the stake transactions of that
  block, as the blockchain gives them.
\<close>

definition chain_id :: "blockchain_view \<Rightarrow> nat \<Rightarrow> hash" where
  "chain_id bc i = bc_block_id_by_height bc (of_nat i)"

definition stake_txs_of :: "crypto_ops \<Rightarrow> blockchain_view \<Rightarrow> u64 \<Rightarrow> transaction list \<Rightarrow> stake_transaction list" where
  "stake_txs_of ops bc i txs =
     List.map_filter (\<lambda>tx. case find_stake_tx ops bc i tx of Inl e \<Rightarrow> None | Inr r \<Rightarrow> r) txs"

definition block_stake_txs :: "crypto_ops \<Rightarrow> blockchain_view \<Rightarrow> nat \<Rightarrow> stake_transaction list" where
  "block_stake_txs ops bc i =
     (if STAKE_TRANSACTION_PROCESSING_DB_VERSION \<le> bc_hard_fork_version bc (of_nat i)
      then
        (case bc_block_by_hash bc (chain_id bc i) of
           None \<Rightarrow> []
         | Some b \<Rightarrow>
             (case bc_transactions bc (tx_hashes b) of
                None \<Rightarrow> []
              | Some (txs, missed_txs) \<Rightarrow> stake_txs_of ops bc (of_nat i) txs))
      else [])"

text \<open>
  The storage is what a scan of the chain gives: the window holds the hashes of the last
  blocks, and the transactions are those of all the blocks after the first one, in order.
\<close>

definition scanned :: "crypto_ops \<Rightarrow> blockchain_view \<Rightarrow> stake_storage \<Rightarrow> bool" where
  "scanned ops bc s \<longleftrightarrow>
     storage_inv s \<and>
     m_last_processed_block_hashes s =
       map (chain_id bc)
         [Suc (unat (m_last_processed_block_index s)) - length (m_last_processed_block_hashes s)
          ..< Suc (unat (m_last_processed_block_index s))] \<and>
     m_stake_txs s =
       concat (map (block_stake_txs ops bc)
         [Suc (unat (m_first_block_number s)) ..< Suc (unat (m_last_processed_block_index s))])"

text \<open>The list and the storage have processed the same blocks and remember as many of them.\<close>

definition in_step :: "stake_storage \<Rightarrow> blockchain_based_list \<Rightarrow> bool" where
  "in_step s l \<longleftrightarrow>
     m_block_height l = m_last_processed_block_index s \<and>
     bbl_first_block_number l = m_first_block_number s \<and>
     length (m_history l) = length (m_last_processed_block_hashes s) \<and>
     m_history_depth l = m_last_processed_block_hashes_count s"

definition processor_ok :: "crypto_ops \<Rightarrow> blockchain_view \<Rightarrow> stake_processor \<Rightarrow> bool" where
  "processor_ok ops bc p \<longleftrightarrow>
     (\<exists>s l. m_storage p = Some s \<and> m_blockchain_based_list p = Some l \<and> scanned ops bc s \<and> in_step s l)"

text \<open>
  What the processor relies on. A view of the chain is usable if its blocks and their
  transactions are there. Two views have the same history below a common block: the hash of a
  block covers all blocks before it, and a hash determines a block.
\<close>

definition chain_ok :: "crypto_ops \<Rightarrow> blockchain_view \<Rightarrow> bool" where
  "chain_ok ops bc \<longleftrightarrow>
     bc_height bc \<noteq> 0 \<and>
     bc_earliest_ideal_height bc STAKE_TRANSACTION_PROCESSING_DB_VERSION \<le> bc_height bc \<and>
     STAKE_TRANSACTION_PROCESSING_DB_VERSION \<le> bc_hard_fork_version bc (bc_height bc - 1) \<and>
     (\<forall>i < unat (bc_height bc). \<exists>b txs missed_txs.
        bc_block_by_hash bc (chain_id bc i) = Some b \<and>
        bc_transactions bc (tx_hashes b) = Some (txs, missed_txs) \<and>
        (\<forall>tx \<in> set txs. \<exists>r. find_stake_tx ops bc (of_nat i) tx = Inr r))"

definition same_block :: "blockchain_view \<Rightarrow> blockchain_view \<Rightarrow> nat \<Rightarrow> bool" where
  "same_block bc bc' i \<longleftrightarrow>
     chain_id bc i = chain_id bc' i \<and>
     bc_hard_fork_version bc (of_nat i) = bc_hard_fork_version bc' (of_nat i) \<and>
     bc_block_by_hash bc (chain_id bc i) = bc_block_by_hash bc' (chain_id bc' i) \<and>
     (\<forall>b. bc_block_by_hash bc (chain_id bc i) = Some b \<longrightarrow>
        bc_transactions bc (tx_hashes b) = bc_transactions bc' (tx_hashes b))"

definition same_history :: "blockchain_view \<Rightarrow> blockchain_view \<Rightarrow> bool" where
  "same_history bc bc' \<longleftrightarrow>
     bc_nettype bc = bc_nettype bc' \<and> max_unlock_time bc = max_unlock_time bc' \<and>
     bc_earliest_ideal_height bc STAKE_TRANSACTION_PROCESSING_DB_VERSION =
       bc_earliest_ideal_height bc' STAKE_TRANSACTION_PROCESSING_DB_VERSION \<and>
     (\<forall>i < unat (bc_height bc'). chain_id bc i = chain_id bc' i \<longrightarrow> (\<forall>j \<le> i. same_block bc bc' j))"

section \<open>Stake transactions of a block\<close>

lemma find_stake_tx_height:
  "find_stake_tx ops bc i tx = Inr (Some t) \<Longrightarrow> tx_block_height t = i"
  by (auto simp: find_stake_tx_def Let_def split: option.splits if_splits)

lemma find_stake_tx_cong:
  assumes "bc_nettype bc = bc_nettype bc'" and "max_unlock_time bc = max_unlock_time bc'"
  shows "find_stake_tx ops bc i tx = find_stake_tx ops bc' i tx"
  unfolding find_stake_tx_def assms ..

lemma stake_txs_of_heights: "t \<in> set (stake_txs_of ops bc i txs) \<Longrightarrow> tx_block_height t = i"
  by (auto simp: stake_txs_of_def map_filter_def split: sum.splits intro: find_stake_tx_height)

lemma block_stake_txs_heights:
  assumes "t \<in> set (block_stake_txs ops bc i)"
  shows "tx_block_height t = of_nat i"
proof -
  have "block_stake_txs ops bc i = [] \<or> (\<exists>txs. block_stake_txs ops bc i = stake_txs_of ops bc (of_nat i) txs)"
    unfolding block_stake_txs_def by (auto split: option.split)
  with assms show ?thesis
    using stake_txs_of_heights by auto
qed

lemma block_stake_txs_same:
  "bc_nettype bc = bc_nettype bc' \<Longrightarrow> max_unlock_time bc = max_unlock_time bc' \<Longrightarrow> same_block bc bc' i \<Longrightarrow>
   block_stake_txs ops bc i = block_stake_txs ops bc' i"
  using find_stake_tx_cong [of bc bc']
  by (auto simp: block_stake_txs_def stake_txs_of_def same_block_def split: option.splits)

lemma add_stake_txs_fold:
  assumes "\<forall>tx \<in> set txs. \<exists>r. find_stake_tx ops bc i tx = Inr r"
  shows "add_stake_txs ops bc i txs s = (None, fold add_tx (stake_txs_of ops bc i txs) s)"
  using assms
  by (induction txs arbitrary: s) (auto simp: stake_txs_of_def map_filter_simps split: option.splits)

section \<open>Unrolling\<close>

lemma scanned_cong: "storage_view s = storage_view t \<Longrightarrow> scanned ops bc s = scanned ops bc t"
  using storage_inv_cong [of s t] by (simp add: scanned_def storage_view_def)

lemma storage_view_clear [simp]: "storage_view (clear_supernode_stakes s) = storage_view s"
  by (simp add: clear_supernode_stakes_def storage_view_def)

lemma storage_view_unroll [simp]: "storage_view (unroll_storage s) = storage_view (remove_last_processed_block s)"
  by (simp add: unroll_storage_def Let_def)

lemma storage_inv_nonempty:
  "storage_inv s \<Longrightarrow> has_last_processed_block s \<longleftrightarrow> m_last_processed_block_hashes s \<noteq> []"
  by (auto simp: storage_inv_def has_last_processed_block_def word_less_nat_alt)

lemma filter_concat_last:
  assumes "n < 2 ^ 64"
  shows "filter (\<lambda>tx. tx_block_height tx \<noteq> of_nat n) (concat (map (block_stake_txs ops bc) [m..<Suc n])) =
    concat (map (block_stake_txs ops bc) [m..<n])"
proof -
  have keep: "tx_block_height tx \<noteq> of_nat n" if "i < n" "tx \<in> set (block_stake_txs ops bc i)" for i tx
  proof
    assume "tx_block_height tx = of_nat n"
    with block_stake_txs_heights [OF that(2)] have "(of_nat i :: u64) = of_nat n" by simp
    then have "unat (of_nat i :: u64) = unat (of_nat n :: u64)" by (rule arg_cong)
    with that(1) assms show False by (simp add: unat_of_nat)
  qed
  have "filter (\<lambda>tx. tx_block_height tx \<noteq> of_nat n) (concat (map (block_stake_txs ops bc) [m..<n])) =
    concat (map (block_stake_txs ops bc) [m..<n])"
    using keep by (intro filter_id_if) auto
  moreover have "filter (\<lambda>tx. tx_block_height tx \<noteq> of_nat n) (block_stake_txs ops bc n) = []"
    using block_stake_txs_heights by (auto simp: filter_empty_conv)
  ultimately show ?thesis
    by (cases "m \<le> n") simp_all
qed

lemma scanned_remove:
  assumes sc: "scanned ops bc s" and blk: "has_last_processed_block s"
  shows "scanned ops bc (remove_last_processed_block s)"
proof -
  let ?n = "unat (m_last_processed_block_index s)" and ?k = "length (m_last_processed_block_hashes s)"
  have inv: "storage_inv s" and hs: "m_last_processed_block_hashes s = map (chain_id bc) [Suc ?n - ?k..<Suc ?n]"
    and txs: "m_stake_txs s = concat (map (block_stake_txs ops bc) [Suc (unat (m_first_block_number s))..<Suc ?n])"
    using sc by (simp_all add: scanned_def)
  have cnt: "m_last_processed_block_hashes_count s \<noteq> 0"
    using blk by (auto simp: has_last_processed_block_def)
  have k: "1 \<le> ?k" "unat (m_first_block_number s) + ?k \<le> ?n"
    using inv storage_inv_nonempty [OF inv] blk by (auto simp: storage_inv_def Suc_le_eq)
  then have dec: "unat (m_last_processed_block_index s - 1) = ?n - 1"
    by (intro unat_dec_pos) auto
  have bl: "butlast (m_last_processed_block_hashes s) = map (chain_id bc) [Suc ?n - ?k..<?n]"
    using k by (subst hs) (simp add: map_butlast)
  have fl: "filter (\<lambda>tx. tx_block_height tx \<noteq> m_last_processed_block_index s) (m_stake_txs s) =
    concat (map (block_stake_txs ops bc) [Suc (unat (m_first_block_number s))..<?n])"
    using filter_concat_last [of ?n ops bc "Suc (unat (m_first_block_number s))"] unsigned_less [of "m_last_processed_block_index s", where ?'a = nat]
    by (simp add: txs)
  have "storage_inv (remove_last_processed_block s)"
    using inv by (rule storage_inv_remove)
  moreover have "[Suc (?n - 1) - length (butlast (m_last_processed_block_hashes s))..<Suc (?n - 1)] = [Suc ?n - ?k..<?n]"
    using k by (intro arg_cong2 [where f = upt]) (simp_all del: length_0_conv)
  ultimately show ?thesis
    using remove_last_processed_block_fields [OF cnt] k dec bl fl
    by (cases "butlast (m_last_processed_block_hashes s) = []")
      (simp_all add: scanned_def storage_view_def del: upt_Suc length_butlast)
qed

lemma scanned_unroll: "scanned ops bc s \<Longrightarrow> has_last_processed_block s \<Longrightarrow> scanned ops bc (unroll_storage s)"
  using scanned_remove scanned_cong [OF storage_view_unroll] by blast

lemma in_step_unroll:
  assumes "storage_inv s" and "in_step s l" and "has_last_processed_block s"
  shows "in_step (unroll_storage s) (remove_latest_block l)"
proof -
  have cnt: "m_last_processed_block_hashes_count s \<noteq> 0"
    using assms(3) by (auto simp: has_last_processed_block_def)
  then have depth: "m_history_depth l \<noteq> 0"
    using assms(2) by (simp add: in_step_def)
  have nil: "butlast (m_history l) = [] \<longleftrightarrow> butlast (m_last_processed_block_hashes s) = []"
    and len: "length (butlast (m_history l)) = length (butlast (m_last_processed_block_hashes s))"
    using assms(2) by (simp_all add: in_step_def butlast_Nil_iff)
  have "storage_view (unroll_storage s) = storage_view (remove_last_processed_block s)"
    by simp
  then show ?thesis
    using remove_last_processed_block_fields [OF cnt] remove_latest_block_view [OF depth] assms(2) nil len
    by (cases "butlast (m_last_processed_block_hashes s) = []")
      (simp_all add: in_step_def storage_view_def bbl_view_def del: storage_view_unroll length_butlast)
qed

lemma scanned_last_hash:
  assumes "scanned ops bc s" and "has_last_processed_block s"
  shows "get_last_processed_block_hash s = Inr (chain_id bc (unat (m_last_processed_block_index s)))"
proof -
  let ?n = "unat (m_last_processed_block_index s)"
  have inv: "storage_inv s" and hs: "m_last_processed_block_hashes s =
      map (chain_id bc) [Suc ?n - length (m_last_processed_block_hashes s)..<Suc ?n]"
    using assms(1) by (simp_all add: scanned_def)
  have ne: "m_last_processed_block_hashes s \<noteq> []"
    using storage_inv_nonempty [OF inv] assms(2) by simp
  then have le: "Suc ?n - length (m_last_processed_block_hashes s) \<le> ?n"
    by (cases "m_last_processed_block_hashes s") simp_all
  have "last (m_last_processed_block_hashes s) = chain_id bc ?n"
    using le by (subst hs) simp
  with ne show ?thesis
    by (simp add: get_last_processed_block_hash_def)
qed

lemma scanned_empty:
  assumes "scanned ops bc s" and "\<not> has_last_processed_block s"
  shows "scanned ops bc' s"
proof -
  have inv: "storage_inv s"
    using assms(1) by (simp add: scanned_def)
  then have "m_last_processed_block_hashes s = []" "m_stake_txs s = []"
    "m_last_processed_block_index s = m_first_block_number s"
    using assms(2) storage_inv_nonempty [OF inv] by (simp_all add: storage_inv_def)
  with inv show ?thesis
    by (simp add: scanned_def)
qed

lemma scanned_same_history:
  assumes sc: "scanned ops bc s" and same: "same_history bc bc'"
    and idx: "m_last_processed_block_index s < bc_height bc'"
    and eq: "chain_id bc (unat (m_last_processed_block_index s)) = chain_id bc' (unat (m_last_processed_block_index s))"
  shows "scanned ops bc' s"
proof -
  let ?n = "unat (m_last_processed_block_index s)"
  have sb: "same_block bc bc' j" if "j \<le> ?n" for j
    using same idx eq that by (auto simp: same_history_def word_less_nat_alt)
  then have ids: "map (chain_id bc) [i..<Suc ?n] = map (chain_id bc') [i..<Suc ?n]" for i
    by (simp add: same_block_def del: upt_Suc)
  have txs: "map (block_stake_txs ops bc) [i..<Suc ?n] = map (block_stake_txs ops bc') [i..<Suc ?n]" for i
    using sb same block_stake_txs_same by (auto simp: same_history_def simp del: upt_Suc)
  show ?thesis
    using sc unfolding scanned_def ids txs .
qed

lemma unroll_blocks_ok:
  assumes "scanned ops bc0 s" and "in_step s l" and "same_history bc0 bc" and "height = bc_height bc"
    and "m_first_block_number s < height"
  shows "\<exists>s' l'. unroll_blocks bc height s l = (None, s', l') \<and> scanned ops bc s' \<and> in_step s' l' \<and>
    m_last_processed_block_index s' < height \<and> m_first_block_number s' = m_first_block_number s"
  using assms
proof (induction bc height s l rule: unroll_blocks.induct)
  case (1 bc height s l)
  have inv: "storage_inv s" using "1.prems"(1) by (simp add: scanned_def)
  show ?case
  proof (cases "has_last_processed_block s")
    case False
    then have "m_last_processed_block_index s = m_first_block_number s"
      using inv storage_inv_nonempty [OF inv] by (simp add: storage_inv_def)
    with False show ?thesis
      using scanned_empty [OF "1.prems"(1) False] "1.prems"(2,5) by (subst unroll_blocks.simps) simp
  next
    case True
    note hash = scanned_last_hash [OF "1.prems"(1) True]
    define stop where "stop \<longleftrightarrow> m_last_processed_block_index s < height \<and>
      chain_id bc0 (unat (m_last_processed_block_index s)) = chain_id bc (unat (m_last_processed_block_index s))"
    have keeps: "keeps_last_block bc height s = Inr stop"
      by (simp add: keeps_last_block_def hash stop_def chain_id_def)
    show ?thesis
    proof (cases stop)
      case stop: True
      then have "scanned ops bc s"
        using scanned_same_history [OF "1.prems"(1,3)] "1.prems"(4) by (simp add: stop_def)
      with stop show ?thesis
        using True keeps "1.prems"(2) stop_def by (subst unroll_blocks.simps) simp
    next
      case go: False
      have step: "m_block_height l = m_last_processed_block_index s"
        using "1.prems"(2) by (simp add: in_step_def)
      have first: "m_first_block_number (unroll_storage s) = m_first_block_number s"
        by (auto simp: unroll_storage_def remove_last_processed_block_def clear_supernode_stakes_def Let_def)
      have "unroll_blocks bc height s l = unroll_blocks bc height (unroll_storage s) (remove_latest_block l)"
        using True keeps go step by (subst unroll_blocks.simps) simp
      moreover have "\<exists>s' l'. unroll_blocks bc height (unroll_storage s) (remove_latest_block l) = (None, s', l') \<and>
        scanned ops bc s' \<and> in_step s' l' \<and> m_last_processed_block_index s' < height \<and>
        m_first_block_number s' = m_first_block_number (unroll_storage s)"
        using "1.IH" [of stop] True keeps go step scanned_unroll [OF "1.prems"(1) True]
          in_step_unroll [OF inv "1.prems"(2) True] "1.prems"(3,4,5) first by simp
      ultimately show ?thesis
        by (simp add: first)
    qed
  qed
qed

section \<open>Applying blocks\<close>

lemma window_snoc:
  assumes "xs = map f [Suc n - length xs..<Suc n]"
  shows "xs @ [f (Suc n)] = map f [Suc (Suc n) - length (xs @ [f (Suc n)])..<Suc (Suc n)]"
proof -
  have "[Suc (Suc n) - length (xs @ [f (Suc n)])..<Suc (Suc n)] = [Suc n - length xs..<Suc n] @ [Suc n]"
    by (subst upt_Suc) simp
  with assms show ?thesis
    by (simp only: map_append list.map)
qed

lemma window_tl:
  assumes "xs = map f [m - length xs..<m]" and "xs \<noteq> []"
  shows "tl xs = map f [m - length (tl xs)..<m]"
proof -
  have "length xs \<le> m"
    using arg_cong [OF assms(1), of length] by simp
  with assms(2) have "Suc (m - length xs) = m - length (tl xs)"
    by (cases xs) simp_all
  then show ?thesis
    using arg_cong [OF assms(1), of tl] by (simp add: map_tl [symmetric] tl_upt)
qed

lemma scanned_push:
  assumes sc: "scanned ops bc s" and last: "m_last_processed_block_index s \<noteq> - 1"
    and push: "storage_push (chain_id bc (Suc (unat (m_last_processed_block_index s))),
      block_stake_txs ops bc (Suc (unat (m_last_processed_block_index s)))) s = Inr t"
  shows "scanned ops bc t"
proof -
  let ?n = "unat (m_last_processed_block_index s)" and ?hs = "m_last_processed_block_hashes s"
  have inv: "storage_inv s" and hs: "?hs = map (chain_id bc) [Suc ?n - length ?hs..<Suc ?n]"
    and txs: "m_stake_txs s = concat (map (block_stake_txs ops bc) [Suc (unat (m_first_block_number s))..<Suc ?n])"
    using sc by (simp_all add: scanned_def)
  note t = add_last_processed_block_fields [OF push [unfolded storage_push_def prod.case], simplified]
  have inc: "unat (m_last_processed_block_index s + 1) = Suc ?n"
    using unat_inc [OF last] by simp
  have "storage_fits (chain_id bc (Suc ?n), block_stake_txs ops bc (Suc ?n)) s"
    using last block_stake_txs_heights [of _ ops bc "Suc ?n"] by (simp add: storage_fits_def add.commute)
  then have inv': "storage_inv t"
    using storage_inv_push [OF inv _ push] by simp
  have first: "unat (m_first_block_number s) \<le> ?n" and len: "length ?hs \<le> ?n" "length ?hs \<le> 1000"
    using inv by (simp_all add: storage_inv_def)
  have "m_last_processed_block_hashes t =
      map (chain_id bc) [Suc (Suc ?n) - length (m_last_processed_block_hashes t)..<Suc (Suc ?n)]"
    using window_snoc [OF hs] window_tl [OF window_snoc [OF hs]] unfolding t(4) by (simp del: upt_Suc)
  moreover have "m_stake_txs t = concat (map (block_stake_txs ops bc) [Suc (unat (m_first_block_number s))..<Suc (Suc ?n)])"
    using first by (simp add: t(2) txs)
  ultimately show ?thesis
    using inv' by (simp add: scanned_def t(1,3) inc del: upt_Suc)
qed

lemma add_last_processed_block_next:
  assumes "storage_view u = storage_view v" and "m_last_processed_block_index v + 1 = i"
  shows "\<exists>t t'. add_last_processed_block i h u = Inr t \<and> add_last_processed_block i h v = Inr t' \<and>
    storage_view t = storage_view t'"
  using assms by (auto simp: add_last_processed_block_def storage_view_def Let_def)

lemma add_last_processed_block_scanned:
  assumes sc: "scanned ops bc s" and last: "m_last_processed_block_index s \<noteq> - 1"
    and i: "i = m_last_processed_block_index s + 1"
    and u: "storage_view u = storage_view (fold add_tx (block_stake_txs ops bc (unat i)) s)"
  shows "\<exists>t. add_last_processed_block i (bc_block_id_by_height bc i) u = Inr t \<and> scanned ops bc t \<and>
    m_last_processed_block_index t = i \<and> m_first_block_number t = m_first_block_number s \<and>
    length (m_last_processed_block_hashes t) =
      (if m_last_processed_block_hashes_count s < BLOCK_HASHES_HISTORY_DEPTH
       then Suc (length (m_last_processed_block_hashes s)) else length (m_last_processed_block_hashes s)) \<and>
    m_last_processed_block_hashes_count t =
      (if m_last_processed_block_hashes_count s < BLOCK_HASHES_HISTORY_DEPTH
       then m_last_processed_block_hashes_count s + 1 else m_last_processed_block_hashes_count s)"
proof -
  have n: "unat i = Suc (unat (m_last_processed_block_index s))"
    using unat_inc [OF last] i by simp
  have h: "bc_block_id_by_height bc i = chain_id bc (unat i)"
    by (simp add: chain_id_def)
  obtain t t' where t: "add_last_processed_block i (chain_id bc (unat i)) u = Inr t"
      "add_last_processed_block i (chain_id bc (unat i)) (fold add_tx (block_stake_txs ops bc (unat i)) s) = Inr t'"
      "storage_view t = storage_view t'"
    using add_last_processed_block_next [OF u, of i "chain_id bc (unat i)"] i by auto
  then have push: "storage_push (chain_id bc (unat i), block_stake_txs ops bc (unat i)) s = Inr t'"
    by (simp add: storage_push_def i)
  have "scanned ops bc t'"
    using scanned_push [OF sc last] push n by simp
  moreover note add_last_processed_block_fields [OF t(2), simplified]
  ultimately show ?thesis
    unfolding h using t scanned_cong [OF t(3)] i by (intro exI [of _ t]) (auto simp: storage_view_def)
qed

lemma apply_block_shape:
  assumes "i = m_block_height l + 1" and "m_block_height l \<noteq> - 1"
  shows "\<exists>s' l'. apply_block i h s l = Inr (s', l') \<and> storage_view s' = storage_view s \<and>
    m_block_height l' = i \<and> bbl_first_block_number l' = bbl_first_block_number l \<and>
    length (m_history l') = (if m_history_depth l < BLOCKCHAIN_BASED_LISTS_HISTORY_DEPTH
      then Suc (length (m_history l)) else length (m_history l)) \<and>
    m_history_depth l' = (if m_history_depth l < BLOCKCHAIN_BASED_LISTS_HISTORY_DEPTH
      then m_history_depth l + 1 else m_history_depth l)"
proof -
  have "\<not> i \<le> m_block_height l"
    using less_inc [OF assms(2)] assms(1) by (simp add: not_le)
  moreover have "get_supernode_stakes i s = (fst (get_supernode_stakes i s), update_supernode_stakes i s)"
    using snd_stakes_ops(1) [of i s] by (metis prod.collapse)
  ultimately show ?thesis
    using assms(1) by (auto simp: apply_block_def Let_def split: prod.splits)
qed

lemma depths_equal: "BLOCKCHAIN_BASED_LISTS_HISTORY_DEPTH = BLOCK_HASHES_HISTORY_DEPTH"
  by (simp add: config_defs)

lemma process_list_ok:
  assumes "scanned ops bc t" and "in_step s l" and "m_last_processed_block_index s \<noteq> - 1"
    and "i = m_last_processed_block_index s + 1" and "m_last_processed_block_index t = i"
    and "m_first_block_number t = m_first_block_number s"
    and "length (m_last_processed_block_hashes t) =
      (if m_last_processed_block_hashes_count s < BLOCK_HASHES_HISTORY_DEPTH
       then Suc (length (m_last_processed_block_hashes s)) else length (m_last_processed_block_hashes s))"
    and "m_last_processed_block_hashes_count t =
      (if m_last_processed_block_hashes_count s < BLOCK_HASHES_HISTORY_DEPTH
       then m_last_processed_block_hashes_count s + 1 else m_last_processed_block_hashes_count s)"
  shows "\<exists>p' t' l'. process_block_blockchain_based_list i h False t l p = (None, p') \<and>
    m_storage p' = Some t' \<and> m_blockchain_based_list p' = Some l' \<and> scanned ops bc t' \<and> in_step t' l' \<and>
    m_last_processed_block_index t' = i \<and> m_first_block_number t' = m_first_block_number s"
proof -
  have l: "i = m_block_height l + 1" "m_block_height l \<noteq> - 1"
    using assms by (simp_all add: in_step_def)
  obtain t' l' where ap: "apply_block i h t l = Inr (t', l')" and v: "storage_view t' = storage_view t"
    and l': "m_block_height l' = i" "bbl_first_block_number l' = bbl_first_block_number l"
      "length (m_history l') = (if m_history_depth l < BLOCKCHAIN_BASED_LISTS_HISTORY_DEPTH
        then Suc (length (m_history l)) else length (m_history l))"
      "m_history_depth l' = (if m_history_depth l < BLOCKCHAIN_BASED_LISTS_HISTORY_DEPTH
        then m_history_depth l + 1 else m_history_depth l)"
    using apply_block_shape [OF l, of h t] by blast
  have t': "m_last_processed_block_index t' = m_last_processed_block_index t"
    "m_last_processed_block_hashes t' = m_last_processed_block_hashes t"
    "m_last_processed_block_hashes_count t' = m_last_processed_block_hashes_count t"
    "m_first_block_number t' = m_first_block_number t"
    using v by (simp_all add: storage_view_def)
  have "in_step t' l'"
    using assms(2,5-8) l' by (simp add: in_step_def t' depths_equal)
  moreover have "scanned ops bc t'"
    using scanned_cong [OF v] assms(1) by simp
  ultimately show ?thesis
    using ap t' assms(5,6) by (simp add: process_block_blockchain_based_list_def Let_def)
qed

lemma chain_ok_block:
  assumes "chain_ok ops bc" and "i < bc_height bc"
  shows "\<exists>b txs missed_txs. bc_block_by_hash bc (bc_block_id_by_height bc i) = Some b \<and>
    bc_transactions bc (tx_hashes b) = Some (txs, missed_txs) \<and>
    (\<forall>tx \<in> set txs. \<exists>r. find_stake_tx ops bc i tx = Inr r)"
proof -
  have "\<forall>i < unat (bc_height bc). \<exists>b txs missed_txs.
        bc_block_by_hash bc (chain_id bc i) = Some b \<and>
        bc_transactions bc (tx_hashes b) = Some (txs, missed_txs) \<and>
        (\<forall>tx \<in> set txs. \<exists>r. find_stake_tx ops bc (of_nat i) tx = Inr r)"
    using assms(1) unfolding chain_ok_def by blast
  from this [rule_format, of "unat i"] show ?thesis
    using assms(2) by (simp add: word_less_nat_alt chain_id_def)
qed

lemma process_block_ok:
  assumes ok: "chain_ok ops bc" and p: "m_storage p = Some s" "m_blockchain_based_list p = Some l"
    and sc: "scanned ops bc s" and step: "in_step s l"
    and i: "i = m_last_processed_block_index s + 1" "i < bc_height bc" "m_last_processed_block_index s \<noteq> - 1"
    and b: "bc_block_by_hash bc (bc_block_id_by_height bc i) = Some b"
  shows "\<exists>p' s' l'. process_block ops bc i b (bc_block_id_by_height bc i) False p = (None, p') \<and>
    m_storage p' = Some s' \<and> m_blockchain_based_list p' = Some l' \<and> scanned ops bc s' \<and> in_step s' l' \<and>
    m_last_processed_block_index s' = i \<and> m_first_block_number s' = m_first_block_number s"
proof -
  have gt: "\<not> i \<le> m_last_processed_block_index s"
    using less_inc [OF i(3)] i(1) by (simp add: not_le)
  have h: "bc_block_id_by_height bc i = chain_id bc (unat i)"
    by (simp add: chain_id_def)
  obtain txs missed where txs: "bc_transactions bc (tx_hashes b) = Some (txs, missed)"
      "\<forall>tx \<in> set txs. \<exists>r. find_stake_tx ops bc i tx = Inr r"
    using chain_ok_block [OF ok i(2)] b by auto
  define u where "u = (if STAKE_TRANSACTION_PROCESSING_DB_VERSION \<le> bc_hard_fork_version bc i
    then update_supernode_stakes i (fold add_tx (stake_txs_of ops bc i txs) s) else s)"
  define q where "q = (if STAKE_TRANSACTION_PROCESSING_DB_VERSION \<le> bc_hard_fork_version bc i
    then p\<lparr>m_stakes_need_update := True\<rparr> else p)"
  have "block_stake_txs ops bc (unat i) =
    (if STAKE_TRANSACTION_PROCESSING_DB_VERSION \<le> bc_hard_fork_version bc i then stake_txs_of ops bc i txs else [])"
    using b txs(1) by (simp add: block_stake_txs_def flip: h)
  then have "storage_view u = storage_view (fold add_tx (block_stake_txs ops bc (unat i)) s)"
    by (simp add: u_def)
  from add_last_processed_block_scanned [OF sc i(3,1) this]
  obtain t where t: "add_last_processed_block i (bc_block_id_by_height bc i) u = Inr t" and props: "scanned ops bc t"
    "m_last_processed_block_index t = i" "m_first_block_number t = m_first_block_number s"
    "length (m_last_processed_block_hashes t) =
      (if m_last_processed_block_hashes_count s < BLOCK_HASHES_HISTORY_DEPTH
       then Suc (length (m_last_processed_block_hashes s)) else length (m_last_processed_block_hashes s))"
    "m_last_processed_block_hashes_count t =
      (if m_last_processed_block_hashes_count s < BLOCK_HASHES_HISTORY_DEPTH
       then m_last_processed_block_hashes_count s + 1 else m_last_processed_block_hashes_count s)"
    by blast
  have stx: "process_block_stake_transaction ops bc i b (bc_block_id_by_height bc i) False s p =
      (None, q\<lparr>m_storage := Some t\<rparr>)"
    using gt txs(1) t add_stake_txs_fold [OF txs(2), of s]
    by (simp add: process_block_stake_transaction_def finish_block_def u_def q_def Let_def split: if_splits)
  have "m_blockchain_based_list q = Some l"
    using p(2) by (simp add: q_def)
  then show ?thesis
    using process_list_ok [OF props(1) step i(3,1) props(2-5), of "bc_block_id_by_height bc i" "q\<lparr>m_storage := Some t\<rparr>"] p(1) stx
    by (simp add: process_block_def)
qed

lemma apply_blocks_ok:
  assumes "chain_ok ops bc" and "m_storage p = Some s" and "m_blockchain_based_list p = Some l"
    and "scanned ops bc s" and "in_step s l" and "m_last_processed_block_index s \<noteq> - 1"
    and "i = m_last_processed_block_index s + 1" and "i \<le> n" and "n \<le> bc_height bc"
  shows "\<exists>p' s' l'. apply_blocks ops bc n i p = (None, n, p') \<and>
    m_storage p' = Some s' \<and> m_blockchain_based_list p' = Some l' \<and> scanned ops bc s' \<and> in_step s' l' \<and>
    m_last_processed_block_index s' = n - 1 \<and> m_first_block_number s' = m_first_block_number s"
  using assms
proof (induction ops bc n i p arbitrary: s l rule: apply_blocks.induct)
  case (1 ops bc n i p)
  show ?case
  proof (cases "i < n")
    case False
    then have "i = n" using "1.prems"(8) by simp
    with False show ?thesis
      using "1.prems" by (subst apply_blocks.simps) auto
  next
    case True
    then have lt: "i < bc_height bc" using "1.prems"(9) by simp
    then obtain b where b: "bc_block_by_hash bc (bc_block_id_by_height bc i) = Some b"
      using chain_ok_block [OF "1.prems"(1)] by blast
    from process_block_ok [OF "1.prems"(1-5,7) lt "1.prems"(6) b]
    obtain p' s' l' where p': "process_block ops bc i b (bc_block_id_by_height bc i) False p = (None, p')"
      "m_storage p' = Some s'" "m_blockchain_based_list p' = Some l'" "scanned ops bc s'" "in_step s' l'"
      "m_last_processed_block_index s' = i" "m_first_block_number s' = m_first_block_number s"
      by blast
    have "i \<noteq> - 1" using True word_order.extremum_strict [of n] by auto
    moreover have "i + 1 \<le> n" using True unat_less_inc [OF True] by (simp add: word_le_nat_alt word_less_nat_alt)
    moreover have "apply_blocks ops bc n i p = apply_blocks ops bc n (i + 1) p'"
      using True b p'(1) by (subst apply_blocks.simps) simp
    ultimately show ?thesis
      using "1.IH" [OF True refl b p'(1) [symmetric] refl "1.prems"(1) p'(2-5)] p'(6,7) "1.prems"(9) by simp
  qed
qed

section \<open>What does not change the state of the components\<close>

text \<open>The part of the processor the invariant is about: neither flags, nor caches, nor files.\<close>

definition processor_view :: "stake_processor \<Rightarrow> (u64 \<times> hash list \<times> u64 \<times> stake_transaction list \<times> u64) option \<times> (list_history \<times> u64 \<times> u64 \<times> u64) option" where
  "processor_view p = (map_option storage_view (m_storage p), map_option bbl_view (m_blockchain_based_list p))"

definition processed_index :: "stake_processor \<Rightarrow> nat" where
  "processed_index p = (case m_storage p of None \<Rightarrow> 0 | Some s \<Rightarrow> unat (m_last_processed_block_index s))"

definition first_index :: "stake_processor \<Rightarrow> nat" where
  "first_index p = (case m_storage p of None \<Rightarrow> 0 | Some s \<Rightarrow> unat (m_first_block_number s))"

lemma in_step_cong:
  "storage_view s = storage_view s' \<Longrightarrow> bbl_view l = bbl_view l' \<Longrightarrow> in_step s l = in_step s' l'"
  by (simp add: in_step_def storage_view_def bbl_view_def)

lemma processor_view_cong:
  assumes "processor_view p = processor_view p'"
  shows "processor_ok ops bc p = processor_ok ops bc p'"
    and "processed_index p = processed_index p'" and "first_index p = first_index p'"
proof -
  have views: "map_option storage_view (m_storage p) = map_option storage_view (m_storage p')"
    "map_option bbl_view (m_blockchain_based_list p) = map_option bbl_view (m_blockchain_based_list p')"
    using assms by (simp_all add: processor_view_def)
  have "processor_ok ops bc q'" if v: "processor_view q = processor_view q'" and o: "processor_ok ops bc q" for q q'
  proof -
    obtain s l where q: "m_storage q = Some s" "m_blockchain_based_list q = Some l" "scanned ops bc s" "in_step s l"
      using o by (auto simp: processor_ok_def)
    then obtain s' l' where q': "m_storage q' = Some s'" "m_blockchain_based_list q' = Some l'"
        "storage_view s = storage_view s'" "bbl_view l = bbl_view l'"
      using v by (cases "m_storage q'"; cases "m_blockchain_based_list q'") (auto simp: processor_view_def)
    show ?thesis
      using q q' scanned_cong [OF q'(3)] in_step_cong [OF q'(3,4)] by (simp add: processor_ok_def)
  qed
  from this [OF assms] this [OF assms [symmetric]] show "processor_ok ops bc p = processor_ok ops bc p'" by blast
  show "processed_index p = processed_index p'" "first_index p = first_index p'"
    using views(1) by (auto simp: processed_index_def first_index_def storage_view_def split: option.splits)
qed

lemma store_views:
  "storage_store fs s = Inr (fs', s') \<Longrightarrow> storage_view s' = storage_view s"
  "list_store fs l = Inr (fs', l') \<Longrightarrow> bbl_view l' = bbl_view l"
  by (auto simp: storage_store_def list_store_def storage_view_def bbl_view_def split: if_splits option.splits)

lemma processor_view_store_storage:
  "m_storage p = Some s \<Longrightarrow> processor_view (snd (store_storage s p)) = processor_view p"
  by (auto simp: store_storage_def processor_view_def dest: store_views split: sum.splits)

lemma processor_view_store_list:
  "m_blockchain_based_list p = Some l \<Longrightarrow> processor_view (snd (store_list l p)) = processor_view p"
  "m_storage (snd (store_list l p)) = m_storage p"
  by (auto simp: store_list_def processor_view_def dest: store_views split: sum.splits)

lemma processor_view_store_changes: "processor_view (snd (store_changes p)) = processor_view p"
proof (cases "m_storage p"; cases "m_blockchain_based_list p")
  fix s l
  assume p: "m_storage p = Some s" "m_blockchain_based_list p = Some l"
  obtain e q where q: "(if bbl_need_store l then store_list l p else (None, p)) = (e, q)"
    by fastforce
  then have "processor_view q = processor_view p" "m_storage q = Some s"
    using processor_view_store_list(1) [of p l] processor_view_store_list(2) [of l p] p by (auto split: if_splits)
  then show ?thesis
    using p q processor_view_store_storage [of q s] by (cases e) (simp_all add: store_changes_def)
qed (simp_all add: store_changes_def)

lemma processor_view_stakes_handler: "processor_view (invoke_update_stakes_handler_impl i p) = processor_view p"
proof (cases "m_storage p"; cases "m_on_stakes_update p")
  fix s handler
  assume p: "m_storage p = Some s" "m_on_stakes_update p = Some handler"
  obtain stakes where "get_supernode_stakes i s = (stakes, update_supernode_stakes i s)"
    using snd_stakes_ops(1) [of i s] by (metis prod.collapse)
  with p show ?thesis
    by (simp add: invoke_update_stakes_handler_impl_def processor_view_def Let_def)
qed (simp_all add: invoke_update_stakes_handler_impl_def)

lemma invoke_list_handler_components [simp]:
  "m_storage (invoke_list_handler handler height l is p) = m_storage p"
  "m_blockchain_based_list (invoke_list_handler handler height l is p) = m_blockchain_based_list p"
  by (induction handler height l "is" p rule: invoke_list_handler.induct) (auto split: sum.split)

lemma processor_view_list_handler:
  "processor_view (invoke_update_blockchain_based_list_handler_impl d p) = processor_view p"
  by (auto simp: invoke_update_blockchain_based_list_handler_impl_def processor_view_def Let_def split: option.split)

lemma processor_view_call_handlers: "processor_view (call_handlers i j p) = processor_view p"
  by (simp add: call_handlers_def Let_def processor_view_stakes_handler processor_view_list_handler)

lemma processor_view_find: "processor_view (snd (processor_find_supernode_stake n pid p)) = processor_view p"
proof (cases "m_storage p")
  case (Some s)
  obtain stake where "find_supernode_stake n pid s = (stake, update_supernode_stakes n s)"
    using snd_stakes_ops(2) [of n pid s] by (metis prod.collapse)
  with Some show ?thesis
    by (simp add: processor_find_supernode_stake_def processor_view_def)
qed (simp add: processor_find_supernode_stake_def)

lemmas processor_view_ops = processor_view_stakes_handler processor_view_list_handler processor_view_find

section \<open>Synchronizing\<close>

lemma unroll_blocks_same:
  assumes "scanned ops bc s" and "m_last_processed_block_index s < height"
  shows "unroll_blocks bc height s l = (None, s, l)"
  using assms scanned_last_hash [OF assms(1)]
  by (subst unroll_blocks.simps) (auto simp: keeps_last_block_def chain_id_def)

lemma last_block_index_for_sync_min:
  assumes "first \<le> height"
  shows "unat (last_block_index_for_sync height first) = min (unat height) (unat first + 10000)"
proof -
  have diff: "unat (height - first) = unat height - unat first"
    using assms by (rule unat_sub)
  have "unat height < 2 ^ 64"
    using unsigned_less [of height, where ?'a = nat] by simp
  moreover have "MAX_ITERATIONS_COUNT < height - first \<longleftrightarrow> 10000 < unat height - unat first"
    by (simp add: word_less_nat_alt diff MAX_ITERATIONS_COUNT_def)
  ultimately show ?thesis
    using assms by (auto simp: last_block_index_for_sync_def MAX_ITERATIONS_COUNT_def unat_word_ariths word_le_nat_alt)
qed

lemma synchronize_blocks_ok:
  assumes ok: "processor_ok ops bc0 p" and same: "same_history bc0 bc" and chain: "chain_ok ops bc"
    and first: "first_index p < unat (bc_height bc)"
  shows "\<exists>u. first_index p \<le> u \<and> u < unat (bc_height bc) \<and>
    (bc0 = bc \<longrightarrow> processed_index p < unat (bc_height bc) \<longrightarrow> u = processed_index p) \<and>
    processor_ok ops bc (snd (synchronize_blocks ops bc (bc_height bc) p)) \<and>
    first_index (snd (synchronize_blocks ops bc (bc_height bc) p)) = first_index p \<and>
    Suc (processed_index (snd (synchronize_blocks ops bc (bc_height bc) p))) = min (unat (bc_height bc)) (Suc u + 10000)"
proof -
  let ?h = "bc_height bc"
  obtain s l where p: "m_storage p = Some s" "m_blockchain_based_list p = Some l" "scanned ops bc0 s" "in_step s l"
    using ok by (auto simp: processor_ok_def)
  have f: "m_first_block_number s < ?h"
    using first p(1) by (simp add: first_index_def word_less_nat_alt)
  obtain s1 l1 where un: "unroll_blocks bc ?h s l = (None, s1, l1)" and s1: "scanned ops bc s1" "in_step s1 l1"
      "m_last_processed_block_index s1 < ?h" "m_first_block_number s1 = m_first_block_number s"
    using unroll_blocks_ok [OF p(3,4) same refl f] by blast
  define q where "q = p\<lparr>m_storage := Some s1, m_blockchain_based_list := Some l1\<rparr>"
  define i where "i = m_last_processed_block_index s1 + 1"
  have ne: "m_last_processed_block_index s1 \<noteq> - 1"
    using s1(3) word_order.extremum_strict [of ?h] by auto
  have unat_i: "unat i = Suc (unat (m_last_processed_block_index s1))"
    using unat_inc [OF ne] by (simp add: i_def)
  have fi: "first_block_index_for_sync s1 l1 = i"
    using s1(2) by (simp add: first_block_index_for_sync_def in_step_def i_def)
  have le: "i \<le> ?h"
    using s1(3) unat_i by (simp add: word_le_nat_alt word_less_nat_alt)
  note n = last_block_index_for_sync_min [OF le]
  have nle: "i \<le> last_block_index_for_sync ?h i" "last_block_index_for_sync ?h i \<le> ?h"
    using n le by (simp_all add: word_le_nat_alt)
  have q: "m_storage q = Some s1" "m_blockchain_based_list q = Some l1"
    by (simp_all add: q_def)
  obtain p' s' l' where ap: "apply_blocks ops bc (last_block_index_for_sync ?h i) i q =
      (None, last_block_index_for_sync ?h i, p')"
    and p': "m_storage p' = Some s'" "m_blockchain_based_list p' = Some l'" "scanned ops bc s'" "in_step s' l'"
      "m_last_processed_block_index s' = last_block_index_for_sync ?h i - 1"
      "m_first_block_number s' = m_first_block_number s1"
    using apply_blocks_ok [OF chain q s1(1,2) ne i_def nle] by blast
  have "processor_view (snd (synchronize_blocks ops bc ?h p)) = processor_view p'"
    using p(1,2) un ap fi processor_view_store_changes [of p']
    by (cases "store_changes p'"; cases "fst (store_changes p')")
      (auto simp: synchronize_blocks_def processor_view_call_handlers simp flip: q_def)
  note v = processor_view_cong [OF this]
  have "last_block_index_for_sync ?h i \<noteq> 0"
    using nle(1) unat_i by (auto simp: word_le_nat_alt)
  then have "Suc (processed_index p') = unat (last_block_index_for_sync ?h i)"
    using unat_dec_pos [of "last_block_index_for_sync ?h i"] p'(1,5) by (simp add: processed_index_def unat_gt_0)
  moreover have "processor_ok ops bc p'"
    using p' by (auto simp: processor_ok_def)
  moreover have "first_index p' = first_index p"
    using p' s1(4) p(1) by (simp add: first_index_def)
  moreover have "unat (m_first_block_number s) \<le> unat (m_last_processed_block_index s1)"
    using s1(1,4) by (auto simp: scanned_def storage_inv_def)
  moreover have "s1 = s" if "bc0 = bc" "processed_index p < unat ?h"
    using that unroll_blocks_same [of ops bc s ?h l] p un by (simp add: processed_index_def word_less_nat_alt)
  ultimately show ?thesis
    using v n s1(3) unat_i p(1)
    by (intro exI [of _ "unat (m_last_processed_block_index s1)"])
      (auto simp: first_index_def processed_index_def word_less_nat_alt)
qed

section \<open>Reachable states\<close>

text \<open>
  The states a processor reaches from a start without files, each with the view of the chain it
  was synchronized with last. Between two synchronizations the chain may grow or be
  reorganised; clients may query stakes, set handlers and have them called.
\<close>

definition storage_file :: "stake_processor \<Rightarrow> string" where
  "storage_file p = m_config_dir p @ ''/'' @ STAKE_TRANSACTION_STORAGE_FILE_NAME"

definition list_file :: "stake_processor \<Rightarrow> string" where
  "list_file p = m_config_dir p @ ''/'' @ BLOCKCHAIN_BASED_LIST_FILE_NAME"

inductive processor_reach :: "crypto_ops \<Rightarrow> blockchain_view \<Rightarrow> stake_processor \<Rightarrow> bool" for ops where
  start: "init_storages config_dir (new_stake_processor fs) = (None, p) \<Longrightarrow>
     fs_files fs (storage_file p) = None \<Longrightarrow> fs_files fs (list_file p) = None \<Longrightarrow> processor_reach ops bc p"
| sync: "processor_reach ops bc p \<Longrightarrow> same_history bc bc' \<Longrightarrow> chain_ok ops bc' \<Longrightarrow>
     synchronize ops bc' rng p = (e, p') \<Longrightarrow> processor_reach ops bc' p'"
| idle: "processor_reach ops bc p \<Longrightarrow>
     bc_height bc' = 0 \<or> bc_hard_fork_version bc' (bc_height bc' - 1) < STAKE_TRANSACTION_PROCESSING_DB_VERSION \<Longrightarrow>
     synchronize ops bc' rng p = (e, p') \<Longrightarrow> processor_reach ops bc p'"
| find_stake: "processor_reach ops bc p \<Longrightarrow> processor_find_supernode_stake n pid p = (stake, p') \<Longrightarrow> processor_reach ops bc p'"
| set_stakes_handler: "processor_reach ops bc p \<Longrightarrow> processor_reach ops bc (set_on_update_stakes_handler handler p)"
| set_list_handler: "processor_reach ops bc p \<Longrightarrow> processor_reach ops bc (set_on_update_blockchain_based_list_handler handler' p)"
| call_stakes_handler: "processor_reach ops bc p \<Longrightarrow> processor_reach ops bc (invoke_update_stakes_handler bc' force p)"
| call_list_handler: "processor_reach ops bc p \<Longrightarrow> processor_reach ops bc (invoke_update_blockchain_based_list_handler force depth p)"

text \<open>The block before the first one to process, as \<open>init_storages_impl\<close> computes it.\<close>

definition start_index :: "blockchain_view \<Rightarrow> nat" where
  "start_index bc = unat (bc_earliest_ideal_height bc STAKE_TRANSACTION_PROCESSING_DB_VERSION) - 1"

definition processor_inv :: "crypto_ops \<Rightarrow> blockchain_view \<Rightarrow> stake_processor \<Rightarrow> bool" where
  "processor_inv ops bc p \<longleftrightarrow>
     (if m_storage p = None
      then m_blockchain_based_list p = None \<and> m_enabled p \<and>
        fs_files (sp_fs p) (storage_file p) = None \<and> fs_files (sp_fs p) (list_file p) = None
      else processor_ok ops bc p \<and> first_index p = start_index bc)"

lemma same_history_start: "same_history bc bc' \<Longrightarrow> start_index bc = start_index bc'"
  by (simp add: same_history_def start_index_def)

lemma chain_ok_start:
  assumes "chain_ok ops bc"
  shows "start_index bc < unat (bc_height bc)"
proof -
  have "unat (bc_height bc) \<noteq> 0" "unat (bc_earliest_ideal_height bc STAKE_TRANSACTION_PROCESSING_DB_VERSION) \<le> unat (bc_height bc)"
    using assms by (simp_all add: chain_ok_def word_le_nat_alt unat_eq_0)
  then show ?thesis
    by (simp add: start_index_def)
qed

lemma scanned_new: "scanned ops bc (new_stake_storage f n)" and in_step_new: "in_step (new_stake_storage f n) (new_blockchain_based_list f' n rng)"
  by (simp_all add: scanned_def storage_inv_def new_stake_storage_def in_step_def new_blockchain_based_list_def)

lemma init_storages_impl_ok:
  assumes "processor_inv ops bc p" and "m_storage p = None"
  shows "\<exists>p'. init_storages_impl bc' rng p = (None, p') \<and> processor_ok ops bc p' \<and> first_index p' = start_index bc' \<and>
    processed_index p' = start_index bc'"
proof -
  let ?e = "bc_earliest_ideal_height bc' STAKE_TRANSACTION_PROCESSING_DB_VERSION"
  let ?n = "if ?e \<noteq> 0 then ?e - 1 else ?e"
  have p: "m_blockchain_based_list p = None" "m_enabled p"
    "fs_files (sp_fs p) (storage_file p) = None" "fs_files (sp_fs p) (list_file p) = None"
    using assms by (simp_all add: processor_inv_def)
  have "unat ?n = start_index bc'"
    using unat_dec_pos [of ?e] by (simp add: start_index_def)
  then show ?thesis
    using p assms(2) scanned_new [of ops bc "storage_file p" ?n] in_step_new [of "storage_file p" ?n "list_file p" rng]
    by (simp add: init_storages_impl_def open_stake_storage_def open_blockchain_based_list_def storage_load_def list_load_def
        processor_ok_def first_index_def processed_index_def storage_file_def list_file_def Let_def
        new_stake_storage_def new_blockchain_based_list_def)
qed

lemma synchronize_ok:
  assumes inv: "processor_inv ops bc0 p" and same: "same_history bc0 bc" and chain: "chain_ok ops bc"
  shows "\<exists>u p'. synchronize ops bc rng p = (None, p') \<and> start_index bc \<le> u \<and> u < unat (bc_height bc) \<and>
    (bc0 = bc \<longrightarrow> m_storage p \<noteq> None \<longrightarrow> processed_index p < unat (bc_height bc) \<longrightarrow> u = processed_index p) \<and>
    processor_ok ops bc p' \<and> first_index p' = start_index bc \<and>
    Suc (processed_index p') = min (unat (bc_height bc)) (Suc u + 10000)"
proof -
  obtain q where q: "(if m_storage p = None \<or> m_blockchain_based_list p = None then init_storages_impl bc rng p else (None, p)) = (None, q)"
    and ok: "processor_ok ops bc0 q" "first_index q = start_index bc" and qp: "m_storage p \<noteq> None \<longrightarrow> q = p"
  proof (cases "m_storage p = None")
    case True
    then show ?thesis using that init_storages_impl_ok [OF inv True, of bc rng] by auto
  next
    case False
    then have "processor_ok ops bc0 p" "first_index p = start_index bc"
      using inv same_history_start [OF same] by (simp_all add: processor_inv_def)
    with False show ?thesis using that by (auto simp: processor_ok_def)
  qed
  have "bc_height bc \<noteq> 0" "\<not> bc_hard_fork_version bc (bc_height bc - 1) < STAKE_TRANSACTION_PROCESSING_DB_VERSION"
    using chain by (simp_all add: chain_ok_def not_less)
  then have "synchronize ops bc rng p = (None, snd (synchronize_blocks ops bc (bc_height bc) q))"
    using q by (simp add: synchronize_def Let_def)
  then show ?thesis
    using synchronize_blocks_ok [OF ok(1) same chain] chain_ok_start [OF chain] ok(2) qp by auto
qed

lemma processor_inv_view:
  assumes "processor_view p' = processor_view p" and "m_enabled p' = m_enabled p" and "sp_fs p' = sp_fs p"
    and "m_config_dir p' = m_config_dir p"
  shows "processor_inv ops bc p' = processor_inv ops bc p"
proof -
  have "(m_storage p' = None) = (m_storage p = None)" "(m_blockchain_based_list p' = None) = (m_blockchain_based_list p = None)"
    using assms(1) by (auto simp: processor_view_def)
  then show ?thesis
    using processor_view_cong [OF assms(1)] assms(2-4) by (simp add: processor_inv_def storage_file_def list_file_def)
qed

lemma stakes_handler_frame [simp]:
  "m_enabled (invoke_update_stakes_handler_impl i p) = m_enabled p"
  "sp_fs (invoke_update_stakes_handler_impl i p) = sp_fs p"
  "m_config_dir (invoke_update_stakes_handler_impl i p) = m_config_dir p"
  by (auto simp: invoke_update_stakes_handler_impl_def Let_def split: option.split prod.split)

lemma invoke_list_handler_frame [simp]:
  "m_enabled (invoke_list_handler handler height l is p) = m_enabled p"
  "sp_fs (invoke_list_handler handler height l is p) = sp_fs p"
  "m_config_dir (invoke_list_handler handler height l is p) = m_config_dir p"
  by (induction handler height l "is" p rule: invoke_list_handler.induct) (auto split: sum.split)

lemma list_handler_frame [simp]:
  "m_enabled (invoke_update_blockchain_based_list_handler_impl d p) = m_enabled p"
  "sp_fs (invoke_update_blockchain_based_list_handler_impl d p) = sp_fs p"
  "m_config_dir (invoke_update_blockchain_based_list_handler_impl d p) = m_config_dir p"
  by (auto simp: invoke_update_blockchain_based_list_handler_impl_def Let_def split: option.split)

lemma find_frame [simp]:
  "m_enabled (snd (processor_find_supernode_stake n pid p)) = m_enabled p"
  "sp_fs (snd (processor_find_supernode_stake n pid p)) = sp_fs p"
  "m_config_dir (snd (processor_find_supernode_stake n pid p)) = m_config_dir p"
  by (auto simp: processor_find_supernode_stake_def Let_def split: option.split prod.split)

lemma reach_inv: "processor_reach ops bc p \<Longrightarrow> processor_inv ops bc p"
proof (induction rule: processor_reach.induct)
  case (start config_dir fs p bc)
  then show ?case
    by (auto simp: init_storages_def new_stake_processor_def processor_inv_def)
next
  case (sync bc p bc' rng e p')
  then obtain u q where "synchronize ops bc' rng p = (None, q)" "processor_ok ops bc' q" "first_index q = start_index bc'"
    using synchronize_ok by blast
  with sync.hyps(4) show ?case
    by (auto simp: processor_inv_def processor_ok_def)
next
  case (idle bc p bc' rng e p')
  then show ?case by (auto simp: synchronize_def Let_def)
next
  case (find_stake bc p n pid stake p')
  have "p' = snd (processor_find_supernode_stake n pid p)" using find_stake by simp
  then show ?case
    using find_stake.IH processor_inv_view [of p' p] processor_view_find by simp
next
  case (set_stakes_handler bc p handler)
  then show ?case
    using processor_inv_view [of "set_on_update_stakes_handler handler p" p]
    by (simp add: set_on_update_stakes_handler_def processor_view_def)
next
  case (set_list_handler bc p handler')
  then show ?case
    using processor_inv_view [of "set_on_update_blockchain_based_list_handler handler' p" p]
    by (simp add: set_on_update_blockchain_based_list_handler_def processor_view_def)
next
  case (call_stakes_handler bc p bc' force)
  then show ?case
    using processor_inv_view [of "invoke_update_stakes_handler_impl (bc_db_height bc' - 1) p" p] processor_view_stakes_handler
    by (simp add: invoke_update_stakes_handler_def)
next
  case (call_list_handler bc p force depth)
  then show ?case
    using processor_inv_view [of "invoke_update_blockchain_based_list_handler_impl depth p" p] processor_view_list_handler
    by (simp add: invoke_update_blockchain_based_list_handler_def Let_def)
qed

section \<open>Repeated synchronization\<close>

lemma same_history_refl: "same_history bc bc"
  by (simp add: same_history_def same_block_def)

definition sync_step :: "crypto_ops \<Rightarrow> blockchain_view \<Rightarrow> mt19937_64 \<Rightarrow> stake_processor \<Rightarrow> stake_processor" where
  "sync_step ops bc rng p = snd (synchronize ops bc rng p)"

lemma sync_rounds:
  assumes inv: "processor_inv ops bc0 p" and same: "same_history bc0 bc" and chain: "chain_ok ops bc"
  shows "let q = (sync_step ops bc rng ^^ Suc k) p
    in processor_ok ops bc q \<and> first_index q = start_index bc \<and> processed_index q < unat (bc_height bc) \<and>
      min (unat (bc_height bc)) (10000 * Suc k) \<le> Suc (processed_index q)"
proof (induction k)
  case 0
  show ?case
    using synchronize_ok [OF inv same chain, of rng] by (auto simp: sync_step_def Let_def)
next
  case (Suc k)
  let ?q = "(sync_step ops bc rng ^^ Suc k) p"
  have q: "processor_ok ops bc ?q" "first_index ?q = start_index bc" "processed_index ?q < unat (bc_height bc)"
    "min (unat (bc_height bc)) (10000 * Suc k) \<le> Suc (processed_index ?q)"
    using Suc.IH by (simp_all add: Let_def)
  then have "m_storage ?q \<noteq> None" "processor_inv ops bc ?q"
    by (auto simp: processor_inv_def processor_ok_def)
  then obtain q' where q': "synchronize ops bc rng ?q = (None, q')" "processor_ok ops bc q'" "first_index q' = start_index bc"
    "Suc (processed_index q') = min (unat (bc_height bc)) (Suc (processed_index ?q) + 10000)"
    using synchronize_ok [OF _ same_history_refl chain, of ?q rng] q(3) by blast
  then have "(sync_step ops bc rng ^^ Suc (Suc k)) p = q'"
    by (simp add: sync_step_def [of ops bc rng "(sync_step ops bc rng ^^ Suc k) p"] del: funpow.simps)
      (simp add: sync_step_def)
  then show ?case
    using q(4) q' by (simp add: Let_def del: funpow.simps) arith
qed

section \<open>Properties\<close>


text \<open>
  C24. The processor catches up: synchronizing again and again with a chain that stays as it is
  reaches its last block, at the latest after one round for every 10000 blocks, and the supernode
  lists reach it as well.
\<close>

theorem synchronize_catches_up:
  assumes "processor_reach ops bc0 p" and "same_history bc0 bc" and "chain_ok ops bc"
    and "unat (bc_height bc) \<le> 10000 * k"
  shows "\<exists>s l. m_storage ((sync_step ops bc rng ^^ k) p) = Some s \<and>
    m_blockchain_based_list ((sync_step ops bc rng ^^ k) p) = Some l \<and>
    m_last_processed_block_index s = bc_height bc - 1 \<and> m_block_height l = bc_height bc - 1"
proof -
  let ?q = "(sync_step ops bc rng ^^ k) p"
  have h: "bc_height bc \<noteq> 0"
    using assms(3) by (simp add: chain_ok_def)
  then have "0 < unat (bc_height bc)"
    by (simp add: unat_gt_0)
  then obtain k' where k: "k = Suc k'"
    using assms(4) by (cases k) auto
  have ok: "processor_ok ops bc ?q" and idx: "processed_index ?q < unat (bc_height bc)"
      "min (unat (bc_height bc)) (10000 * Suc k') \<le> Suc (processed_index ?q)"
    using sync_rounds [OF reach_inv [OF assms(1)] assms(2,3), of k' rng] by (simp_all add: k Let_def)
  then obtain s l where q: "m_storage ?q = Some s" "m_blockchain_based_list ?q = Some l" "in_step s l"
    by (auto simp: processor_ok_def)
  have "unat (m_last_processed_block_index s) = unat (bc_height bc - 1)"
    using idx assms(4) q(1) unat_dec_pos [OF h] by (simp add: processed_index_def k)
  then have "m_last_processed_block_index s = bc_height bc - 1"
    by (simp only: word_unat_eq_iff)
  with q show ?thesis
    by (auto simp: in_step_def)
qed

text \<open>
  C26. A list file that cannot be read disables the processor for good: the first synchronization
  throws the error of the file and leaves the stake storage set without the list; every later
  one throws that the storages are already initialized, and changes nothing.
\<close>

theorem broken_list_file_disables_processor:
  assumes "m_storage p = None" and "m_blockchain_based_list p = None" and "m_enabled p"
    and "bc_height bc \<noteq> 0" and "13 \<le> bc_hard_fork_version bc (bc_height bc - 1)"
    and "fs_files (sp_fs p) (storage_file p) = None"
    and "\<forall>n. open_blockchain_based_list (sp_fs p) (list_file p) n rng = Inl e"
  shows "\<exists>p'. synchronize ops bc rng p = (Some e, p') \<and>
    (\<forall>bc' rng'. bc_height bc' \<noteq> 0 \<longrightarrow> 13 \<le> bc_hard_fork_version bc' (bc_height bc' - 1) \<longrightarrow>
       synchronize ops bc' rng' p' = (Some Storages_already_initialized, p'))"
proof -
  obtain s where "init_storages_impl bc rng p = (Some e, p\<lparr>m_storage := Some s\<rparr>)"
    using assms by (auto simp: init_storages_impl_def open_stake_storage_def storage_load_def storage_file_def list_file_def
        new_stake_storage_def Let_def)
  then show ?thesis
    using assms(1,2,4,5)
    by (intro exI [of _ "p\<lparr>m_storage := Some s\<rparr>"])
      (simp add: synchronize_def init_storages_impl_def STAKE_TRANSACTION_PROCESSING_DB_VERSION_def Let_def not_less)
qed

section \<open>A query that fails once\<close>

lemma process_block_next:
  assumes p: "m_storage p = Some s" "m_blockchain_based_list p = Some l"
    and i: "i = m_last_processed_block_index s + 1" "m_last_processed_block_index s < i"
    and l: "i \<le> m_block_height l \<or> i = m_block_height l + 1"
    and hf: "STAKE_TRANSACTION_PROCESSING_DB_VERSION \<le> bc_hard_fork_version bc i"
    and txs: "bc_transactions bc (tx_hashes b) = Some (txs, missed)" "\<forall>tx \<in> set txs. \<exists>r. find_stake_tx ops bc i tx = Inr r"
  shows "\<exists>p' s' l'. process_block ops bc i b h False p = (None, p') \<and>
    m_storage p' = Some s' \<and> m_blockchain_based_list p' = Some l' \<and>
    m_stake_txs s' = m_stake_txs s @ stake_txs_of ops bc i txs \<and> m_last_processed_block_index s' = i \<and>
    m_block_height l' = max i (m_block_height l)"
proof -
  define u where "u = update_supernode_stakes i (fold add_tx (stake_txs_of ops bc i txs) s)"
  have "storage_view u = storage_view (fold add_tx (stake_txs_of ops bc i txs) s)"
    by (simp add: u_def)
  then have u: "m_last_processed_block_index u = m_last_processed_block_index s"
    by (simp add: storage_view_def)
  then obtain t where t: "add_last_processed_block i h u = Inr t"
    using i(1) by (auto simp: add_last_processed_block_def Let_def)
  have ft: "m_last_processed_block_index t = i" "m_stake_txs t = m_stake_txs s @ stake_txs_of ops bc i txs"
    using add_last_processed_block_fields(1,2) [OF t] u i(1) by (simp_all add: u_def)
  let ?q = "p\<lparr>m_stakes_need_update := True, m_storage := Some t\<rparr>"
  have stx: "process_block_stake_transaction ops bc i b h False s p = (None, ?q)"
    using i(2) hf txs(1) t add_stake_txs_fold [OF txs(2), of s]
    by (simp add: process_block_stake_transaction_def finish_block_def u_def Let_def)
  obtain t' l' where ap: "apply_block i h t l = Inr (t', l')" "m_last_processed_block_index t' = i"
      "m_stake_txs t' = m_stake_txs t" "m_block_height l' = max i (m_block_height l)"
  proof (cases "i \<le> m_block_height l")
    case True
    then show ?thesis
      using that [of t l] ft by (simp add: apply_block_def max_def)
  next
    case False
    then have "i = m_block_height l + 1" "m_block_height l \<noteq> - 1"
      using l word_order.extremum [of i] by auto
    from apply_block_shape [OF this, of h t] show ?thesis
      using that False ft by (auto simp: storage_view_def max_def)
  qed
  then show ?thesis
    using p stx ft by (simp add: process_block_def process_block_blockchain_based_list_def Let_def)
qed

lemma process_block_no_transactions:
  assumes p: "m_storage p = Some s" "m_blockchain_based_list p = Some l"
    and i: "m_last_processed_block_index s < i" and l: "i = m_block_height l + 1" "m_block_height l \<noteq> - 1"
    and hf: "STAKE_TRANSACTION_PROCESSING_DB_VERSION \<le> bc_hard_fork_version bc i"
    and txs: "bc_transactions bc (tx_hashes b) = None"
  shows "\<exists>p' s' l'. process_block ops bc i b h False p = (None, p') \<and>
    m_storage p' = Some s' \<and> m_blockchain_based_list p' = Some l' \<and> storage_view s' = storage_view s \<and> m_block_height l' = i"
proof -
  have "process_block_stake_transaction ops bc i b h False s p = (None, p)"
    using i hf txs by (simp add: process_block_stake_transaction_def)
  moreover obtain s' l' where "apply_block i h s l = Inr (s', l')" "storage_view s' = storage_view s" "m_block_height l' = i"
    using apply_block_shape [OF l, of h s] by blast
  ultimately show ?thesis
    using p by (simp add: process_block_def process_block_blockchain_based_list_def Let_def)
qed

lemma process_block_not_next:
  assumes p: "m_storage p = Some s" and i: "m_last_processed_block_index s < i" "i \<noteq> m_last_processed_block_index s + 1"
    and hf: "STAKE_TRANSACTION_PROCESSING_DB_VERSION \<le> bc_hard_fork_version bc i"
    and txs: "bc_transactions bc (tx_hashes b) = Some (txs, missed)" "\<forall>tx \<in> set txs. \<exists>r. find_stake_tx ops bc i tx = Inr r"
  shows "\<exists>p' s'. process_block ops bc i b h False p = (Some Not_next_block_index, p') \<and> m_storage p' = Some s' \<and>
    m_blockchain_based_list p' = m_blockchain_based_list p \<and>
    storage_view s' = storage_view (fold add_tx (stake_txs_of ops bc i txs) s)"
proof -
  define u where "u = update_supernode_stakes i (fold add_tx (stake_txs_of ops bc i txs) s)"
  have v: "storage_view u = storage_view (fold add_tx (stake_txs_of ops bc i txs) s)"
    by (simp add: u_def)
  then have "m_last_processed_block_index u = m_last_processed_block_index s"
    by (simp add: storage_view_def)
  then have "add_last_processed_block i h u = Inl Not_next_block_index"
    using i(2) by (simp add: add_last_processed_block_def)
  then have "process_block_stake_transaction ops bc i b h False s p =
      (Some Not_next_block_index, p\<lparr>m_stakes_need_update := True, m_storage := Some u\<rparr>)"
    using i(1) hf txs(1) add_stake_txs_fold [OF txs(2), of s]
    by (simp add: process_block_stake_transaction_def finish_block_def u_def Let_def)
  with p v show ?thesis
    by (simp add: process_block_def)
qed

lemma sync_step_no_unroll:
  assumes p: "m_storage p = Some s" "m_blockchain_based_list p = Some l"
    and h: "m_last_processed_block_index s < bc_height bc"
      "STAKE_TRANSACTION_PROCESSING_DB_VERSION \<le> bc_hard_fork_version bc (bc_height bc - 1)"
    and hash: "has_last_processed_block s \<longrightarrow>
      get_last_processed_block_hash s = Inr (bc_block_id_by_height bc (m_last_processed_block_index s))"
    and i: "i = first_block_index_for_sync s l" and n: "n = last_block_index_for_sync (bc_height bc) i"
    and ap: "apply_blocks ops bc n i p = (e, j, p')"
  shows "processor_view (sync_step ops bc rng p) = processor_view p'"
proof -
  have "bc_height bc \<noteq> 0"
    using h(1) by auto
  moreover have un: "unroll_blocks bc (bc_height bc) s l = (None, s, l)"
    using h(1) hash by (subst unroll_blocks.simps) (auto simp: keeps_last_block_def)
  have id: "p\<lparr>m_storage := Some s, m_blockchain_based_list := Some l\<rparr> = p"
    using p by (cases p) simp
  ultimately have "sync_step ops bc rng p = snd (synchronize_blocks ops bc (bc_height bc) p)"
    using p h(2) by (simp add: sync_step_def synchronize_def not_less Let_def)
  also have "processor_view \<dots> = processor_view p'"
    using p un ap processor_view_store_changes [of p']
    by (cases e; cases "store_changes p'"; cases "fst (store_changes p')")
      (auto simp: synchronize_blocks_def processor_view_call_handlers id simp flip: i n)
  finally show ?thesis .
qed

lemma processor_viewD:
  assumes "processor_view q = processor_view p" and "m_storage p = Some s" and "m_blockchain_based_list p = Some l"
  shows "\<exists>s' l'. m_storage q = Some s' \<and> m_blockchain_based_list q = Some l' \<and> storage_view s' = storage_view s \<and>
    bbl_view l' = bbl_view l"
  using assms by (auto simp: processor_view_def)

text \<open>The view of the chain in which the transactions of one block cannot be fetched.\<close>

definition failing_query :: "blockchain_view \<Rightarrow> block \<Rightarrow> blockchain_view" where
  "failing_query bc b = bc\<lparr>bc_transactions := (bc_transactions bc)(tx_hashes b := None)\<rparr>"

lemma failing_query_simps [simp]:
  "bc_height (failing_query bc b) = bc_height bc"
  "bc_hard_fork_version (failing_query bc b) = bc_hard_fork_version bc"
  "bc_block_id_by_height (failing_query bc b) = bc_block_id_by_height bc"
  "bc_block_by_hash (failing_query bc b) = bc_block_by_hash bc"
  "bc_transactions (failing_query bc b) = (bc_transactions bc)(tx_hashes b := None)"
  "find_stake_tx ops (failing_query bc b) = find_stake_tx ops bc"
  "stake_txs_of ops (failing_query bc b) = stake_txs_of ops bc"
proof -
  show "find_stake_tx ops (failing_query bc b) = find_stake_tx ops bc"
    by (intro ext find_stake_tx_cong) (simp_all add: failing_query_def max_unlock_time_def)
  then show "stake_txs_of ops (failing_query bc b) = stake_txs_of ops bc"
    by (intro ext) (simp add: stake_txs_of_def)
qed (simp_all add: failing_query_def)

lemma word_steps:
  fixes n :: u64
  assumes "unat n < 2 ^ 64 - 3"
  shows "unat (n + 1) = unat n + 1" "unat (n + 2) = unat n + 2" "unat (n + 3) = unat n + 3"
  using assms by (simp_all add: unat_word_ariths)

lemma word_steps_order:
  fixes n :: u64
  assumes "unat n < 2 ^ 64 - 3"
  shows "n < n + 1" "n < n + 2" "n < n + 3" "n + 1 < n + 2" "n + 1 < n + 3" "n + 2 < n + 3" "n \<noteq> - 1"
    "n + 1 + 1 = n + 2" "n + 2 + 1 = n + 3"
proof -
  note w = word_steps [OF assms]
  show "n < n + 1" "n < n + 2" "n < n + 3" "n + 1 < n + 2" "n + 1 < n + 3" "n + 2 < n + 3"
    by (simp_all add: word_less_nat_alt w)
  show "n \<noteq> - 1"
    using w(1) by auto
qed simp_all

lemma apply_blocks_step:
  assumes "i < m" and "bc_block_by_hash bc (bc_block_id_by_height bc i) = Some b"
  shows "process_block ops bc i b (bc_block_id_by_height bc i) False p = (None, p') \<Longrightarrow> i + 1 = j \<Longrightarrow>
      apply_blocks ops bc m i p = apply_blocks ops bc m j p'"
    and "process_block ops bc i b (bc_block_id_by_height bc i) False p = (Some e, p') \<Longrightarrow>
      apply_blocks ops bc m i p = (Some e, i, p')"
  using assms by (simp_all add: apply_blocks.simps [of ops bc m i])

lemma apply_blocks_end: "apply_blocks ops bc m m p = (None, m, p)"
  by (simp add: apply_blocks.simps)

lemma chain_block_stake_txs:
  assumes "chain_ok ops bc" and "i < bc_height bc" and "STAKE_TRANSACTION_PROCESSING_DB_VERSION \<le> bc_hard_fork_version bc i"
    and "bc_block_by_hash bc (bc_block_id_by_height bc i) = Some b"
  shows "\<exists>txs missed. bc_transactions bc (tx_hashes b) = Some (txs, missed) \<and>
    (\<forall>tx \<in> set txs. \<exists>r. find_stake_tx ops bc i tx = Inr r) \<and> block_stake_txs ops bc (unat i) = stake_txs_of ops bc i txs"
proof -
  obtain txs missed where "bc_transactions bc (tx_hashes b) = Some (txs, missed)"
    "\<forall>tx \<in> set txs. \<exists>r. find_stake_tx ops bc i tx = Inr r"
    using chain_ok_block [OF assms(1,2)] assms(4) by auto
  moreover from this have "block_stake_txs ops bc (unat i) = stake_txs_of ops bc i txs"
    using assms(3,4) by (simp add: block_stake_txs_def chain_id_def)
  ultimately show ?thesis by blast
qed

lemma sync_bounds:
  fixes n :: u64
  assumes "unat n < 2 ^ 64 - 3"
  shows "last_block_index_for_sync (n + 3) (n + 1) = n + 3"
proof -
  have "unat (last_block_index_for_sync (n + 3) (n + 1)) = unat (n + 3)"
    using last_block_index_for_sync_min [of "n + 1" "n + 3"] word_steps [OF assms] by (simp add: word_le_nat_alt)
  then show ?thesis
    by (simp add: word_unat_eq_iff)
qed

text \<open>The first synchronization: block \<open>n + 1\<close> is skipped and block \<open>n + 2\<close> fails half way.\<close>

lemma failing_sync:
  assumes chain: "chain_ok ops bc"
    and p: "m_storage p = Some s" "m_blockchain_based_list p = Some l" "scanned ops bc s" "in_step s l"
    and n: "n = m_last_processed_block_index s" "bc_height bc = n + 3" "unat n < 2 ^ 64 - 3"
    and hf: "STAKE_TRANSACTION_PROCESSING_DB_VERSION \<le> bc_hard_fork_version bc (n + 1)"
      "STAKE_TRANSACTION_PROCESSING_DB_VERSION \<le> bc_hard_fork_version bc (n + 2)"
    and b1: "bc_block_by_hash bc (bc_block_id_by_height bc (n + 1)) = Some b1"
    and b2: "bc_block_by_hash bc (bc_block_id_by_height bc (n + 2)) = Some b2" "tx_hashes b2 \<noteq> tx_hashes b1"
  shows "\<exists>s' l'. m_storage (sync_step ops (failing_query bc b1) rng p) = Some s' \<and>
    m_blockchain_based_list (sync_step ops (failing_query bc b1) rng p) = Some l' \<and>
    storage_view s' = storage_view (fold add_tx (block_stake_txs ops bc (unat (n + 2))) s) \<and> m_block_height l' = n + 1"
proof -
  let ?bc = "failing_query bc b1"
  note w = word_steps [OF n(3)]
  have hl: "m_block_height l = n" using p(4) n(1) by (simp add: in_step_def)
  note nn = word_steps_order [OF n(3)]
  have ne: "n + 2 \<noteq> n + 1" using nn(4) by auto
  have first: "first_block_index_for_sync s l = n + 1"
    using hl n(1) by (simp add: first_block_index_for_sync_def)
  have lst: "last_block_index_for_sync (bc_height ?bc) (n + 1) = n + 3"
    using sync_bounds [OF n(3)] n(2) by simp
  obtain p1 s1 l1 where p1: "process_block ops ?bc (n + 1) b1 (bc_block_id_by_height bc (n + 1)) False p = (None, p1)"
      "m_storage p1 = Some s1" "m_blockchain_based_list p1 = Some l1" "storage_view s1 = storage_view s" "m_block_height l1 = n + 1"
    using process_block_no_transactions [OF p(1,2), of "n + 1" ?bc b1 ops "bc_block_id_by_height bc (n + 1)"] hl nn n(1) hf by auto
  have last1: "m_last_processed_block_index s1 = n"
    using p1(4) n(1) by (simp add: storage_view_def)
  obtain txs missed where txs: "bc_transactions bc (tx_hashes b2) = Some (txs, missed)"
      "\<forall>tx \<in> set txs. \<exists>r. find_stake_tx ops bc (n + 2) tx = Inr r" "block_stake_txs ops bc (unat (n + 2)) = stake_txs_of ops bc (n + 2) txs"
    using chain_block_stake_txs [OF chain _ hf(2) b2(1)] nn n(2) by auto
  obtain p2 s2 where p2: "process_block ops ?bc (n + 2) b2 (bc_block_id_by_height bc (n + 2)) False p1 = (Some Not_next_block_index, p2)"
      "m_storage p2 = Some s2" "m_blockchain_based_list p2 = Some l1"
      "storage_view s2 = storage_view (fold add_tx (stake_txs_of ops bc (n + 2) txs) s1)"
    using process_block_not_next [OF p1(2), of "n + 2" ?bc b2 txs missed ops "bc_block_id_by_height bc (n + 2)"] last1 nn ne hf(2) txs b2 p1(3)
    by auto
  have ap: "apply_blocks ops ?bc (n + 3) (n + 1) p = (Some Not_next_block_index, n + 2, p2)"
    using apply_blocks_step(1) [of "n + 1" "n + 3" ?bc b1 ops p p1, OF nn(5) _ _ nn(8)] apply_blocks_step(2) [of "n + 2" "n + 3" ?bc b2 ops p1, OF nn(6)]
      b1 b2(1) p1(1) p2(1) by simp
  have hv: "STAKE_TRANSACTION_PROCESSING_DB_VERSION \<le> bc_hard_fork_version ?bc (bc_height ?bc - 1)"
    using chain by (simp add: chain_ok_def)
  have hash: "has_last_processed_block s \<longrightarrow>
      get_last_processed_block_hash s = Inr (bc_block_id_by_height ?bc (m_last_processed_block_index s))"
    using scanned_last_hash [OF p(3)] by (simp add: chain_id_def)
  have hn: "m_last_processed_block_index s < bc_height ?bc"
    using nn n by simp
  have "processor_view (sync_step ops ?bc rng p) = processor_view p2"
    using sync_step_no_unroll [OF p(1,2) hn hv hash refl refl] ap first lst by simp
  from processor_viewD [OF this p2(2,3)] show ?thesis
    using p1(4,5) p2(4) txs(3) by (auto simp: storage_view_def bbl_view_def)
qed

text \<open>
  C25. A query for the transactions of a block that fails once makes stakes count twice: the
  chain has grown by two blocks, and the transactions of the first cannot be fetched. The block
  is skipped with a warning; the next block is rejected because it does not follow the last one
  processed, but only after its stake transactions have been added. When the query succeeds at
  the next synchronization, both blocks are processed and the transactions of the second one are
  added again.
\<close>

theorem failed_query_counts_stakes_twice:
  assumes "processor_reach ops bc0 p" and "chain_ok ops bc" and "m_storage p = Some s"
    and "n = m_last_processed_block_index s" and "bc_height bc = n + 3" and "unat n < 2 ^ 64 - 3"
    and "13 \<le> bc_hard_fork_version bc (n + 1)" and "13 \<le> bc_hard_fork_version bc (n + 2)"
    and "bc_block_by_hash bc (bc_block_id_by_height bc (n + 1)) = Some b1"
    and "bc_block_by_hash bc (bc_block_id_by_height bc (n + 2)) = Some b2"
    and "tx_hashes b2 \<noteq> tx_hashes b1"
    and "same_history bc0 bc" and "chain_id bc0 (unat n) = chain_id bc (unat n)"
  shows "\<exists>s'. m_storage (sync_step ops bc rng (sync_step ops (failing_query bc b1) rng p)) = Some s' \<and>
    m_last_processed_block_index s' = n + 2 \<and>
    m_stake_txs s' = m_stake_txs s @ block_stake_txs ops bc (unat n + 2) @
      block_stake_txs ops bc (unat n + 1) @ block_stake_txs ops bc (unat n + 2)"
proof -
  let ?q = "sync_step ops (failing_query bc b1) rng p"
  note nn = word_steps_order [OF assms(6)] and w = word_steps [OF assms(6)]
  have hf: "STAKE_TRANSACTION_PROCESSING_DB_VERSION \<le> bc_hard_fork_version bc (n + 1)"
      "STAKE_TRANSACTION_PROCESSING_DB_VERSION \<le> bc_hard_fork_version bc (n + 2)"
    using assms(7,8) by (simp_all add: STAKE_TRANSACTION_PROCESSING_DB_VERSION_def)
  obtain l where l0: "m_blockchain_based_list p = Some l" "scanned ops bc0 s" "in_step s l"
    using reach_inv [OF assms(1)] assms(3) by (auto simp: processor_inv_def processor_ok_def)
  have l: "m_blockchain_based_list p = Some l" "scanned ops bc s" "in_step s l"
    using l0 scanned_same_history [OF l0(2) assms(12)] assms(4,5,13) nn(3) by simp_all
  obtain s1 l1 where q: "m_storage ?q = Some s1" "m_blockchain_based_list ?q = Some l1"
    and s1: "storage_view s1 = storage_view (fold add_tx (block_stake_txs ops bc (unat (n + 2))) s)" and l1: "m_block_height l1 = n + 1"
    using failing_sync [OF assms(2,3) l assms(4-6) hf assms(9-11)] by blast
  have f1: "m_last_processed_block_index s1 = n" "m_stake_txs s1 = m_stake_txs s @ block_stake_txs ops bc (unat n + 2)"
      "get_last_processed_block_hash s1 = get_last_processed_block_hash s" "has_last_processed_block s1 = has_last_processed_block s"
    using s1 assms(4) w by (simp_all add: storage_view_def get_last_processed_block_hash_def has_last_processed_block_def)
  obtain txs1 m1 where t1: "bc_transactions bc (tx_hashes b1) = Some (txs1, m1)"
      "\<forall>tx \<in> set txs1. \<exists>r. find_stake_tx ops bc (n + 1) tx = Inr r" "block_stake_txs ops bc (unat (n + 1)) = stake_txs_of ops bc (n + 1) txs1"
    using chain_block_stake_txs [OF assms(2) _ hf(1) assms(9)] nn(5) assms(5) by auto
  obtain txs2 m2 where t2: "bc_transactions bc (tx_hashes b2) = Some (txs2, m2)"
      "\<forall>tx \<in> set txs2. \<exists>r. find_stake_tx ops bc (n + 2) tx = Inr r" "block_stake_txs ops bc (unat (n + 2)) = stake_txs_of ops bc (n + 2) txs2"
    using chain_block_stake_txs [OF assms(2) _ hf(2) assms(10)] nn(6) assms(5) by auto
  obtain p2 s2 l2 where p2: "process_block ops bc (n + 1) b1 (bc_block_id_by_height bc (n + 1)) False ?q = (None, p2)"
      "m_storage p2 = Some s2" "m_blockchain_based_list p2 = Some l2" "m_stake_txs s2 = m_stake_txs s1 @ stake_txs_of ops bc (n + 1) txs1"
      "m_last_processed_block_index s2 = n + 1" "m_block_height l2 = n + 1"
    using process_block_next [OF q _ _ _ hf(1) t1(1,2), where h = "bc_block_id_by_height bc (n + 1)"] f1(1) l1 nn(1) by auto
  obtain p3 s3 l3 where p3: "process_block ops bc (n + 2) b2 (bc_block_id_by_height bc (n + 2)) False p2 = (None, p3)"
      "m_storage p3 = Some s3" "m_blockchain_based_list p3 = Some l3" "m_stake_txs s3 = m_stake_txs s2 @ stake_txs_of ops bc (n + 2) txs2"
      "m_last_processed_block_index s3 = n + 2"
    using process_block_next [OF p2(2,3) _ _ _ hf(2) t2(1,2), where h = "bc_block_id_by_height bc (n + 2)"] p2(5,6) nn(4,8) by auto
  have ap: "apply_blocks ops bc (n + 3) (n + 1) ?q = (None, n + 3, p3)"
    using apply_blocks_step(1) [OF nn(5) assms(9) p2(1) nn(8)] apply_blocks_step(1) [OF nn(6) assms(10) p3(1) nn(9)]
    by (simp add: apply_blocks_end)
  have "first_block_index_for_sync s1 l1 = n + 1"
    unfolding first_block_index_for_sync_def f1(1) l1 nn(8) using nn(4) by (simp add: Let_def)
  then have "processor_view (sync_step ops bc rng ?q) = processor_view p3"
    using sync_step_no_unroll [OF q, of bc "n + 1" "n + 3" ops None "n + 3" p3 rng] f1 nn(3) assms(2,5) ap
      sync_bounds [OF assms(6)] scanned_last_hash [OF l(2)] assms(4)
    by (simp add: chain_ok_def chain_id_def)
  from processor_viewD [OF this p3(2,3)] show ?thesis
    using p2(4) p3(4,5) f1(2) t1(3) t2(3) w by (auto simp: storage_view_def)
qed

section \<open>Witnesses\<close>

text \<open>
  A chain whose block 2 holds a stake transaction, seen at several heights, with operations on
  keys that accept everything.
\<close>

definition example_ops :: crypto_ops where
  "example_ops =
     \<lparr>generate_key_derivation = (\<lambda>_ _. Some []), derive_public_key = (\<lambda>_ _ _. replicate 32 3),
      derivation_to_scalar = (\<lambda>_ _. []), ecdh_decode = (\<lambda>e _. e), add_keys2_H = (\<lambda>_ _. []),
      ops_check_key = (\<lambda>_. True), check_signature = (\<lambda>_ _ _. True)\<rparr>"

definition example_staking_tx :: transaction where
  "example_staking_tx = example_transaction\<lparr>tx_prefix := example_prefix\<lparr>version := 1, unlock_time := 1000,
     vout := [\<lparr>out_amount = 500, out_target = txout_to_key (replicate 32 3)\<rparr>],
     extra := add_graft_tx_secret_key_to_extra (add_graft_stake_tx_extra_to_extra
       (encode_fields []) (pod_to_hex (replicate 32 7)) example_supernode_address (replicate 64 8)) (replicate 32 9)\<rparr>\<rparr>"

definition example_chain_block :: "hash \<Rightarrow> block" where
  "example_chain_block h =
     \<lparr>major_version = 13, minor_version = 13, timestamp = 0, prev_id = [], nonce = 0, miner_tx = example_transaction, tx_hashes = [h]\<rparr>"

definition example_chain :: "u64 \<Rightarrow> blockchain_view" where
  "example_chain height =
     \<lparr>bc_height = height, bc_hard_fork_version = (\<lambda>_. 13), bc_current_hard_fork_version = 13,
      bc_block_id_by_height = (\<lambda>i. replicate 32 (ucast i)), bc_block_by_hash = (\<lambda>h. Some (example_chain_block h)),
      bc_transactions = (\<lambda>hs. Some (if hs = [replicate 32 2] then [example_staking_tx] else [], [])),
      bc_earliest_ideal_height = (\<lambda>_. 1), bc_nettype = MAINNET, bc_db_height = height\<rparr>"

definition example_start :: stake_processor where
  "example_start = snd (init_storages ''graft'' (new_stake_processor example_fs))"

lemma example_staking_tx_extra:
  "get_graft_stake_tx_extra_from_extra example_staking_tx =
     Some (pod_to_hex (replicate 32 7), example_supernode_address, replicate 64 8, replicate 32 9)"
  by (rule added_stake_tx_extra [where fs = "[]"])
    (simp_all add: blob_fits_def address_fits_def example_supernode_address_def example_staking_tx_def pod_to_hex_def)

definition example_stake :: "u64 \<Rightarrow> stake_transaction" where
  "example_stake i =
     \<lparr>tx_hash = get_transaction_prefix_hash (tx_prefix example_staking_tx), tx_amount = 500, tx_block_height = i,
      tx_unlock_time = 1000 - i, tx_supernode_public_id = pod_to_hex (replicate 32 7),
      tx_supernode_public_address = example_supernode_address, tx_supernode_signature = replicate 64 8,
      tx_secret_key = replicate 32 9\<rparr>"

lemma example_stake_found:
  "find_stake_tx example_ops (example_chain height) i example_staking_tx =
     Inr (if 10 \<le> 1000 - i \<and> 1000 - i \<le> (5000 :: u64) then Some (example_stake i) else None)"
proof -
  obtain str where "get_account_address_as_str MAINNET False example_supernode_address = Some str"
    using encode_addr_decodes [of "CRYPTONOTE_PUBLIC_ADDRESS_BASE58_PREFIX mainnet"]
    by (auto simp: get_account_address_as_str_def)
  moreover have "get_transaction_amount example_ops example_staking_tx example_supernode_address (replicate 32 9) = Some 500"
    by (simp add: get_transaction_amount_def output_amount_def example_ops_def example_staking_tx_def)
  moreover have "max_unlock_time (example_chain height) = 5000" "bc_nettype (example_chain height) = MAINNET"
    by (simp_all add: max_unlock_time_def example_chain_def config_defs)
  moreover have "ops_check_key example_ops W" "check_signature example_ops h W sig" for W h sig
    by (simp_all add: example_ops_def)
  moreover have "unlock_time (tx_prefix example_staking_tx) = 1000"
    by (simp add: example_staking_tx_def)
  moreover have "hex_to_pod 32 (pod_to_hex (replicate 32 7)) = Some (replicate 32 7)"
    using hex_to_pod_write_hex [of "replicate 32 (7 :: byte)"] by (simp add: pod_to_hex_def)
  ultimately show ?thesis
    by (auto simp: find_stake_tx_def example_staking_tx_extra example_stake_def STAKE_MIN_UNLOCK_TIME_def Let_def not_less not_le)
qed

lemma example_chain_ok:
  assumes "height = 1 \<or> height = 3"
  shows "chain_ok example_ops (example_chain height)"
proof -
  have "\<exists>r. find_stake_tx example_ops (example_chain height) i example_staking_tx = Inr r" for i
    using example_stake_found [of height i] by blast
  moreover have "bc_transactions (example_chain height) hs = Some (if hs = [replicate 32 2] then [example_staking_tx] else [], [])"
    "bc_block_by_hash (example_chain height) h = Some (example_chain_block h)" "bc_height (example_chain height) = height" for hs h
    by (simp_all add: example_chain_def)
  ultimately show ?thesis
    using assms by (auto simp: chain_ok_def) (simp_all add: example_chain_def config_defs)
qed

lemma example_same_history: "same_history (example_chain h) (example_chain h')"
  by (simp add: same_history_def same_block_def example_chain_def max_unlock_time_def chain_id_def)

lemma example_reach_start: "processor_reach ops bc example_start"
  by (rule processor_reach.start [where fs = example_fs and config_dir = "''graft''"]) (simp_all add: example_start_def init_storages_def new_stake_processor_def example_fs_def)

lemma example_reach:
  assumes "height = 1 \<or> height = 3"
  shows "processor_reach example_ops (example_chain height) (sync_step example_ops (example_chain height) rng example_start)"
  by (rule processor_reach.sync [OF example_reach_start example_same_history [of height] example_chain_ok [OF assms]])
    (simp add: sync_step_def prod_eq_iff)

lemma example_synced:
  assumes "height = 1 \<or> height = 3"
  shows "\<exists>s. m_storage (sync_step example_ops (example_chain height) rng example_start) = Some s \<and>
    m_last_processed_block_index s = height - 1"
proof -
  let ?q = "sync_step example_ops (example_chain height) rng example_start"
  have h: "bc_height (example_chain height) = height" "unat height \<le> 3" "height \<noteq> 0"
    using assms by (auto simp: example_chain_def)
  obtain q where "synchronize example_ops (example_chain height) rng example_start = (None, q)"
      "processor_ok example_ops (example_chain height) q" "Suc (processed_index q) = unat height"
    using synchronize_ok [OF reach_inv [OF example_reach_start] example_same_history [of height] example_chain_ok [OF assms], of rng] h
    by fastforce
  then show ?thesis
    using unat_dec_pos [OF h(3)] by (auto simp: sync_step_def processor_ok_def processed_index_def word_unat_eq_iff)
qed

lemma example_block_stake_txs:
  "block_stake_txs example_ops (example_chain 3) (Suc 0) = []"
  "block_stake_txs example_ops (example_chain 3) 2 = [example_stake 2]"
proof -
  have "find_stake_tx example_ops (example_chain 3) 2 example_staking_tx = Inr (Some (example_stake 2))"
    using example_stake_found [of 3 2] by simp
  then have found: "stake_txs_of example_ops (example_chain 3) 2 [example_staking_tx] = [example_stake 2]"
    by (simp add: stake_txs_of_def map_filter_simps)
  have "stake_txs_of example_ops (example_chain 3) 1 [] = []"
    by (simp add: stake_txs_of_def map_filter_simps)
  then show "block_stake_txs example_ops (example_chain 3) (Suc 0) = []"
    by (simp add: block_stake_txs_def chain_id_def) (simp add: example_chain_def example_chain_block_def)
  have "bc_transactions (example_chain 3) (tx_hashes (example_chain_block (replicate 32 2))) = Some ([example_staking_tx], [])"
    "bc_block_by_hash (example_chain 3) (chain_id (example_chain 3) 2) = Some (example_chain_block (replicate 32 2))"
    "STAKE_TRANSACTION_PROCESSING_DB_VERSION \<le> bc_hard_fork_version (example_chain 3) 2"
    by (simp_all add: example_chain_def example_chain_block_def chain_id_def config_defs)
  then show "block_stake_txs example_ops (example_chain 3) 2 = [example_stake 2]"
    using found by (simp add: block_stake_txs_def)
qed

definition example_rng :: mt19937_64 where
  "example_rng = mt_seed []"


theorem synchronize_catches_up_witness:
  "\<exists>s l. m_storage (sync_step example_ops (example_chain 3) example_rng example_start) = Some s \<and>
    m_blockchain_based_list (sync_step example_ops (example_chain 3) example_rng example_start) = Some l \<and>
    m_last_processed_block_index s = 2 \<and> m_block_height l = 2"
  using synchronize_catches_up [OF example_reach_start example_same_history [of 3 3] example_chain_ok [of 3], of 1 example_rng]
  by (simp add: example_chain_def)

text \<open>A processor whose list file is empty.\<close>

definition example_broken :: stake_processor where
  "example_broken = example_start\<lparr>sp_fs := example_fs\<lparr>fs_files := [list_file example_start \<mapsto> []]\<rparr>\<rparr>"

lemma example_broken_list:
  "open_blockchain_based_list (sp_fs example_broken) (list_file example_broken) n rng = Inl Parse_failed"
proof -
  have "load_uint_loop 8 0 (0 :: u64) [] = None"
    by (simp add: eval_nat_numeral)
  then show ?thesis
    by (simp add: example_broken_def open_blockchain_based_list_def list_load_def new_blockchain_based_list_def list_file_def
      load_file_to_string_def example_fs_def parse_binary_def load_list_file_def load_bind_def load_uint_def)
qed

theorem broken_list_file_disables_processor_witness:
  "\<exists>p'. synchronize example_ops (example_chain 3) example_rng example_broken = (Some Parse_failed, p') \<and>
    synchronize example_ops (example_chain 3) example_rng p' = (Some Storages_already_initialized, p')"
proof -
  have "m_storage example_broken = None" "m_blockchain_based_list example_broken = None" "m_enabled example_broken"
    by (simp_all add: example_broken_def example_start_def init_storages_def new_stake_processor_def)
  moreover have "bc_height (example_chain 3) \<noteq> 0" "13 \<le> bc_hard_fork_version (example_chain 3) i" for i
    by (simp_all add: example_chain_def)
  moreover have "fs_files (sp_fs example_broken) (storage_file example_broken) = None"
    by (simp add: example_broken_def storage_file_def list_file_def STAKE_TRANSACTION_STORAGE_FILE_NAME_def
        BLOCKCHAIN_BASED_LIST_FILE_NAME_def)
  ultimately show ?thesis
    using broken_list_file_disables_processor [of example_broken "example_chain 3" example_rng Parse_failed example_ops] example_broken_list
    by auto
qed

theorem failed_query_counts_stakes_twice_witness:
  "\<exists>s. m_storage (sync_step example_ops (example_chain 3) example_rng
       (sync_step example_ops (failing_query (example_chain 3) (example_chain_block (replicate 32 1))) example_rng
         (sync_step example_ops (example_chain 1) example_rng example_start))) = Some s \<and>
     m_last_processed_block_index s = 2 \<and> m_stake_txs s = [example_stake 2, example_stake 2]"
proof -
  let ?p = "sync_step example_ops (example_chain 1) example_rng example_start"
  obtain s where s: "m_storage ?p = Some s" "0 = m_last_processed_block_index s"
    using example_synced [of 1 example_rng] by auto
  then obtain l where "scanned example_ops (example_chain 1) s" "in_step s l" "first_index ?p = start_index (example_chain 1)"
    using reach_inv [OF example_reach [of 1 example_rng]] by (auto simp: processor_inv_def processor_ok_def)
  then have txs: "m_stake_txs s = []"
    using s by (simp add: scanned_def first_index_def start_index_def example_chain_def flip: s(2))
  have "bc_height (example_chain 3) = 0 + 3" "unat (0 :: u64) < 2 ^ 64 - 3"
    "13 \<le> bc_hard_fork_version (example_chain 3) (0 + 1)" "13 \<le> bc_hard_fork_version (example_chain 3) (0 + 2)"
    "bc_block_by_hash (example_chain 3) (bc_block_id_by_height (example_chain 3) (0 + 1)) = Some (example_chain_block (replicate 32 1))"
    "bc_block_by_hash (example_chain 3) (bc_block_id_by_height (example_chain 3) (0 + 2)) = Some (example_chain_block (replicate 32 2))"
    "tx_hashes (example_chain_block (replicate 32 2)) \<noteq> tx_hashes (example_chain_block (replicate 32 1))"
    "same_history (example_chain 1) (example_chain 3)" "chain_id (example_chain 1) (unat (0 :: u64)) = chain_id (example_chain 3) (unat (0 :: u64))"
    by (simp_all add: example_chain_def example_chain_block_def same_history_def same_block_def max_unlock_time_def chain_id_def)
  from failed_query_counts_stakes_twice [OF example_reach [of 1] example_chain_ok [of 3] s this, of example_rng]
  show ?thesis
    by (simp add: txs example_block_stake_txs flip: numeral_2_eq_2)
qed

end
