(* ===== verification/Tree_Hash.thy ===== *)
theory Tree_Hash
  imports Keccak
begin

text \<open>
  Model of \<^verbatim>\<open>src/crypto/tree-hash.c\<close>: the root of the Merkle tree over the
  transaction hashes of a block. The code hashes pairs in place in one array; the theorems
  show that the result is the root of the binary tree with the given leaves whose depths
  differ by at most one, and that two different lists of the same length can share a root
  only through a collision of \<open>cn_fast_hash\<close> between strings hashed in the two trees.
\<close>

unbundle bit_operations_syntax

section \<open>The code\<close>

text \<open>
  The loop doubles a 64-bit \<^verbatim>\<open>pow\<close>, which becomes 0 after the highest bit: for a
  count above \<open>2 ^ 63\<close> it does not end, which is the value \<open>None\<close>.
\<close>

partial_function (option) tree_hash_cnt_loop :: "u64 \<Rightarrow> u64 \<Rightarrow> u64 option" where
  "tree_hash_cnt_loop count pow =
     (if pow < count then tree_hash_cnt_loop count (push_bit 1 pow) else Some pow)"

declare tree_hash_cnt_loop.simps [code]

definition tree_hash_cnt :: "u64 \<Rightarrow> u64 option" where
  "tree_hash_cnt count = map_option (drop_bit 1) (tree_hash_cnt_loop count 2)"

text \<open>
  The two loops that hash the entries \<^verbatim>\<open>i\<close> and \<^verbatim>\<open>i + 1\<close> of an
  array, which are 64 bytes in a row, into the entry \<^verbatim>\<open>j\<close> of \<^verbatim>\<open>ints\<close>;
  the second one reads and writes the same array.
\<close>

definition hash_first_level :: "hash list \<Rightarrow> nat \<Rightarrow> nat \<Rightarrow> hash list \<Rightarrow> hash list" where
  "hash_first_level hashes start cnt ints =
     fst (fold (\<lambda>j (ints, i). (ints[j := cn_fast_hash (hashes ! i @ hashes ! (i + 1))], i + 2))
       [start..<cnt] (ints, start))"

definition hash_level :: "nat \<Rightarrow> hash list \<Rightarrow> hash list" where
  "hash_level cnt ints =
     fst (fold (\<lambda>j (ints, i). (ints[j := cn_fast_hash (ints ! i @ ints ! (i + 1))], i + 2)) [0..<cnt] (ints, 0))"

fun hash_levels :: "nat \<Rightarrow> hash list \<Rightarrow> hash list" where
  "hash_levels cnt ints =
     (if 2 < cnt then let cnt = cnt div 2 in hash_levels cnt (hash_level cnt ints) else ints)"

declare hash_levels.simps [simp del]

text \<open>\<open>None\<close> is a failed assertion: the list of hashes must not be empty.\<close>

definition tree_hash :: "hash list \<Rightarrow> hash option" where
  "tree_hash hashes =
     (let count = length hashes in
      if count = 0 then None
      else if count = 1 then Some (hashes ! 0)
      else if count = 2 then Some (cn_fast_hash (hashes ! 0 @ hashes ! 1))
      else
        case tree_hash_cnt (of_nat count) of
          None \<Rightarrow> None
        | Some c \<Rightarrow>
            let cnt = unat c;
                ints = take (2 * cnt - count) hashes @ replicate (cnt - (2 * cnt - count)) (replicate HASH_SIZE 0);
                ints = hash_first_level hashes (2 * cnt - count) cnt ints;
                ints = hash_levels cnt ints
            in Some (cn_fast_hash (ints ! 0 @ ints ! 1)))"

section \<open>The specification\<close>

datatype htree = Leaf hash | Node htree htree

primrec root :: "htree \<Rightarrow> hash" where
  "root (Leaf h) = h"
| "root (Node l r) = cn_fast_hash (root l @ root r)"

primrec fringe :: "htree \<Rightarrow> hash list" where
  "fringe (Leaf h) = [h]"
| "fringe (Node l r) = fringe l @ fringe r"

primrec depths :: "htree \<Rightarrow> nat list" where
  "depths (Leaf h) = [0]"
| "depths (Node l r) = map Suc (depths l) @ map Suc (depths r)"

fun pair_up :: "htree list \<Rightarrow> htree list" where
  "pair_up (x # y # zs) = Node x y # pair_up zs"
| "pair_up zs = []"

fun join_trees :: "nat \<Rightarrow> htree list \<Rightarrow> htree" where
  "join_trees 0 ts = hd ts"
| "join_trees (Suc d) ts = join_trees d (pair_up ts)"

section \<open>Rounding to a power of two\<close>

lemma unat_pow: "k < 64 \<Longrightarrow> unat (2 ^ k :: u64) = 2 ^ k"
proof -
  assume "k < 64"
  then have "(2 :: nat) ^ k < 2 ^ 64"
    by (intro power_strict_increasing) auto
  moreover have "(2 :: u64) ^ k = of_nat (2 ^ k)"
    by simp
  ultimately show ?thesis
    by (simp only: unat_of_nat) simp
qed

lemma tree_hash_cnt_loop_pow:
  assumes "k \<le> 28" and "unat count \<le> 2 ^ 28" and "2 ^ k < 2 * unat count"
  shows "\<exists>m\<ge>k. tree_hash_cnt_loop count (2 ^ k) = Some (2 ^ m) \<and> m \<le> 28 \<and>
    unat count \<le> 2 ^ m \<and> 2 ^ m < 2 * unat count"
  using assms
proof (induction "28 - k" arbitrary: k rule: less_induct)
  case less
  have pow: "unat (2 ^ k :: u64) = 2 ^ k"
    using less.prems(1) by (intro unat_pow) simp
  show ?case
  proof (cases "2 ^ k < count")
    case True
    then have lt: "2 ^ k < unat count"
      by (simp add: word_less_nat_alt pow)
    then have "(2 :: nat) ^ k < 2 ^ 28"
      using less.prems(2) by linarith
    then have "k < 28"
      by (simp only: power_strict_increasing_iff)
    then obtain m where "m \<ge> Suc k" "tree_hash_cnt_loop count (2 ^ Suc k) = Some (2 ^ m)" "m \<le> 28"
        "unat count \<le> 2 ^ m" "2 ^ m < 2 * unat count"
      using less.hyps [of "Suc k"] less.prems(2) lt diff_less_mono2 [of k "Suc k" 28] by auto
    moreover have "tree_hash_cnt_loop count (2 ^ k) = tree_hash_cnt_loop count (2 ^ Suc k)"
      using True by (subst tree_hash_cnt_loop.simps) (simp add: push_bit_eq_mult mult.commute)
    ultimately show ?thesis
      by (intro exI [of _ m]) auto
  next
    case False
    then have "unat count \<le> 2 ^ k"
      by (simp add: word_less_nat_alt pow)
    then show ?thesis
      using False less.prems by (subst tree_hash_cnt_loop.simps) auto
  qed
qed

lemma tree_hash_cnt_pow:
  assumes "3 \<le> n" and "n \<le> 2 ^ 28"
  shows "\<exists>c d. tree_hash_cnt (of_nat n) = Some c \<and> unat c = 2 ^ Suc d \<and> 2 ^ Suc d < n \<and> n \<le> 2 * 2 ^ Suc d"
proof -
  have n: "unat (of_nat n :: u64) = n"
    using assms(2) by (simp add: unat_of_nat)
  obtain m where m: "m \<ge> 1" "tree_hash_cnt_loop (of_nat n) (2 ^ 1) = Some (2 ^ m)" "m \<le> 28" "n \<le> 2 ^ m" "2 ^ m < 2 * n"
    using tree_hash_cnt_loop_pow [of 1 "of_nat n"] assms n by auto
  have "m \<noteq> 1"
    using m(4) assms(1) by auto
  with m(1) obtain d where d: "m = Suc (Suc d)"
    by (metis One_nat_def Suc_le_D not0_implies_Suc)
  have "unat (drop_bit 1 (2 ^ m :: u64)) = 2 ^ Suc d"
    using m(3) d unat_pow [of m] by (simp only: unat_drop_bit_eq) (simp add: drop_bit_eq_div)
  then show ?thesis
    using m d by (intro exI [of _ "drop_bit 1 (2 ^ m)"] exI [of _ d]) (auto simp: tree_hash_cnt_def)
qed

section \<open>One level in place\<close>

lemma hash_first_level_fold:
  "s + k \<le> length ints \<Longrightarrow>
   (case fold (\<lambda>j (ints, i). (ints[j := cn_fast_hash (hs ! i @ hs ! (i + 1))], i + 2)) [s..<s + k] (ints, s) of
      (ints', i) \<Rightarrow> i = s + 2 * k \<and> length ints' = length ints \<and> (\<forall>j. j < s \<or> s + k \<le> j \<longrightarrow> ints' ! j = ints ! j) \<and>
        (\<forall>j<k. ints' ! (s + j) = cn_fast_hash (hs ! (s + 2 * j) @ hs ! (s + 2 * j + 1))))"
proof (induction k)
  case (Suc k)
  then show ?case
    by (auto simp: nth_list_update less_Suc_eq split: prod.splits)
qed simp

lemma hash_level_fold:
  "2 * k \<le> length ints \<Longrightarrow>
   (case fold (\<lambda>j (ints, i). (ints[j := cn_fast_hash (ints ! i @ ints ! (i + 1))], i + 2)) [0..<k] (ints, 0) of
      (ints', i) \<Rightarrow> i = 2 * k \<and> length ints' = length ints \<and> (\<forall>j\<ge>k. ints' ! j = ints ! j) \<and>
        (\<forall>j<k. ints' ! j = cn_fast_hash (ints ! (2 * j) @ ints ! (2 * j + 1))))"
proof (induction k)
  case (Suc k)
  then show ?case
    by (auto simp: nth_list_update less_Suc_eq split: prod.splits)
qed simp

lemma length_pair_up: "length ts = 2 * k \<Longrightarrow> length (pair_up ts) = k"
  by (induction ts arbitrary: k rule: pair_up.induct) (auto, presburger+)

lemma nth_pair_up: "length ts = 2 * k \<Longrightarrow> j < k \<Longrightarrow> pair_up ts ! j = Node (ts ! (2 * j)) (ts ! (2 * j + 1))"
proof (induction ts arbitrary: k j rule: pair_up.induct)
  case (1 x y zs)
  then show ?case
    by (cases k; cases j) auto
qed auto

lemma hash_level_pairs:
  assumes "length ts = 2 * k" and "take (2 * k) ints = map root ts"
  shows "take k (hash_level k ints) = map root (pair_up ts)"
proof -
  have len: "2 * k \<le> length ints"
    using assms by (metis length_map length_take min.absorb_iff2 min.commute)
  have nth: "ints ! i = root (ts ! i)" if "i < 2 * k" for i
    using assms that by (metis nth_map nth_take)
  show ?thesis
  proof (rule nth_equalityI)
    show "length (take k (hash_level k ints)) = length (map root (pair_up ts))"
      using hash_level_fold [OF len] length_pair_up [OF assms(1)] len by (auto simp: hash_level_def split: prod.splits)
  next
    fix j assume "j < length (take k (hash_level k ints))"
    then have "j < k" by simp
    then show "take k (hash_level k ints) ! j = map root (pair_up ts) ! j"
      using hash_level_fold [OF len] nth_pair_up [OF assms(1)] length_pair_up [OF assms(1)] nth
      by (auto simp: hash_level_def split: prod.splits)
  qed
qed

section \<open>All levels\<close>

lemma hash_levels_join:
  "length ts = 2 ^ Suc d \<Longrightarrow> take (2 ^ Suc d) ints = map root ts \<Longrightarrow>
   cn_fast_hash (hash_levels (2 ^ Suc d) ints ! 0 @ hash_levels (2 ^ Suc d) ints ! 1) = root (join_trees (Suc d) ts)"
proof (induction d arbitrary: ts ints)
  case 0
  then obtain x y where ts: "ts = [x, y]"
    by (auto simp: length_Suc_conv numeral_2_eq_2)
  with 0 have "ints ! 0 = root x" "ints ! 1 = root y"
    by (metis nth_map nth_take length_Cons list.size(3) nth_Cons_0 nth_Cons_Suc One_nat_def numeral_2_eq_2 power_Suc0_right zero_less_Suc lessI)+
  with ts show ?case
    by (simp add: hash_levels.simps)
next
  case (Suc d)
  have "2 < (2 :: nat) ^ Suc (Suc d)"
    by (induction d) auto
  then have "hash_levels (2 ^ Suc (Suc d)) ints = hash_levels (2 ^ Suc d) (hash_level (2 ^ Suc d) ints)"
    by (subst hash_levels.simps) (simp add: Let_def)
  moreover have "length (pair_up ts) = 2 ^ Suc d" "take (2 ^ Suc d) (hash_level (2 ^ Suc d) ints) = map root (pair_up ts)"
    using Suc.prems length_pair_up [of ts "2 ^ Suc d"] hash_level_pairs [of ts "2 ^ Suc d" ints] by simp_all
  ultimately show ?case
    using Suc.IH [of "pair_up ts" "hash_level (2 ^ Suc d) ints"] by simp
qed

lemma fringe_pair_up: "length ts = 2 * k \<Longrightarrow> concat (map fringe (pair_up ts)) = concat (map fringe ts)"
proof -
  assume "length ts = 2 * k"
  then have "even (length ts)" by simp
  then show ?thesis
    by (induction ts rule: pair_up.induct) auto
qed

lemma depths_pair_up:
  "length ts = 2 * k \<Longrightarrow> concat (map depths (pair_up ts)) = map Suc (concat (map depths ts))"
proof -
  assume "length ts = 2 * k"
  then have "even (length ts)" by simp
  then show ?thesis
    by (induction ts rule: pair_up.induct) auto
qed

lemma fringe_join: "length ts = 2 ^ d \<Longrightarrow> fringe (join_trees d ts) = concat (map fringe ts)"
proof (induction d arbitrary: ts)
  case 0
  then show ?case by (auto simp: length_Suc_conv)
next
  case (Suc d)
  then show ?case
    using fringe_pair_up [of ts "2 ^ d"] length_pair_up [of ts "2 ^ d"] by simp
qed

lemma depths_join: "length ts = 2 ^ d \<Longrightarrow> depths (join_trees d ts) = map ((+) d) (concat (map depths ts))"
proof (induction d arbitrary: ts)
  case 0
  then show ?case by (auto simp: length_Suc_conv)
next
  case (Suc d)
  then show ?case
    using depths_pair_up [of ts "2 ^ d"] length_pair_up [of ts "2 ^ d"] by simp
qed

text \<open>The subtrees of the first level: leaves, then pairs of leaves.\<close>

definition first_level :: "nat \<Rightarrow> hash list \<Rightarrow> htree list" where
  "first_level s hs = map Leaf (take s hs) @ pair_up (map Leaf (drop s hs))"

lemma hash_first_level_roots:
  assumes "length hs = s + 2 * k"
  shows "hash_first_level hs s (s + k) (take s hs @ replicate k z) = map root (first_level s hs)"
proof -
  define ints where "ints = take s hs @ replicate k z"
  have len: "s + k \<le> length ints" "length ints = s + k"
    using assms by (simp_all add: ints_def)
  have pairs: "length (pair_up (map Leaf (drop s hs))) = k"
    using assms by (intro length_pair_up) simp
  have fold: "length (hash_first_level hs s (s + k) ints) = s + k"
      "j < s \<Longrightarrow> hash_first_level hs s (s + k) ints ! j = hs ! j"
      "i < k \<Longrightarrow> hash_first_level hs s (s + k) ints ! (s + i) = cn_fast_hash (hs ! (s + 2 * i) @ hs ! (s + 2 * i + 1))"
    for i j
    using hash_first_level_fold [OF len(1), of hs] len(2) assms
    by (auto simp: hash_first_level_def ints_def nth_append split: prod.splits)
  show ?thesis
    unfolding ints_def [symmetric]
  proof (rule nth_equalityI)
    show "length (hash_first_level hs s (s + k) ints) = length (map root (first_level s hs))"
      using fold(1) pairs assms by (simp add: first_level_def)
  next
    fix j assume "j < length (hash_first_level hs s (s + k) ints)"
    then consider "j < s" | i where "j = s + i" "i < k"
      using fold(1) by (metis add.commute add_less_imp_less_left le_add_diff_inverse not_less)
    then show "hash_first_level hs s (s + k) ints ! j = map root (first_level s hs) ! j"
    proof cases
      case 1
      then show ?thesis
        using assms by (simp add: fold(2) first_level_def nth_append)
    next
      case 2
      have "pair_up (map Leaf (drop s hs)) ! i = Node (Leaf (hs ! (s + 2 * i))) (Leaf (hs ! (s + 2 * i + 1)))"
        using assms 2 by (subst nth_pair_up [of _ k]) auto
      then show ?thesis
        using assms 2 pairs by (simp add: fold(3) first_level_def nth_append)
    qed
  qed
qed

lemma pair_up_leaves:
  "length hs = 2 * k \<Longrightarrow> concat (map fringe (pair_up (map Leaf hs))) = hs"
  "length hs = 2 * k \<Longrightarrow> concat (map depths (pair_up (map Leaf hs))) = replicate (2 * k) 1"
  using fringe_pair_up [of "map Leaf hs" k] depths_pair_up [of "map Leaf hs" k]
  by (simp_all add: comp_def map_replicate_const)

lemma first_level_leaves:
  assumes "length hs = s + 2 * k"
  shows "length (first_level s hs) = s + k"
    and "concat (map fringe (first_level s hs)) = hs"
    and "concat (map depths (first_level s hs)) = replicate s 0 @ replicate (2 * k) 1"
  using assms pair_up_leaves [of "drop s hs" k] length_pair_up [of "map Leaf (drop s hs)" k]
  by (simp_all add: first_level_def comp_def map_replicate_const)

text \<open>The tree over \<open>n\<close> leaves: which subtrees the first level has depends on \<open>n\<close> only.\<close>

lemma tree_hash_join:
  assumes "3 \<le> n" and "n \<le> 2 ^ 28"
  shows "\<exists>s k d. s + 2 * k = n \<and> s + k = 2 ^ Suc d \<and>
    (\<forall>hs. length hs = n \<longrightarrow> tree_hash hs = Some (root (join_trees (Suc d) (first_level s hs))))"
proof -
  obtain c d where c: "tree_hash_cnt (of_nat n) = Some c" "unat c = 2 ^ Suc d" "2 ^ Suc d < n" "n \<le> 2 * 2 ^ Suc d"
    using tree_hash_cnt_pow [OF assms] by blast
  define cnt where "cnt = unat c"
  define s where "s = 2 * cnt - n"
  define k where "k = cnt - s"
  have sk: "s + 2 * k = n" "s + k = cnt" "cnt = 2 ^ Suc d"
    using c(2-4) by (simp_all add: s_def k_def cnt_def)
  have "tree_hash hs = Some (root (join_trees (Suc d) (first_level s hs)))" if n: "length hs = n" for hs
  proof -
    have len: "length hs = s + 2 * k"
      using n sk by simp
    define ints where "ints = hash_levels cnt (map root (first_level s hs))"
    have "tree_hash hs = Some (cn_fast_hash (ints ! 0 @ ints ! 1))"
      using assms(1) n c(1) hash_first_level_roots [OF len, of "replicate HASH_SIZE 0"] sk(2)
      by (simp add: tree_hash_def Let_def cnt_def [symmetric] s_def [symmetric] k_def [symmetric] ints_def)
    moreover have "take (2 ^ Suc d) (map root (first_level s hs)) = map root (first_level s hs)"
      using first_level_leaves(1) [OF len] sk by simp
    ultimately show ?thesis
      using hash_levels_join [of "first_level s hs" d "map root (first_level s hs)"] first_level_leaves(1) [OF len] sk
      unfolding ints_def sk(3) by simp
  qed
  with sk show ?thesis
    by blast
qed

section \<open>Binding\<close>

fun same_shape :: "htree \<Rightarrow> htree \<Rightarrow> bool" where
  "same_shape (Leaf _) (Leaf _) = True"
| "same_shape (Node l r) (Node l' r') = (same_shape l l' \<and> same_shape r r')"
| "same_shape _ _ = False"

text \<open>The strings that are hashed for the inner nodes of a tree.\<close>

primrec hashed_pairs :: "htree \<Rightarrow> byte list set" where
  "hashed_pairs (Leaf h) = {}"
| "hashed_pairs (Node l r) = insert (root l @ root r) (hashed_pairs l \<union> hashed_pairs r)"

text \<open>Two different strings, one of each set, with the same hash.\<close>

definition collision :: "byte list set \<Rightarrow> byte list set \<Rightarrow> bool" where
  "collision X Y \<longleftrightarrow> (\<exists>x \<in> X. \<exists>y \<in> Y. x \<noteq> y \<and> cn_fast_hash x = cn_fast_hash y)"

lemma collision_mono: "collision X Y \<Longrightarrow> X \<subseteq> X' \<Longrightarrow> Y \<subseteq> Y' \<Longrightarrow> collision X' Y'"
  unfolding collision_def by blast

lemma same_hash: "cn_fast_hash x = cn_fast_hash y \<Longrightarrow> x \<in> X \<Longrightarrow> y \<in> Y \<Longrightarrow> x = y \<or> collision X Y"
  unfolding collision_def by blast

lemma length_root: "\<forall>h\<in>set (fringe t). length h = 32 \<Longrightarrow> length (root t) = 32"
  by (cases t) simp_all

lemma same_shape_length: "same_shape t t' \<Longrightarrow> length (fringe t) = length (fringe t')"
  by (induction t t' rule: same_shape.induct) auto

lemma root_binding:
  "same_shape t t' \<Longrightarrow> root t = root t' \<Longrightarrow> fringe t \<noteq> fringe t' \<Longrightarrow>
   \<forall>h\<in>set (fringe t). length h = 32 \<Longrightarrow> \<forall>h\<in>set (fringe t'). length h = 32 \<Longrightarrow>
   collision (hashed_pairs t) (hashed_pairs t')"
proof (induction t t' rule: same_shape.induct)
  case (2 l r l' r')
  have len: "length (root l) = 32" "length (root r) = 32" "length (root l') = 32" "length (root r') = 32"
    using "2.prems" by (auto intro!: length_root)
  show ?case
  proof (cases "root l = root l' \<and> root r = root r'")
    case True
    moreover have "fringe l \<noteq> fringe l' \<or> fringe r \<noteq> fringe r'"
      using "2.prems"(3) by auto
    ultimately have "collision (hashed_pairs l) (hashed_pairs l') \<or> collision (hashed_pairs r) (hashed_pairs r')"
      using 2 by auto
    then show ?thesis
      by (auto elim!: collision_mono)
  next
    case False
    then have "root l @ root r \<noteq> root l' @ root r'"
      using len by simp
    then show ?thesis
      using "2.prems"(2) by (auto simp: collision_def)
  qed
qed auto

lemma same_shape_pair_up: "list_all2 same_shape ts ts' \<Longrightarrow> list_all2 same_shape (pair_up ts) (pair_up ts')"
proof (induction ts arbitrary: ts' rule: pair_up.induct)
  case (1 x y zs)
  then show ?case
    by (auto simp: list_all2_Cons1)
qed (auto simp: list_all2_Cons1)

lemma same_shape_join: "list_all2 same_shape ts ts' \<Longrightarrow> ts \<noteq> [] \<Longrightarrow> length ts = 2 ^ d \<Longrightarrow> same_shape (join_trees d ts) (join_trees d ts')"
proof (induction d arbitrary: ts ts')
  case 0
  then show ?case
    by (cases ts; cases ts') auto
next
  case (Suc d)
  have "length (pair_up ts) = 2 ^ d"
    using Suc.prems(3) by (intro length_pair_up) simp
  moreover from this have "pair_up ts \<noteq> []"
    by auto
  ultimately show ?case
    using Suc.IH [OF same_shape_pair_up [OF Suc.prems(1)]] by simp
qed

lemma same_shape_leaves: "length hs = length hs' \<Longrightarrow> list_all2 same_shape (map Leaf hs) (map Leaf hs')"
  by (induction hs hs' rule: list_induct2) auto

lemma same_shape_first_level:
  assumes "length hs = length hs'"
  shows "list_all2 same_shape (first_level s hs) (first_level s hs')"
  unfolding first_level_def using assms
  by (intro list_all2_appendI same_shape_pair_up same_shape_leaves) simp_all

section \<open>The tree of a list of hashes\<close>

text \<open>The leaves are the hashes in order, the first ones at some depth and the others one below.\<close>

definition merkle_tree :: "hash list \<Rightarrow> htree \<Rightarrow> bool" where
  "merkle_tree hs t \<longleftrightarrow>
     fringe t = hs \<and> (\<exists>d k. k \<le> length hs \<and> depths t = replicate k d @ replicate (length hs - k) (Suc d))"

lemma merkle_tree_join:
  assumes "s + 2 * k = length hs" "s + k = 2 ^ Suc d"
  shows "merkle_tree hs (join_trees (Suc d) (first_level s hs))"
proof -
  note leaves = first_level_leaves [OF assms(1) [symmetric]]
  have "fringe (join_trees (Suc d) (first_level s hs)) = hs"
    using fringe_join leaves assms(2) by metis
  moreover have "depths (join_trees (Suc d) (first_level s hs)) =
      replicate s (Suc d) @ replicate (length hs - s) (Suc (Suc d))"
    using depths_join [of "first_level s hs" "Suc d"] leaves assms by (simp flip: assms(1))
  moreover have "s \<le> length hs"
    using assms(1) by simp
  ultimately show ?thesis
    unfolding merkle_tree_def by blast
qed

lemma merkle_tree_1: "merkle_tree [h] (Leaf h)"
  unfolding merkle_tree_def by (intro conjI exI [of _ 0] exI [of _ 1]) simp_all

lemma merkle_tree_2: "merkle_tree [g, h] (Node (Leaf g) (Leaf h))"
  unfolding merkle_tree_def by (intro conjI exI [of _ 1] exI [of _ 2]) (simp_all add: numeral_2_eq_2)

text \<open>For every number of hashes there is one way to build the tree, and its root is the result.\<close>

lemma tree_hash_builds:
  assumes "1 \<le> n" and "n \<le> 2 ^ 28"
  shows "\<exists>build. \<forall>hs. length hs = n \<longrightarrow> tree_hash hs = Some (root (build hs)) \<and> merkle_tree hs (build hs) \<and>
    (\<forall>hs'. length hs' = n \<longrightarrow> same_shape (build hs) (build hs'))"
proof (cases "3 \<le> n")
  case True
  then obtain s k d where skd: "s + 2 * k = n" "s + k = 2 ^ Suc d"
      "\<And>hs. length hs = n \<Longrightarrow> tree_hash hs = Some (root (join_trees (Suc d) (first_level s hs)))"
    using tree_hash_join [OF True assms(2)] by blast
  have "same_shape (join_trees (Suc d) (first_level s hs)) (join_trees (Suc d) (first_level s hs'))"
    if "length hs = n" "length hs' = n" for hs hs'
  proof -
    have len: "length (first_level s hs) = 2 ^ Suc d"
      using first_level_leaves(1) [of hs s k] skd(1,2) that(1) by simp
    then have "first_level s hs \<noteq> []" by auto
    moreover have "length hs = length hs'" using that by simp
    ultimately show ?thesis using same_shape_join [OF same_shape_first_level] len by blast
  qed
  with skd merkle_tree_join show ?thesis
    by (intro exI [of _ "\<lambda>hs. join_trees (Suc d) (first_level s hs)"]) auto
next
  case False
  with assms consider "n = 1" | "n = 2" by linarith
  then show ?thesis
  proof cases
    case 1
    then show ?thesis
      by (intro exI [of _ "\<lambda>hs. Leaf (hd hs)"])
         (auto simp: length_Suc_conv tree_hash_def merkle_tree_1)
  next
    case 2
    then show ?thesis
      by (intro exI [of _ "\<lambda>hs. Node (Leaf (hs ! 0)) (Leaf (hs ! 1))"])
         (auto simp: length_Suc_conv numeral_2_eq_2 tree_hash_def merkle_tree_2)
  qed
qed

lemma tree_hash_binds:
  assumes "length hs = length hs'" and "1 \<le> length hs" and "length hs \<le> 2 ^ 28"
    and "\<forall>h \<in> set hs \<union> set hs'. length h = 32" and "tree_hash hs = tree_hash hs'"
  shows "hs = hs' \<or> (\<exists>t t'. merkle_tree hs t \<and> merkle_tree hs' t' \<and> collision (hashed_pairs t) (hashed_pairs t'))"
proof -
  obtain build where build: "\<And>xs. length xs = length hs \<Longrightarrow> tree_hash xs = Some (root (build xs)) \<and> merkle_tree xs (build xs) \<and>
      (\<forall>ys. length ys = length hs \<longrightarrow> same_shape (build xs) (build ys))"
    using tree_hash_builds [OF assms(2,3)] by blast
  then have "same_shape (build hs) (build hs')" "root (build hs) = root (build hs')"
      "fringe (build hs) = hs" "fringe (build hs') = hs'"
    using assms(1,5) by (auto simp: merkle_tree_def)
  with root_binding [of "build hs" "build hs'"] assms(4) have "hs = hs' \<or> collision (hashed_pairs (build hs)) (hashed_pairs (build hs'))"
    by auto
  with build [of hs] build [of hs'] assms(1) show ?thesis by auto
qed

section \<open>Properties\<close>

text \<open>
  C16. For 1 to \<open>2 ^ 28\<close> transaction hashes, \<^verbatim>\<open>tree_hash\<close> returns the root
  of a binary hash tree whose leaves are the given hashes in order, the first ones at some
  depth \<open>d\<close> and the others at depth \<open>d + 1\<close>: hashing the pairs of each level in place
  in one array computes the Merkle root.
\<close>

theorem tree_hash_is_merkle_root:
  assumes "1 \<le> length hs" and "length hs \<le> 2 ^ 28"
  shows "\<exists>t d k. tree_hash hs = Some (root t) \<and> fringe t = hs \<and>
    k \<le> length hs \<and> depths t = replicate k d @ replicate (length hs - k) (Suc d)"
proof -
  obtain t where "tree_hash hs = Some (root t)" "merkle_tree hs t"
    using tree_hash_builds [OF assms] by blast
  then show ?thesis
    unfolding merkle_tree_def by blast
qed

theorem tree_hash_is_merkle_root_witness:
  "let hs = map (replicate 32) [1, 2, 3, 4, 5] in
     \<exists>t d k. tree_hash hs = Some (root t) \<and> fringe t = hs \<and>
       k \<le> length hs \<and> depths t = replicate k d @ replicate (length hs - k) (Suc d)"
  unfolding Let_def by (rule tree_hash_is_merkle_root) simp_all

text \<open>
  C17. The tree hash binds a block to its transactions: two lists of equally many 32-byte
  hashes with the same tree hash are equal, or among the strings that are hashed for the inner
  nodes of their two trees there are two different ones with the same \<^verbatim>\<open>cn_fast_hash\<close>.
\<close>

theorem tree_hash_binding:
  assumes "length hs = length hs'" and "1 \<le> length hs" and "length hs \<le> 2 ^ 28"
    and "\<forall>h \<in> set hs \<union> set hs'. length h = HASH_SIZE"
    and "tree_hash hs = tree_hash hs'"
  shows "hs = hs' \<or>
    (\<exists>t t'. merkle_tree hs t \<and> merkle_tree hs' t' \<and>
       (\<exists>x \<in> hashed_pairs t. \<exists>y \<in> hashed_pairs t'. x \<noteq> y \<and> cn_fast_hash x = cn_fast_hash y))"
  using tree_hash_binds [OF assms(1-3) _ assms(5)] assms(4) by (simp add: HASH_SIZE_def collision_def)

theorem tree_hash_binding_witness:
  "let h = replicate 32 7; g = replicate 32 9 in
     length [g, h, h] = length [g, h, h] \<and> tree_hash [g, h, h] = tree_hash [g, h, h] \<and>
     ([g, h, h] = [g, h, h] \<or>
      (\<exists>t t'. merkle_tree [g, h, h] t \<and> merkle_tree [g, h, h] t' \<and>
        (\<exists>x \<in> hashed_pairs t. \<exists>y \<in> hashed_pairs t'. x \<noteq> y \<and> cn_fast_hash x = cn_fast_hash y)))"
proof -
  have "[replicate 32 9, replicate 32 7, replicate 32 7] = [replicate 32 9, replicate 32 7, replicate 32 (7 :: byte)] \<or>
      (\<exists>t t'. merkle_tree [replicate 32 9, replicate 32 7, replicate 32 7] t \<and>
        merkle_tree [replicate 32 9, replicate 32 7, replicate 32 7] t' \<and>
        (\<exists>x \<in> hashed_pairs t. \<exists>y \<in> hashed_pairs t'. x \<noteq> y \<and> cn_fast_hash x = cn_fast_hash y))"
    by (rule tree_hash_binding) (auto simp: HASH_SIZE_def)
  then show ?thesis
    unfolding Let_def by blast
qed

end
