(* ===== verification/Block_Reward.thy ===== *)
theory Block_Reward
  imports Int_Util Graft_Config
begin

text \<open>
  Model of \<^verbatim>\<open>get_min_block_weight\<close> and \<^verbatim>\<open>get_block_reward\<close> of
  \<^verbatim>\<open>src/cryptonote_basic/cryptonote_basic_impl.cpp\<close>: the reward of a block, with the
  penalty for a block heavier than the median, computed with 128-bit products and quotients.
\<close>

section \<open>Constants\<close>

definition MONEY_SUPPLY :: u64 where [config_defs]: "MONEY_SUPPLY = - 1"
definition EMISSION_SPEED_FACTOR_PER_MINUTE :: nat where [config_defs]: "EMISSION_SPEED_FACTOR_PER_MINUTE = 20"
definition FINAL_SUBSIDY_PER_MINUTE :: u64 where [config_defs]: "FINAL_SUBSIDY_PER_MINUTE = 3000000000"
definition DIFFICULTY_TARGET_V1 :: nat where [config_defs]: "DIFFICULTY_TARGET_V1 = 60"
definition DIFFICULTY_TARGET_V2 :: nat where [config_defs]: "DIFFICULTY_TARGET_V2 = 120"
definition CRYPTONOTE_BLOCK_GRANTED_FULL_REWARD_ZONE_V1 :: u64 where [config_defs]: "CRYPTONOTE_BLOCK_GRANTED_FULL_REWARD_ZONE_V1 = 20000"
definition CRYPTONOTE_BLOCK_GRANTED_FULL_REWARD_ZONE_V2 :: u64 where [config_defs]: "CRYPTONOTE_BLOCK_GRANTED_FULL_REWARD_ZONE_V2 = 60000"
definition CRYPTONOTE_BLOCK_GRANTED_FULL_REWARD_ZONE_V5 :: u64 where [config_defs]: "CRYPTONOTE_BLOCK_GRANTED_FULL_REWARD_ZONE_V5 = 300000"

section \<open>The reward\<close>

definition get_min_block_weight :: "u8 \<Rightarrow> u64" where
  "get_min_block_weight version =
     (if version < 2 then CRYPTONOTE_BLOCK_GRANTED_FULL_REWARD_ZONE_V1
      else if version < 5 then CRYPTONOTE_BLOCK_GRANTED_FULL_REWARD_ZONE_V2
      else CRYPTONOTE_BLOCK_GRANTED_FULL_REWARD_ZONE_V5)"

text \<open>What the call ends with: the reward, the result false, or an assertion that fails.\<close>

datatype reward_result =
    Reward u64
  | Weight_too_big
  | Assertion_failed

definition first_reward :: u64 where
  "first_reward = 8301030000000000000"

definition base_reward :: "u64 \<Rightarrow> u8 \<Rightarrow> u64" where
  "base_reward already_generated_coins version =
     (let target = (if version < 2 then DIFFICULTY_TARGET_V1 else DIFFICULTY_TARGET_V2);
          target_minutes = target div 60;
          emission_speed_factor = EMISSION_SPEED_FACTOR_PER_MINUTE - (target_minutes - 1);
          base_reward = drop_bit emission_speed_factor (MONEY_SUPPLY - already_generated_coins)
      in if base_reward < FINAL_SUBSIDY_PER_MINUTE * of_nat target_minutes
         then FINAL_SUBSIDY_PER_MINUTE * of_nat target_minutes
         else base_reward)"

definition halve_reward :: "u8 \<Rightarrow> u64 \<Rightarrow> u64" where
  "halve_reward version reward = (if 10 \<le> version then reward div 2 else reward)"

definition get_block_reward :: "u64 \<Rightarrow> u64 \<Rightarrow> u64 \<Rightarrow> u8 \<Rightarrow> reward_result" where
  "get_block_reward median_weight current_block_weight already_generated_coins version =
     (if 6 \<le> version \<and> 0 < median_weight \<and> already_generated_coins < first_reward then Reward first_reward
      else
        let base_reward = base_reward already_generated_coins version;
            full_reward_zone = get_min_block_weight version;
            median_weight = (if median_weight < full_reward_zone then full_reward_zone else median_weight)
        in if current_block_weight \<le> median_weight then Reward (halve_reward version base_reward)
           else if 2 * median_weight < current_block_weight then Weight_too_big
           else if \<not> (median_weight < 0xFFFFFFFF \<and> current_block_weight < 0xFFFFFFFF) then Assertion_failed
           else
             let multiplicand = (2 * median_weight - current_block_weight) * current_block_weight;
                 (product_lo, product_hi) = mul128 base_reward multiplicand;
                 (_, reward_hi, reward_lo) = div128_32 product_hi product_lo (ucast median_weight);
                 (_, reward_hi, reward_lo) = div128_32 reward_hi reward_lo (ucast median_weight)
             in if reward_hi = 0 \<and> reward_lo < base_reward then Reward (halve_reward version reward_lo)
                else Assertion_failed)"

section \<open>The penalty is exact\<close>

lemma base_reward_pos: "0 < unat (base_reward coins version)"
proof -
  have le: "3000000000 \<le> x" if "6000000000 \<le> x" for x :: u64
    using that by (rule order_trans [rotated]) simp
  have "3000000000 \<le> base_reward coins version"
    by (auto simp: base_reward_def config_defs Let_def not_less le)
  then have "unat (3000000000 :: u64) \<le> unat (base_reward coins version)"
    by (simp only: word_le_nat_alt)
  then show ?thesis by simp
qed

lemma div128_32_div:
  assumes "unat v \<noteq> 0" and "div128_32 hi lo v = (r, qhi, qlo)"
  shows "unat qhi * 2 ^ 64 + unat qlo = (unat hi * 2 ^ 64 + unat lo) div unat v"
proof -
  have "v \<noteq> 0" using assms(1) by auto
  from div128_32_exact [OF this assms(2)] show ?thesis
    using assms(1) by (metis add.commute add_0 div_less div_mult_self3)
qed

lemma penalty_product_less:
  fixes b m w :: nat
  assumes "0 < b" and "m < w" and "w \<le> 2 * m"
  shows "(b * ((2 * m - w) * w)) div m div m < b"
proof -
  obtain d where d: "w = m + d" "0 < d" "d \<le> m"
    using assms(2,3) by (metis add_diff_inverse_nat add_le_cancel_left less_imp_le_nat linorder_not_le mult_2 zero_less_diff)
  obtain e where e: "m = d + e"
    using d(3) le_Suc_ex by blast
  have "(2 * m - w) * w = e * (2 * d + e)"
    by (simp add: d(1) e)
  also have "\<dots> < m * m"
    using d(2) by (simp add: e algebra_simps)
  finally have "b * ((2 * m - w) * w) < b * (m * m)"
    using assms(1) by simp
  then have "b * ((2 * m - w) * w) div (m * m) < b"
    by (simp add: less_mult_imp_div_less)
  then show ?thesis
    by (simp add: div_mult2_eq)
qed

lemma penalized_reward:
  fixes b m w :: u64
  assumes "0 < unat b" and "m < w" and "w \<le> 2 * m" and "unat m < 2 ^ 32 - 1" and "unat w < 2 ^ 32 - 1"
    and "mul128 b ((2 * m - w) * w) = (plo, phi)"
    and "div128_32 phi plo (ucast m) = (r1, hi1, lo1)" and "div128_32 hi1 lo1 (ucast m) = (r2, hi2, lo2)"
  shows "hi2 = 0" and "unat lo2 = unat b * ((2 * unat m - unat w) * unat w) div unat m ^ 2" and "lo2 < b"
proof -
  let ?p = "unat b * ((2 * unat m - unat w) * unat w)"
  have m2: "unat (2 * m) = 2 * unat m"
    using assms(4) by (simp add: unat_word_ariths)
  have mw: "unat m < unat w" "unat w \<le> 2 * unat m"
    using assms(2,3) by (simp_all add: word_less_nat_alt word_le_nat_alt m2)
  have sub: "unat (2 * m - w) = 2 * unat m - unat w"
    using unat_sub [OF assms(3)] m2 by simp
  have "unat (2 * m - w) * unat w < 2 ^ 32 * 2 ^ 32"
    using assms(4,5) mw sub by (intro mult_strict_mono) auto
  then have mult: "unat ((2 * m - w) * w) = (2 * unat m - unat w) * unat w"
    by (simp add: unat_word_ariths sub)
  have um: "unat (ucast m :: u32) = unat m"
    using assms(4) by (simp add: unsigned_ucast_eq take_bit_nat_eq_self)
  have nz: "unat (ucast m :: u32) \<noteq> 0"
    using mw um by simp
  have "unat phi * 2 ^ 64 + unat plo = ?p"
    using mul128_exact [of b "(2 * m - w) * w"] assms(6) mult by simp
  then have "unat hi2 * 2 ^ 64 + unat lo2 = ?p div unat m div unat m"
    using div128_32_div [OF nz assms(7)] div128_32_div [OF nz assms(8)] um by simp
  moreover have lt: "?p div unat m div unat m < unat b"
    using penalty_product_less [OF assms(1) mw] .
  ultimately have hi: "unat hi2 * 2 ^ 64 + unat lo2 < 2 ^ 64"
    using unat_lt64 [of b] by simp
  then have "unat hi2 = 0"
    by (cases "unat hi2") simp_all
  then show "hi2 = 0" "unat lo2 = ?p div unat m ^ 2" "lo2 < b"
    using \<open>unat hi2 * 2 ^ 64 + unat lo2 = ?p div unat m div unat m\<close> lt
    by (simp_all add: unat_eq_0 div_mult2_eq power2_eq_square word_less_nat_alt)
qed

section \<open>Properties\<close>



end
