(* ===== verification/Difficulty.thy ===== *)
theory Difficulty
  imports Int_Util Keccak
begin

text \<open>
  Model of \<^verbatim>\<open>src/cryptonote_basic/difficulty.cpp\<close>: the test of a proof of work
  against a difficulty and the difficulty of the next block before version 8. The later
  algorithms compute with floating point numbers and are not modelled.
\<close>

unbundle bit_operations_syntax

section \<open>The test of a proof of work\<close>

text \<open>The portable product; on x86-64 the code calls \<open>mul128\<close>. The results are the low and the high word.\<close>

definition mul_portable :: "u64 \<Rightarrow> u64 \<Rightarrow> u64 \<times> u64" where
  "mul_portable a b =
     (let aLow = a AND 0xFFFFFFFF;
          aHigh = drop_bit 32 a;
          bLow = b AND 0xFFFFFFFF;
          bHigh = drop_bit 32 b;
          res = aLow * bLow;
          lowRes1 = res AND 0xFFFFFFFF;
          carry = drop_bit 32 res;
          res = aHigh * bLow + carry;
          highResHigh1 = drop_bit 32 res;
          highResLow1 = res AND 0xFFFFFFFF;
          res = aLow * bHigh;
          lowRes2 = res AND 0xFFFFFFFF;
          carry = drop_bit 32 res;
          res = aHigh * bHigh + carry;
          highResHigh2 = drop_bit 32 res;
          highResLow2 = res AND 0xFFFFFFFF;
          r = highResLow1 + lowRes2;
          carry = drop_bit 32 r;
          low = push_bit 32 r OR lowRes1;
          r = highResHigh1 + highResLow2 + carry;
          d3 = r AND 0xFFFFFFFF;
          carry = drop_bit 32 r;
          r = highResHigh2 + carry;
          high = d3 OR push_bit 32 r
      in (low, high))"

definition cadd :: "u64 \<Rightarrow> u64 \<Rightarrow> bool" where
  "cadd a b = (a + b < a)"

definition cadc :: "u64 \<Rightarrow> u64 \<Rightarrow> bool \<Rightarrow> bool" where
  "cadc a b c = (a + b < a \<or> (c \<and> a + b = - 1))"

text \<open>The difficulty is a 64-bit integer; \<open>word_at\<close> reads a little-endian word of the hash.\<close>

definition check_hash :: "hash \<Rightarrow> u64 \<Rightarrow> bool" where
  "check_hash hash difficulty =
     (let (top, high) = mul128 (word_at hash 3) difficulty
      in if high \<noteq> 0 then False
         else
           let (low, cur) = mul128 (word_at hash 0) difficulty;
               (low, high) = mul128 (word_at hash 1) difficulty;
               carry = cadd cur low;
               cur = high;
               (low, high) = mul128 (word_at hash 2) difficulty;
               carry = cadc cur low carry;
               carry = cadc high top carry
           in \<not> carry)"

section \<open>The next difficulty\<close>

definition DIFFICULTY_WINDOW :: nat where "DIFFICULTY_WINDOW = 720"
definition DIFFICULTY_CUT :: nat where "DIFFICULTY_CUT = 60"

text \<open>The part of the sorted timestamps that counts.\<close>

definition cut_bounds :: "nat \<Rightarrow> nat \<times> nat" where
  "cut_bounds len =
     (if len \<le> DIFFICULTY_WINDOW - 2 * DIFFICULTY_CUT then (0, len)
      else
        let cut_begin = (len - (DIFFICULTY_WINDOW - 2 * DIFFICULTY_CUT) + 1) div 2
        in (cut_begin, cut_begin + (DIFFICULTY_WINDOW - 2 * DIFFICULTY_CUT)))"

text \<open>An assertion that fails is the result \<open>None\<close>.\<close>

definition next_difficulty :: "u64 list \<Rightarrow> u64 list \<Rightarrow> u64 \<Rightarrow> u64 option" where
  "next_difficulty timestamps cumulative_difficulties target_seconds =
     (let (timestamps, cumulative_difficulties) =
            (if DIFFICULTY_WINDOW < length timestamps
             then (take DIFFICULTY_WINDOW timestamps, take DIFFICULTY_WINDOW cumulative_difficulties)
             else (timestamps, cumulative_difficulties));
          len = length timestamps
      in if len \<noteq> length cumulative_difficulties then None
         else if len \<le> 1 then Some 1
         else
           let timestamps = sort timestamps;
               (cut_begin, cut_end) = cut_bounds len;
               time_span = timestamps ! (cut_end - 1) - timestamps ! cut_begin;
               time_span = (if time_span = 0 then 1 else time_span);
               total_work = cumulative_difficulties ! (cut_end - 1) - cumulative_difficulties ! cut_begin
           in if \<not> 0 < total_work then None
              else
                let (low, high) = mul128 total_work target_seconds
                in if high \<noteq> 0 \<or> low + time_span - 1 < low then Some 0
                   else Some ((low + time_span - 1) div time_span))"

section \<open>The value of a hash\<close>

fun le_value :: "byte list \<Rightarrow> nat" where
  "le_value [] = 0"
| "le_value (b # bs) = unat b + 256 * le_value bs"

lemma le_value_append: "le_value (xs @ ys) = le_value xs + 256 ^ length xs * le_value ys"
  by (induction xs) (simp_all add: algebra_simps)

lemma le_value_less: "le_value bs < 256 ^ length bs"
proof (induction bs)
  case (Cons b bs)
  have "unat b < 256"
    using unsigned_less [of b, where ?'a = nat] by simp
  with Cons show ?case by simp
qed simp

lemma unat_or_push_8:
  fixes w :: u64 and b :: byte
  assumes "unat w < 2 ^ 56"
  shows "unat (ucast b OR push_bit 8 w) = unat b + 256 * unat w"
proof -
  have b: "unat (ucast b :: u64) = unat b" "unat b < 256"
    using unsigned_less [of b, where ?'a = nat] by (simp_all add: unsigned_ucast_eq take_bit_nat_eq_self)
  have "(ucast b :: u64) AND push_bit 8 w = 0"
    by (rule bit_word_eqI) (auto simp: bit_simps dest: bit_imp_le_length)
  then have "ucast b OR push_bit 8 w = ucast b + push_bit 8 w"
    by (rule disjunctive_add_eq_or [symmetric])
  moreover have "unat (push_bit 8 w) = 256 * unat w"
    using assms by (simp add: push_bit_eq_mult unat_word_ariths mult.commute)
  ultimately show ?thesis
    using assms b by (simp add: unat_word_ariths)
qed

lemma unat_le_word:
  "length bs \<le> 8 \<Longrightarrow> unat (foldr (\<lambda>b w. ucast b OR push_bit 8 w) bs (0 :: u64)) = le_value bs"
proof (induction bs)
  case (Cons b bs)
  have "(256 :: nat) ^ length bs \<le> 256 ^ 7"
    using Cons.prems by (intro power_increasing) simp_all
  then have "le_value bs < 2 ^ 56"
    using le_value_less [of bs] by simp
  with Cons show ?case
    by (simp add: unat_or_push_8)
qed simp

lemma unat_word_at: "unat (word_at bs i) = le_value (take 8 (drop (8 * i) bs))"
  by (simp add: word_at_def unat_le_word)

lemma le_value_words:
  assumes "length h = 32"
  shows "le_value h = unat (word_at h 0) + 2 ^ 64 * (unat (word_at h 1) + 2 ^ 64 * (unat (word_at h 2) + 2 ^ 64 * unat (word_at h 3)))"
proof -
  have split: "le_value bs = le_value (take 8 bs) + 2 ^ 64 * le_value (drop 8 bs)" if "8 \<le> length bs" for bs
    using le_value_append [of "take 8 bs" "drop 8 bs"] that by simp
  show ?thesis
    using split [of h] split [of "drop 8 h"] split [of "drop 16 h"] assms
    by (simp add: unat_word_at)
qed

section \<open>Carries\<close>

lemma mul128_split: "mul128 x y = (lo, hi) \<Longrightarrow> unat x * unat y = unat hi * 2 ^ 64 + unat lo"
  using mul128_exact [of x y] by simp

lemma cadd_iff: "cadd a b \<longleftrightarrow> 2 ^ 64 \<le> unat a + unat b"
  using unat_add_carry [of a b] unat_lt64 [of "a + b"] unat_lt64 [of a] unat_lt64 [of b]
  by (auto simp: cadd_def split: if_splits)

lemma cadc_iff: "cadc a b c \<longleftrightarrow> 2 ^ 64 \<le> unat a + unat b + of_bool c"
proof -
  have "a + b = - 1 \<longleftrightarrow> unat (a + b) = 2 ^ 64 - 1"
    by (simp add: word_unat_eq_iff unsigned_minus_1_eq_mask mask_eq_exp_minus_1)
  then show ?thesis
    using unat_add_carry [of a b] unat_lt64 [of "a + b"] unat_lt64 [of a] unat_lt64 [of b]
    by (auto simp: cadc_def split: if_splits)
qed

lemma carry_step:
  fixes s Z Y :: nat
  assumes "s < 2 * 2 ^ 64"
  shows "s + 2 ^ 64 * Z < 2 ^ 64 * Y \<longleftrightarrow> Z + of_bool (2 ^ 64 \<le> s) < Y"
proof (cases "2 ^ 64 \<le> s")
  case True
  then obtain r where "s = 2 ^ 64 + r"
    using le_Suc_ex by blast
  with assms show ?thesis by simp arith
next
  case False
  then show ?thesis by simp arith
qed

lemma carry_chain:
  fixes l0 c0 l1 c1 l2 c2 l3 c3 :: nat
  assumes "l0 < 2 ^ 64" "c0 < 2 ^ 64" "l1 < 2 ^ 64" "c1 < 2 ^ 64" "l2 < 2 ^ 64"
    and s: "k1 \<longleftrightarrow> 2 ^ 64 \<le> c0 + l1" "k2 \<longleftrightarrow> 2 ^ 64 \<le> c1 + l2 + of_bool k1" "k3 \<longleftrightarrow> 2 ^ 64 \<le> c2 + l3 + of_bool k2"
  shows "l0 + 2 ^ 64 * (c0 + l1 + 2 ^ 64 * (c1 + l2 + 2 ^ 64 * (c2 + l3 + 2 ^ 64 * c3))) < 2 ^ 256 \<longleftrightarrow> c3 = 0 \<and> \<not> k3"
proof -
  let ?B = "2 ^ 64 :: nat"
  have e: "(2 :: nat) ^ 256 = ?B * (?B * (?B * ?B))"
    by simp
  have z: "of_bool (?B \<le> l0) = (0 :: nat)"
    using assms(1) by simp
  have "l0 + ?B * (c0 + l1 + ?B * (c1 + l2 + ?B * (c2 + l3 + ?B * c3))) < 2 ^ 256 \<longleftrightarrow>
      c0 + l1 + ?B * (c1 + l2 + ?B * (c2 + l3 + ?B * c3)) < ?B * (?B * ?B)"
    unfolding e using assms(1) by (intro carry_step [of l0, unfolded z add_0_right]) simp
  also have "\<dots> \<longleftrightarrow> c1 + l2 + ?B * (c2 + l3 + ?B * c3) + of_bool k1 < ?B * ?B"
    unfolding s(1) using assms(2,3) by (intro carry_step) simp
  also have "\<dots> \<longleftrightarrow> (c1 + l2 + of_bool k1) + ?B * (c2 + l3 + ?B * c3) < ?B * ?B"
    by (simp add: ac_simps)
  also have "\<dots> \<longleftrightarrow> c2 + l3 + ?B * c3 + of_bool k2 < ?B"
    unfolding s(2) using assms(4,5) by (intro carry_step) (simp add: of_bool_def)
  also have "\<dots> \<longleftrightarrow> c3 = 0 \<and> \<not> k3"
    unfolding s(3) by (cases c3) auto
  finally show ?thesis .
qed

lemma round_up_sum:
  fixes low sp :: u64
  assumes "sp \<noteq> 0"
  shows "low + sp - 1 < low \<longleftrightarrow> 2 ^ 64 \<le> unat low + unat sp - 1"
    and "\<not> low + sp - 1 < low \<Longrightarrow> unat (low + sp - 1) = unat low + unat sp - 1"
proof -
  have e: "low + sp - 1 = low + (sp - 1)" by simp
  have "unat (sp - 1) = unat sp - 1" "0 < unat sp"
    using assms by (simp_all add: unat_dec_pos unat_gt_0)
  then show "low + sp - 1 < low \<longleftrightarrow> 2 ^ 64 \<le> unat low + unat sp - 1"
    and "\<not> low + sp - 1 < low \<Longrightarrow> unat (low + sp - 1) = unat low + unat sp - 1"
    using unat_add_carry [of low "sp - 1"] unat_lt64 [of "low + (sp - 1)"] unfolding e by (auto split: if_splits)
qed

lemma ceiling_quotient:
  fixes wk target sp low high :: u64
  assumes m: "mul128 wk target = (low, high)" and sp: "sp \<noteq> 0" and pos: "0 < unat wk * unat target"
    and D: "D = (if high \<noteq> 0 \<or> low + sp - 1 < low then 0 else (low + sp - 1) div sp)"
  shows "if unat wk * unat target + unat sp - 1 < 2 ^ 64
    then unat D = (unat wk * unat target + unat sp - 1) div unat sp \<and> 0 < unat D else D = 0"
proof -
  have prod: "unat wk * unat target = unat high * 2 ^ 64 + unat low"
    using mul128_split [OF m] .
  have "0 < unat sp" using sp by (simp add: unat_gt_0)
  show ?thesis
  proof (cases "high = 0")
    case False
    then have "2 ^ 64 \<le> unat high * 2 ^ 64"
      by (simp add: unat_gt_0 Suc_le_eq)
    with False \<open>0 < unat sp\<close> show ?thesis by (simp add: prod D)
  next
    case True
    then have low: "unat wk * unat target = unat low"
      using prod by simp
    show ?thesis
    proof (cases "low + sp - 1 < low")
      case over: True
      then show ?thesis using round_up_sum(1) [OF sp, of low] by (simp add: low D)
    next
      case fits: False
      have "unat sp \<le> unat low + unat sp - 1" using pos low by simp
      then have "0 < (unat low + unat sp - 1) div unat sp"
        using \<open>0 < unat sp\<close> by (simp add: div_greater_zero_iff)
      then show ?thesis
        using round_up_sum [OF sp, of low] fits True by (simp add: low D unat_div)
    qed
  qed
qed

section \<open>The portable product\<close>

lemma dword_split: "unat x = unat (hi_dword x) * 2 ^ 32 + unat (lo_dword x)"
  unfolding unat_hi_dword unat_lo_dword by simp

lemma unat_dwords_less: "unat (hi_dword x) < 2 ^ 32" "unat (lo_dword x) < 2 ^ 32"
  using unat_lt64 [of x] by (simp_all add: unat_hi_dword unat_lo_dword)

lemma unat_mult_add_dwords:
  fixes x y c :: u64
  assumes "unat x < 2 ^ 32" and "unat y < 2 ^ 32" and "unat c < 2 ^ 32"
  shows "unat (x * y + c) = unat x * unat y + unat c"
proof -
  have "unat x * unat y \<le> (2 ^ 32 - 1) * (2 ^ 32 - 1)"
    using assms(1,2) by (intro mult_mono) auto
  then have "unat x * unat y + unat c < 2 ^ 64"
    using assms(3) by simp
  then show ?thesis
    using unat_mult_dwords [OF assms(1,2)] by (simp add: unat_word_ariths)
qed

lemma portable_sum:
  fixes aH aL bH bL c1 l1 hh1 hl1 c2 l2 hh2 hl2 k3 t0 k4 d3 B :: nat
  assumes "aL * bL = c1 * B + l1" "aH * bL + c1 = hh1 * B + hl1" "aL * bH = c2 * B + l2" "aH * bH + c2 = hh2 * B + hl2"
    and "hl1 + l2 = k3 * B + t0" "hh1 + hl2 + k3 = k4 * B + d3"
  shows "(aH * B + aL) * (bH * B + bL) = ((hh2 + k4) * B + d3) * (B * B) + (t0 * B + l1)"
proof -
  have "int ((aH * B + aL) * (bH * B + bL)) =
      int (aH * bH) * (int B * int B) + (int (aH * bL) + int (aL * bH)) * int B + int (aL * bL)"
    by (simp add: algebra_simps)
  also have "int (aH * bH) = int hh2 * int B + int hl2 - int c2" using arg_cong [OF assms(4), of int] by simp
  also have "int (aH * bL) = int hh1 * int B + int hl1 - int c1" using arg_cong [OF assms(2), of int] by simp
  also have "int (aL * bH) = int c2 * int B + int l2" using arg_cong [OF assms(3), of int] by simp
  also have "int (aL * bL) = int c1 * int B + int l1" using arg_cong [OF assms(1), of int] by simp
  also have "(int hh2 * int B + int hl2 - int c2) * (int B * int B) +
      (int hh1 * int B + int hl1 - int c1 + (int c2 * int B + int l2)) * int B + (int c1 * int B + int l1) =
      (int hh2 * int B + (int hh1 + int hl2)) * (int B * int B) + (int hl1 + int l2) * int B + int l1"
    by (simp add: algebra_simps)
  also have "int hl1 + int l2 = int k3 * int B + int t0" using arg_cong [OF assms(5), of int] by simp
  also have "int hh1 + int hl2 = int k4 * int B + int d3 - int k3" using arg_cong [OF assms(6), of int] by simp
  also have "(int hh2 * int B + (int k4 * int B + int d3 - int k3)) * (int B * int B) + (int k3 * int B + int t0) * int B + int l1 =
      int (((hh2 + k4) * B + d3) * (B * B) + (t0 * B + l1))"
    by (simp add: algebra_simps)
  finally show ?thesis by (simp only: of_nat_eq_iff)
qed

lemma mul_portable_exact:
  "(case mul_portable a b of (low, high) \<Rightarrow> unat high * 2 ^ 64 + unat low) = unat a * unat b"
proof -
  define p where "p = lo_dword a * lo_dword b"
  define q where "q = hi_dword a * lo_dword b + hi_dword p"
  define r where "r = lo_dword a * hi_dword b"
  define s where "s = hi_dword a * hi_dword b + hi_dword r"
  define t where "t = lo_dword q + lo_dword r"
  define u where "u = hi_dword q + lo_dword s + hi_dword t"
  define v where "v = hi_dword s + hi_dword u"
  note lt = unat_dwords_less
  have up: "unat p = unat (lo_dword a) * unat (lo_dword b)" "unat r = unat (lo_dword a) * unat (hi_dword b)"
    unfolding p_def r_def by (intro unat_mult_dwords lt)+
  have uq: "unat q = unat (hi_dword a) * unat (lo_dword b) + unat (hi_dword p)"
      "unat s = unat (hi_dword a) * unat (hi_dword b) + unat (hi_dword r)"
    unfolding q_def s_def by (intro unat_mult_add_dwords lt)+
  have ut: "unat t = unat (lo_dword q) + unat (lo_dword r)"
    using lt(2) [of q] lt(2) [of r] by (simp add: t_def unat_word_ariths)
  have uu: "unat u = unat (hi_dword q) + unat (lo_dword s) + unat (hi_dword t)"
    using lt(1) [of q] lt(2) [of s] lt(1) [of t] by (simp add: u_def unat_word_ariths)
  have uv: "unat v = unat (hi_dword s) + unat (hi_dword u)"
    using lt(1) [of s] lt(1) [of u] by (simp add: v_def unat_word_ariths)
  have total: "unat a * unat b = (unat v * 2 ^ 32 + unat (lo_dword u)) * (2 ^ 32 * 2 ^ 32) + (unat (lo_dword t) * 2 ^ 32 + unat (lo_dword p))"
    unfolding dword_split [of a] dword_split [of b] uv
    by (rule portable_sum [where ?c1.0 = "unat (hi_dword p)" and ?hh1.0 = "unat (hi_dword q)" and ?hl1.0 = "unat (lo_dword q)"
          and ?c2.0 = "unat (hi_dword r)" and ?l2.0 = "unat (lo_dword r)" and ?hl2.0 = "unat (lo_dword s)" and ?k3.0 = "unat (hi_dword t)"])
      (simp_all only: up [symmetric] uq [symmetric] ut [symmetric] uu [symmetric] dword_split [symmetric])
  have "unat a * unat b < 2 ^ 64 * 2 ^ 64"
    using unat_lt64 [of a] unat_lt64 [of b] by (intro mult_strict_mono) auto
  then have v: "unat v < 2 ^ 32"
    using total by simp
  have hi: "unat (push_bit 32 v OR lo_dword u) = unat v * 2 ^ 32 + unat (lo_dword u)"
    by (rule or_push_bit_32 [OF lt(2) v])
  have tl: "push_bit 32 t = push_bit 32 (lo_dword t)"
  proof -
    have "lo_dword t = take_bit 32 t"
      by (simp add: lo_dword_def take_bit_eq_mask mask_numeral)
    then show ?thesis
      by (simp only:) (rule bit_word_eqI, auto simp: bit_simps)
  qed
  have lo: "unat (push_bit 32 t OR lo_dword p) = unat (lo_dword t) * 2 ^ 32 + unat (lo_dword p)"
    unfolding tl by (rule or_push_bit_32 [OF lt(2) lt(2)])
  have "mul_portable a b = (push_bit 32 t OR lo_dword p, lo_dword u OR push_bit 32 v)"
    unfolding mul_portable_def Let_def lo_dword_def [symmetric] hi_dword_def [symmetric]
    by (simp only: p_def q_def r_def s_def t_def u_def v_def)
  then show ?thesis
    using hi lo total by (simp add: or.commute)
qed

lemma mul_portable_mul128: "mul_portable a b = mul128 a b"
proof -
  obtain l h l' h' where e: "mul_portable a b = (l, h)" "mul128 a b = (l', h')" by fastforce
  then have "unat h * 2 ^ 64 + unat l = unat h' * 2 ^ 64 + unat l'"
    using mul_portable_exact [of a b] mul128_exact [of a b] by simp
  then have "(unat h * 2 ^ 64 + unat l) div 2 ^ 64 = (unat h' * 2 ^ 64 + unat l') div 2 ^ 64"
    "(unat h * 2 ^ 64 + unat l) mod 2 ^ 64 = (unat h' * 2 ^ 64 + unat l') mod 2 ^ 64"
    by simp_all
  then have "unat h = unat h'" "unat l = unat l'"
    using unat_lt64 [of l] unat_lt64 [of l'] by simp_all
  with e show ?thesis by (simp add: word_unat_eq_iff)
qed

section \<open>Properties\<close>

text \<open>
  C32. A proof of work is accepted exactly if the product of the hash, read as a 256-bit
  little-endian number, and the difficulty is below 2^256.
\<close>

theorem check_hash_iff:
  assumes "length hash = 32"
  shows "check_hash hash difficulty \<longleftrightarrow> le_value hash * unat difficulty < 2 ^ 256"
proof -
  let ?d = "unat difficulty"
  obtain l0 c0 l1 c1 l2 c2 l3 c3 where m: "mul128 (word_at hash 0) difficulty = (l0, c0)"
    "mul128 (word_at hash 1) difficulty = (l1, c1)" "mul128 (word_at hash 2) difficulty = (l2, c2)"
    "mul128 (word_at hash 3) difficulty = (l3, c3)"
    by (metis surj_pair)
  define k1 where "k1 = cadd c0 l1"
  define k2 where "k2 = cadc c1 l2 k1"
  define k3 where "k3 = cadc c2 l3 k2"
  have "check_hash hash difficulty \<longleftrightarrow> unat c3 = 0 \<and> \<not> k3"
    by (simp add: check_hash_def m k1_def k2_def k3_def unat_eq_0 Let_def del: One_nat_def)
  also have "\<dots> \<longleftrightarrow> unat l0 + 2 ^ 64 * (unat c0 + unat l1 + 2 ^ 64 * (unat c1 + unat l2 +
      2 ^ 64 * (unat c2 + unat l3 + 2 ^ 64 * unat c3))) < 2 ^ 256"
    by (intro carry_chain [symmetric] unat_lt64) (simp_all add: k1_def k2_def k3_def cadd_iff cadc_iff)
  also have "unat l0 + 2 ^ 64 * (unat c0 + unat l1 + 2 ^ 64 * (unat c1 + unat l2 +
      2 ^ 64 * (unat c2 + unat l3 + 2 ^ 64 * unat c3))) = le_value hash * ?d"
    using m [THEN mul128_split] unfolding le_value_words [OF assms] distrib_right mult.assoc by (simp add: algebra_simps)
  finally show ?thesis .
qed


section \<open>Witnesses\<close>

theorem check_hash_iff_witness:
  "check_hash (replicate 31 0 @ [1]) 255 \<and> \<not> check_hash (replicate 31 0 @ [1]) 256"
proof -
  have zeros: "le_value (replicate n 0) = 0" for n
    by (induction n) simp_all
  have v: "le_value (replicate 31 0 @ [1]) = 2 ^ 248"
    unfolding le_value_append zeros by simp
  have "length (replicate 31 0 @ [1 :: byte]) = 32"
    by simp
  note check = check_hash_iff [OF this, unfolded v]
  show ?thesis
    unfolding check by simp
qed


end
