(* ===== verification/Hard_Fork.thy ===== *)
theory Hard_Fork
  imports Transaction
begin

text \<open>
  Model of \<^verbatim>\<open>src/cryptonote_basic/hardfork.{h,cpp}\<close>: the versions of the protocol, the
  votes of the last blocks, and the version that is in force, which is recorded in the database
  for every block. The database is seen as the list of its blocks and the map of the recorded
  versions. The tables of forks are those of
  \<^verbatim>\<open>src/cryptonote_core/blockchain.cpp\<close>.
\<close>

section \<open>State\<close>

record fork_params =
  fp_version :: u8
  fp_threshold :: u8
  fp_height :: u64
  fp_time :: int

text \<open>
  \<open>last_versions\<close> is the array of 256 counters; the index of the current fork is a
  natural number, of which there are at most 256.
\<close>

record hard_fork =
  hf_blocks :: "block list"
  hf_recorded :: "u64 \<rightharpoonup> u8"
  hf_forked_time :: int
  hf_update_time :: int
  hf_window_size :: u64
  hf_default_threshold_percent :: u8
  hf_original_version :: u8
  hf_original_version_till_height :: u64
  hf_heights :: "fork_params list"
  hf_versions :: "u8 list"
  hf_last_versions :: "u8 \<Rightarrow> u32"
  hf_current_fork_index :: nat

definition db_height :: "hard_fork \<Rightarrow> u64" where
  "db_height hf = of_nat (length (hf_blocks hf))"

definition get_block_vote :: "block \<Rightarrow> u8" where
  "get_block_vote b = (if minor_version b = 0 then 1 else minor_version b)"

definition get_block_version :: "block \<Rightarrow> u8" where
  "get_block_version b = major_version b"

text \<open>The constructor; \<open>None\<close> if it throws. The members it does not set have their values after \<open>init\<close>.\<close>

definition new_hard_fork ::
  "block list \<Rightarrow> (u64 \<rightharpoonup> u8) \<Rightarrow> u8 \<Rightarrow> u64 \<Rightarrow> int \<Rightarrow> int \<Rightarrow> u64 \<Rightarrow> u8 \<Rightarrow> hard_fork option" where
  "new_hard_fork blocks recorded original_version till_height forked_time update_time window_size default_threshold_percent =
     (if window_size = 0 then None
      else if 100 < default_threshold_percent then None
      else Some
        \<lparr>hf_blocks = blocks, hf_recorded = recorded, hf_forked_time = forked_time, hf_update_time = update_time,
         hf_window_size = window_size, hf_default_threshold_percent = default_threshold_percent,
         hf_original_version = original_version, hf_original_version_till_height = till_height,
         hf_heights = [], hf_versions = [], hf_last_versions = (\<lambda>_. 0), hf_current_fork_index = 0\<rparr>)"

text \<open>The version of a block of the database.\<close>

definition block_version_at :: "hard_fork \<Rightarrow> u64 \<Rightarrow> u8" where
  "block_version_at hf height =
     (if height \<le> hf_original_version_till_height hf then hf_original_version hf
      else get_block_version (hf_blocks hf ! unat height))"

section \<open>Forks and votes\<close>

definition add_fork :: "u8 \<Rightarrow> u64 \<Rightarrow> u8 \<Rightarrow> int \<Rightarrow> hard_fork \<Rightarrow> bool \<times> hard_fork" where
  "add_fork v height threshold time hf =
     (if v = 0 then (False, hf)
      else if hf_heights hf \<noteq> [] \<and> v \<le> fp_version (last (hf_heights hf)) then (False, hf)
      else if hf_heights hf \<noteq> [] \<and> height \<le> fp_height (last (hf_heights hf)) then (False, hf)
      else if hf_heights hf \<noteq> [] \<and> time \<le> fp_time (last (hf_heights hf)) then (False, hf)
      else if 100 < threshold then (False, hf)
      else
        (True, hf\<lparr>hf_heights := hf_heights hf @
           [\<lparr>fp_version = v, fp_threshold = threshold, fp_height = height, fp_time = time\<rparr>]\<rparr>))"

definition add_fork_default :: "u8 \<Rightarrow> u64 \<Rightarrow> int \<Rightarrow> hard_fork \<Rightarrow> bool \<times> hard_fork" where
  "add_fork_default v height time hf = add_fork v height (hf_default_threshold_percent hf) time hf"

definition get_effective_version :: "hard_fork \<Rightarrow> u8 \<Rightarrow> u8" where
  "get_effective_version hf voting_version =
     (if hf_heights hf \<noteq> []
      then
        let max_version = fp_version (last (hf_heights hf))
        in if max_version < voting_version then max_version else voting_version
      else voting_version)"

definition fork_threshold :: "hard_fork \<Rightarrow> fork_params \<Rightarrow> u32" where
  "fork_threshold hf p = ucast ((hf_window_size hf * ucast (fp_threshold p) + 99) div 100)"

text \<open>The loop of \<open>get_voted_fork_index\<close>, from the newest fork down to the current one.\<close>

fun voted_loop :: "hard_fork \<Rightarrow> u64 \<Rightarrow> nat \<Rightarrow> u32 \<Rightarrow> nat" where
  "voted_loop hf height 0 accumulated_votes = hf_current_fork_index hf"
| "voted_loop hf height (Suc n) accumulated_votes =
     (if hf_current_fork_index hf < Suc n
      then
        let p = hf_heights hf ! Suc n;
            accumulated_votes = accumulated_votes + hf_last_versions hf (fp_version p)
        in if fp_height p \<le> height \<and> fork_threshold hf p \<le> accumulated_votes then Suc n
           else voted_loop hf height n accumulated_votes
      else hf_current_fork_index hf)"

definition get_voted_fork_index :: "hard_fork \<Rightarrow> u64 \<Rightarrow> nat" where
  "get_voted_fork_index hf height = voted_loop hf height (length (hf_heights hf) - 1) 0"

definition current_params :: "hard_fork \<Rightarrow> fork_params" where
  "current_params hf = hf_heights hf ! hf_current_fork_index hf"

definition do_check :: "hard_fork \<Rightarrow> u8 \<Rightarrow> u8 \<Rightarrow> bool" where
  "do_check hf block_version voting_version \<longleftrightarrow>
     block_version = fp_version (current_params hf) \<and> fp_version (current_params hf) \<le> voting_version"

definition check :: "hard_fork \<Rightarrow> block \<Rightarrow> bool" where
  "check hf b = do_check hf (get_block_version b) (get_block_vote b)"

definition do_check_for_height :: "hard_fork \<Rightarrow> u8 \<Rightarrow> u8 \<Rightarrow> u64 \<Rightarrow> bool" where
  "do_check_for_height hf block_version voting_version height =
     (let fork_index = get_voted_fork_index hf height
      in block_version = fp_version (hf_heights hf ! fork_index) \<and> fp_version (hf_heights hf ! fork_index) \<le> voting_version)"

definition check_for_height :: "hard_fork \<Rightarrow> block \<Rightarrow> u64 \<Rightarrow> bool" where
  "check_for_height hf b height = do_check_for_height hf (get_block_version b) (get_block_vote b) height"

text \<open>\<open>uint8_t voted = get_voted_fork_index(height)\<close> and the update of the current index.\<close>

definition apply_voted :: "u64 \<Rightarrow> hard_fork \<Rightarrow> hard_fork" where
  "apply_voted height hf =
     (let voted = get_voted_fork_index hf height mod 256
      in if hf_current_fork_index hf < voted then hf\<lparr>hf_current_fork_index := voted\<rparr> else hf)"

text \<open>
  Pushing a vote, and dropping the oldest votes while the window is full. The constructor ensures
  that the size of the window is not 0.
\<close>

definition push_vote :: "u8 \<Rightarrow> hard_fork \<Rightarrow> hard_fork" where
  "push_vote v hf =
     hf\<lparr>hf_last_versions := (hf_last_versions hf)(v := hf_last_versions hf v + 1), hf_versions := hf_versions hf @ [v]\<rparr>"

function drop_votes :: "hard_fork \<Rightarrow> hard_fork" where
  "drop_votes hf =
     (if hf_window_size hf \<noteq> 0 \<and> unat (hf_window_size hf) \<le> length (hf_versions hf)
      then
        let old_version = hd (hf_versions hf)
        in drop_votes
             (hf\<lparr>hf_last_versions := (hf_last_versions hf)(old_version := hf_last_versions hf old_version - 1),
                hf_versions := tl (hf_versions hf)\<rparr>)
      else hf)"
  by pat_completeness auto

termination drop_votes
proof (relation "measure (\<lambda>hf. length (hf_versions hf))", goal_cases)
  case (2 hf x)
  then have "0 < unat (hf_window_size hf)" "unat (hf_window_size hf) \<le> length (hf_versions hf)"
    by (simp_all add: unat_gt_0)
  then have "hf_versions hf \<noteq> []" by auto
  then show ?case by simp
qed simp

declare drop_votes.simps [simp del]

definition add_vote :: "u8 \<Rightarrow> u8 \<Rightarrow> u64 \<Rightarrow> hard_fork \<Rightarrow> bool \<times> hard_fork" where
  "add_vote block_version voting_version height hf =
     (if \<not> do_check hf block_version voting_version then (False, hf)
      else
        let hf = hf\<lparr>hf_recorded := (hf_recorded hf)(height \<mapsto> fp_version (current_params hf))\<rparr>;
            voting_version = get_effective_version hf voting_version;
            hf = push_vote voting_version (drop_votes hf)
        in (True, apply_voted (height + 1) hf))"

definition add_block :: "block \<Rightarrow> u64 \<Rightarrow> hard_fork \<Rightarrow> bool \<times> hard_fork" where
  "add_block b height hf = add_vote (get_block_version b) (get_block_vote b) height hf"

section \<open>Reading the chain again\<close>

definition clear_votes :: "hard_fork \<Rightarrow> hard_fork" where
  "clear_votes hf = hf\<lparr>hf_versions := [], hf_last_versions := (\<lambda>_. 0)\<rparr>"

text \<open>The loop that counts the votes of the blocks.\<close>

definition count_votes :: "block list \<Rightarrow> hard_fork \<Rightarrow> hard_fork" where
  "count_votes bs hf = fold (\<lambda>b hf. push_vote (get_effective_version hf (get_block_vote b)) hf) bs hf"

text \<open>\<open>blocks_between a b\<close> are the blocks of the heights from \<open>a\<close> to before \<open>b\<close>.\<close>

definition blocks_between :: "hard_fork \<Rightarrow> nat \<Rightarrow> nat \<Rightarrow> block list" where
  "blocks_between hf a b = take (b - a) (drop a (hf_blocks hf))"

fun lower_index :: "fork_params list \<Rightarrow> u8 \<Rightarrow> nat \<Rightarrow> nat" where
  "lower_index heights start_version 0 = 0"
| "lower_index heights start_version (Suc n) =
     (if start_version < fp_version (heights ! Suc n) then lower_index heights start_version n else Suc n)"

text \<open>The blocks after \<open>height\<close> are added again; whether one is accepted is ignored.\<close>

definition add_blocks :: "nat \<Rightarrow> hard_fork \<Rightarrow> hard_fork" where
  "add_blocks from hf = fold (\<lambda>h hf. snd (add_block (hf_blocks hf ! h) (of_nat h) hf)) [from..<length (hf_blocks hf)] hf"

text \<open>\<open>None\<close> is the exception of a version that is not recorded.\<close>

definition reorganize_from_block_height :: "u64 \<Rightarrow> hard_fork \<Rightarrow> (bool \<times> hard_fork) option" where
  "reorganize_from_block_height height hf =
     (if db_height hf \<le> height then Some (False, hf)
      else
        let hf = clear_votes hf;
            rescan_height = (if hf_window_size hf - 1 \<le> height then height - (hf_window_size hf - 1) else 0)
        in case (if height = 0 then Some (hf_original_version hf) else hf_recorded hf height) of
             None \<Rightarrow> None
           | Some start_version \<Rightarrow>
               let hf = hf\<lparr>hf_current_fork_index := lower_index (hf_heights hf) start_version (hf_current_fork_index hf)\<rparr>;
                   hf = count_votes (blocks_between hf (unat rescan_height) (unat height + 1)) hf;
                   hf = apply_voted (height + 1) hf
               in Some (True, add_blocks (unat height + 1) hf))"

definition reorganize_from_chain_height :: "u64 \<Rightarrow> hard_fork \<Rightarrow> (bool \<times> hard_fork) option" where
  "reorganize_from_chain_height height hf =
     (if height = 0 then Some (False, hf) else reorganize_from_block_height (height - 1) hf)"

fun find_index :: "fork_params list \<Rightarrow> u8 \<Rightarrow> nat" where
  "find_index [] lastv = 0"
| "find_index [p] lastv = 0"
| "find_index (p # q # ps) lastv = (if fp_version p \<noteq> lastv then Suc (find_index (q # ps) lastv) else 0)"

definition rescan_from_block_height :: "u64 \<Rightarrow> hard_fork \<Rightarrow> (bool \<times> hard_fork) option" where
  "rescan_from_block_height height hf =
     (if db_height hf \<le> height then Some (False, hf)
      else
        let hf = clear_votes hf;
            hf = count_votes (blocks_between hf (unat height) (length (hf_blocks hf))) hf
        in case hf_recorded hf (db_height hf - 1) of
             None \<Rightarrow> None
           | Some lastv \<Rightarrow>
               let hf = hf\<lparr>hf_current_fork_index := find_index (hf_heights hf) lastv\<rparr>
               in Some (True, apply_voted (db_height hf) hf))"

definition rescan_from_chain_height :: "u64 \<Rightarrow> hard_fork \<Rightarrow> (bool \<times> hard_fork) option" where
  "rescan_from_chain_height height hf =
     (if height = 0 then Some (False, hf) else rescan_from_block_height (height - 1) hf)"

definition init_hard_fork :: "hard_fork \<Rightarrow> hard_fork option" where
  "init_hard_fork hf =
     (let hf = (if hf_heights hf = []
                then hf\<lparr>hf_heights := [\<lparr>fp_version = hf_original_version hf, fp_threshold = 0, fp_height = 0, fp_time = 0\<rparr>]\<rparr>
                else hf);
          hf = (clear_votes hf)\<lparr>hf_current_fork_index := 0\<rparr>;
          height = db_height hf;
          height = (if hf_window_size hf < height then height - (hf_window_size hf - 1) else 1)
      in if hf_recorded hf 0 = None
         then map_option (\<lambda>(_, hf). hf\<lparr>hf_recorded := (hf_recorded hf)(0 \<mapsto> hf_original_version hf)\<rparr>)
                (reorganize_from_chain_height 1 hf)
         else map_option snd (rescan_from_chain_height height hf))"

section \<open>Queries\<close>

datatype hf_state = LikelyForked | UpdateNeeded | Ready

definition get_state :: "hard_fork \<Rightarrow> int \<Rightarrow> hf_state" where
  "get_state hf t =
     (if length (hf_heights hf) \<le> 1 then Ready
      else
        let t_last_fork = fp_time (last (hf_heights hf))
        in if t_last_fork + hf_forked_time hf \<le> t then LikelyForked
           else if t_last_fork + hf_update_time hf \<le> t then UpdateNeeded
           else Ready)"

definition get_current_version :: "hard_fork \<Rightarrow> u8" where
  "get_current_version hf = fp_version (current_params hf)"

text \<open>Beyond the chain the assertion fails, without assertions the result is 255.\<close>

definition get_version :: "hard_fork \<Rightarrow> u64 \<Rightarrow> u8 option" where
  "get_version hf height =
     (if db_height hf < height then Some 255
      else if height = db_height hf then Some (get_current_version hf)
      else hf_recorded hf height)"

definition get_ideal_version :: "hard_fork \<Rightarrow> u8" where
  "get_ideal_version hf = fp_version (last (hf_heights hf))"

fun ideal_version_loop :: "hard_fork \<Rightarrow> u64 \<Rightarrow> nat \<Rightarrow> u8" where
  "ideal_version_loop hf height 0 = hf_original_version hf"
| "ideal_version_loop hf height (Suc n) =
     (if fp_height (hf_heights hf ! Suc n) \<le> height then fp_version (hf_heights hf ! Suc n)
      else ideal_version_loop hf height n)"

definition get_ideal_version_for_height :: "hard_fork \<Rightarrow> u64 \<Rightarrow> u8" where
  "get_ideal_version_for_height hf height = ideal_version_loop hf height (length (hf_heights hf) - 1)"

fun earliest_loop :: "u8 \<Rightarrow> fork_params list \<Rightarrow> u64 \<Rightarrow> u64" where
  "earliest_loop v [] height = height"
| "earliest_loop v (p # ps) height = (if v \<le> fp_version p then earliest_loop v ps (fp_height p) else height)"

definition get_earliest_ideal_height_for_version :: "hard_fork \<Rightarrow> u8 \<Rightarrow> u64" where
  "get_earliest_ideal_height_for_version hf v = earliest_loop v (rev (hf_heights hf)) (- 1)"

fun next_version_loop :: "u64 \<Rightarrow> u8 \<Rightarrow> fork_params list \<Rightarrow> fork_params option \<Rightarrow> u8" where
  "next_version_loop height original [] previous = original"
| "next_version_loop height original (p # ps) previous =
     (if fp_height p \<le> height then fp_version (case previous of None \<Rightarrow> p | Some q \<Rightarrow> q)
      else next_version_loop height original ps (Some p))"

definition get_next_version :: "hard_fork \<Rightarrow> u8" where
  "get_next_version hf = next_version_loop (db_height hf) (hf_original_version hf) (rev (hf_heights hf)) None"

text \<open>Whether the version is enabled, the window, the votes, the threshold, the earliest height and the newest version.\<close>

definition get_voting_info :: "hard_fork \<Rightarrow> u8 \<Rightarrow> bool \<times> u32 \<times> u32 \<times> u32 \<times> u64 \<times> u8" where
  "get_voting_info hf v =
     (let current_version = fp_version (current_params hf);
          enabled = (v \<le> current_version);
          window = of_nat (length (hf_versions hf));
          votes = sum_list (map (\<lambda>n. hf_last_versions hf (of_nat n)) [unat v..<256]);
          threshold = (window * ucast (fp_threshold (current_params hf)) + 99) div 100
      in (enabled, window, votes, threshold, get_earliest_ideal_height_for_version hf v, fp_version (last (hf_heights hf))))"

section \<open>The forks of the networks\<close>

definition fork_entry :: "nat \<Rightarrow> nat \<Rightarrow> int \<Rightarrow> fork_params" where
  "fork_entry v h t = \<lparr>fp_version = of_nat v, fp_threshold = 0, fp_height = of_nat h, fp_time = t\<rparr>"

definition mainnet_hard_forks :: "fork_params list" where
  "mainnet_hard_forks =
     [fork_entry 1 0 1341378000, fork_entry 7 1 1503046577, fork_entry 8 64445 1523570400, fork_entry 9 68000 1524229900,
      fork_entry 10 176000 1537142400, fork_entry 11 207700 1541005200, fork_entry 12 299200 1551934800,
      fork_entry 13 308460 1553090400, fork_entry 14 364590 1559833200, fork_entry 15 365310 1559919600,
      fork_entry 16 412780 1565622000, fork_entry 17 936150 1629288000]"

definition testnet_hard_forks :: "fork_params list" where
  "testnet_hard_forks =
     [fork_entry 1 0 1341378000, fork_entry 7 1 1501709789, fork_entry 8 57780 1522838800, fork_entry 9 67350 1524229900,
      fork_entry 10 164550 1536760800, fork_entry 11 194130 1540400400, fork_entry 12 286500 1551762000,
      fork_entry 13 287770 1552626000, fork_entry 14 336400 1558504800, fork_entry 15 343750 1559401200,
      fork_entry 16 381520 1564995600, fork_entry 17 421865 1627547400]"

definition stagenet_hard_forks :: "fork_params list" where
  "stagenet_hard_forks = [fork_entry 1 0 1341378000, fork_entry 7 1 1501709789]"

definition add_forks :: "fork_params list \<Rightarrow> hard_fork \<Rightarrow> hard_fork" where
  "add_forks ps hf = fold (\<lambda>p hf. snd (add_fork (fp_version p) (fp_height p) (fp_threshold p) (fp_time p) hf)) ps hf"

section \<open>Well-formed states\<close>

definition forks_ok :: "fork_params list \<Rightarrow> bool" where
  "forks_ok ps \<longleftrightarrow> ps \<noteq> [] \<and> sorted_wrt (\<lambda>p q. fp_version p < fp_version q) ps \<and> sorted_wrt (\<lambda>p q. fp_height p < fp_height q) ps"

text \<open>The counters count the votes of the window.\<close>

definition votes_ok :: "hard_fork \<Rightarrow> bool" where
  "votes_ok hf \<longleftrightarrow>
     length (hf_versions hf) \<le> unat (hf_window_size hf) \<and>
     (\<forall>v. unat (hf_last_versions hf v) = count_list (hf_versions hf) v)"

definition hf_ok :: "hard_fork \<Rightarrow> bool" where
  "hf_ok hf \<longleftrightarrow>
     forks_ok (hf_heights hf) \<and> hf_current_fork_index hf < length (hf_heights hf) \<and>
     0 < hf_window_size hf \<and> unat (hf_window_size hf) < 2 ^ 32 \<and> votes_ok hf"

lemma forks_ok_versions:
  assumes "forks_ok ps"
  shows "i < j \<Longrightarrow> j < length ps \<Longrightarrow> fp_version (ps ! i) < fp_version (ps ! j)"
    and "i < j \<Longrightarrow> j < length ps \<Longrightarrow> fp_height (ps ! i) < fp_height (ps ! j)"
    and "i < length ps \<Longrightarrow> j < length ps \<Longrightarrow> fp_version (ps ! i) = fp_version (ps ! j) \<longleftrightarrow> i = j"
proof -
  show lt: "i < j \<Longrightarrow> j < length ps \<Longrightarrow> fp_version (ps ! i) < fp_version (ps ! j)" for i j
    using assms sorted_wrt_nth_less [of "\<lambda>p q. fp_version p < fp_version q" ps i j] by (simp add: forks_ok_def)
  show "i < j \<Longrightarrow> j < length ps \<Longrightarrow> fp_height (ps ! i) < fp_height (ps ! j)"
    using assms sorted_wrt_nth_less [of "\<lambda>p q. fp_height p < fp_height q" ps i j] by (simp add: forks_ok_def)
  show "i < length ps \<Longrightarrow> j < length ps \<Longrightarrow> fp_version (ps ! i) = fp_version (ps ! j) \<longleftrightarrow> i = j"
    using lt [of i j] lt [of j i] by (cases i j rule: linorder_cases) auto
qed

lemma forks_at_most_256:
  assumes "forks_ok ps"
  shows "length ps \<le> 256"
proof -
  have "distinct (map fp_version ps)"
    using forks_ok_versions(3) [OF assms] by (auto simp: distinct_conv_nth)
  then have "length ps = card (set (map fp_version ps))"
    by (metis distinct_card length_map)
  also have "\<dots> \<le> card (UNIV :: u8 set)"
    by (intro card_mono) simp_all
  finally show ?thesis
    by (simp add: card_word)
qed

section \<open>The window of votes\<close>

lemma count_list_pos: "xs \<noteq> [] \<Longrightarrow> 0 < count_list xs (hd xs)"
  by (cases xs) simp_all

lemma count_le_length: "count_list xs x \<le> length xs"
  by (induction xs) auto

lemma push_vote_ok:
  assumes "\<forall>v. unat (hf_last_versions hf v) = count_list (hf_versions hf) v" and "length (hf_versions hf) < 2 ^ 32 - 1"
  shows "\<forall>w. unat (hf_last_versions (push_vote v hf) w) = count_list (hf_versions (push_vote v hf)) w"
proof -
  have "unat (hf_last_versions hf v) + 1 < 2 ^ 32"
    using assms count_le_length [of "hf_versions hf" v] by simp
  then have "unat (hf_last_versions hf v + 1) = unat (hf_last_versions hf v) + 1"
    by (simp add: unat_word_ariths)
  with assms(1) show ?thesis
    by (simp add: push_vote_def count_list_append)
qed

lemma drop_votes_fields [simp]:
  "hf_blocks (drop_votes hf) = hf_blocks hf" "hf_recorded (drop_votes hf) = hf_recorded hf"
  "hf_window_size (drop_votes hf) = hf_window_size hf" "hf_heights (drop_votes hf) = hf_heights hf"
  "hf_current_fork_index (drop_votes hf) = hf_current_fork_index hf"
  "hf_original_version (drop_votes hf) = hf_original_version hf"
  by (induction hf rule: drop_votes.induct; subst drop_votes.simps; simp add: Let_def)+

lemma drop_votes_same: "\<exists>vs f. drop_votes hf = hf\<lparr>hf_versions := vs, hf_last_versions := f\<rparr>"
proof (induction hf rule: drop_votes.induct)
  case (1 hf)
  show ?case
  proof (cases "hf_window_size hf \<noteq> 0 \<and> unat (hf_window_size hf) \<le> length (hf_versions hf)")
    case True
    then show ?thesis using 1 [OF True refl] by (subst drop_votes.simps) (auto simp: Let_def)
  next
    case False
    then have "drop_votes hf = hf\<lparr>hf_versions := hf_versions hf, hf_last_versions := hf_last_versions hf\<rparr>"
      by (subst drop_votes.simps) auto
    then show ?thesis by blast
  qed
qed

lemma drop_votes_window:
  assumes "0 < hf_window_size hf" and "\<forall>v. unat (hf_last_versions hf v) = count_list (hf_versions hf) v"
  shows "hf_versions (drop_votes hf) = drop (length (hf_versions hf) + 1 - unat (hf_window_size hf)) (hf_versions hf) \<and>
    (\<forall>v. unat (hf_last_versions (drop_votes hf) v) = count_list (hf_versions (drop_votes hf)) v)"
  using assms
proof (induction hf rule: drop_votes.induct)
  case (1 hf)
  have w: "0 < unat (hf_window_size hf)" "hf_window_size hf \<noteq> 0"
    using "1.prems"(1) by (simp_all add: unat_gt_0)
  show ?case
  proof (cases "unat (hf_window_size hf) \<le> length (hf_versions hf)")
    case False
    then have "drop_votes hf = hf" by (subst drop_votes.simps) auto
    with False show ?thesis using "1.prems"(2) by simp
  next
    case True
    then obtain x xs where vs: "hf_versions hf = x # xs"
      using w(1) by (cases "hf_versions hf") auto
    let ?hf = "hf\<lparr>hf_last_versions := (hf_last_versions hf)(x := hf_last_versions hf x - 1), hf_versions := xs\<rparr>"
    have step: "drop_votes hf = drop_votes ?hf"
      using True w vs by (subst drop_votes.simps) (simp add: Let_def)
    have "unat (hf_last_versions hf x) = Suc (count_list xs x)"
      using "1.prems"(2) vs by simp
    then have "unat (hf_last_versions hf x - 1) = count_list xs x"
      using unat_dec_pos [of "hf_last_versions hf x"] by (metis diff_Suc_1 nat.distinct(1) unsigned_0)
    then have counts: "\<forall>v. unat (hf_last_versions ?hf v) = count_list (hf_versions ?hf) v"
      using "1.prems"(2) vs by auto
    show ?thesis
      using "1.IH" [OF _ refl] True w vs counts "1.prems"(1)
      by (simp add: step Suc_diff_le)
  qed
qed

lemma add_window:
  assumes ok: "votes_ok hf" "0 < hf_window_size hf" "unat (hf_window_size hf) < 2 ^ 32"
  shows "votes_ok (push_vote v (drop_votes hf)) \<and>
    hf_versions (push_vote v (drop_votes hf)) =
      drop (length (hf_versions hf) + 1 - unat (hf_window_size hf)) (hf_versions hf @ [v])"
proof -
  have w: "0 < unat (hf_window_size hf)" using ok(2) by (simp add: unat_gt_0)
  note d = drop_votes_window [OF ok(2)]
  have counts: "\<forall>v. unat (hf_last_versions hf v) = count_list (hf_versions hf) v"
    and len: "length (hf_versions hf) \<le> unat (hf_window_size hf)"
    using ok(1) by (simp_all add: votes_ok_def)
  note d = drop_votes_window [OF ok(2) counts]
  have dl: "length (hf_versions (drop_votes hf)) < unat (hf_window_size hf)"
    using d w by simp
  have "\<forall>u. unat (hf_last_versions (push_vote v (drop_votes hf)) u) = count_list (hf_versions (push_vote v (drop_votes hf))) u"
    using d dl ok(3) by (intro push_vote_ok) auto
  then show ?thesis
    using d dl len w by (auto simp: votes_ok_def push_vote_def)
qed

section \<open>The voted fork\<close>

text \<open>The votes for a fork: those of the window for its version or for the version of a later fork.\<close>

definition votes_for :: "hard_fork \<Rightarrow> nat \<Rightarrow> nat" where
  "votes_for hf n = length (filter (\<lambda>v. v \<in> fp_version ` set (drop n (hf_heights hf))) (hf_versions hf))"

definition passes :: "hard_fork \<Rightarrow> u64 \<Rightarrow> nat \<Rightarrow> bool" where
  "passes hf height n \<longleftrightarrow>
     fp_height (hf_heights hf ! n) \<le> height \<and> unat (fork_threshold hf (hf_heights hf ! n)) \<le> votes_for hf n"

lemma votes_for_Suc:
  assumes "forks_ok (hf_heights hf)" and n: "n < length (hf_heights hf)"
  shows "votes_for hf n = votes_for hf (Suc n) + count_list (hf_versions hf) (fp_version (hf_heights hf ! n))"
proof -
  let ?v = "fp_version (hf_heights hf ! n)" and ?S = "fp_version ` set (drop (Suc n) (hf_heights hf))"
  have "?v \<notin> ?S"
    using forks_ok_versions(3) [OF assms(1)] n by (auto simp: in_set_conv_nth image_iff)
  then have "length (filter (\<lambda>v. v = ?v \<or> v \<in> ?S) vs) = length (filter (\<lambda>v. v \<in> ?S) vs) + count_list vs ?v" for vs
    by (induction vs) auto
  moreover have "drop n (hf_heights hf) = hf_heights hf ! n # drop (Suc n) (hf_heights hf)"
    using n by (simp add: Cons_nth_drop_Suc)
  ultimately show ?thesis
    by (simp add: votes_for_def)
qed

lemma voted_loop_correct:
  assumes ok: "hf_ok hf" and n: "n < length (hf_heights hf)" and acc: "unat acc = votes_for hf (Suc n)"
  shows "hf_current_fork_index hf \<le> voted_loop hf height n acc \<and>
    voted_loop hf height n acc \<le> max (hf_current_fork_index hf) n \<and>
    (hf_current_fork_index hf < voted_loop hf height n acc \<longrightarrow> passes hf height (voted_loop hf height n acc)) \<and>
    (\<forall>m. voted_loop hf height n acc < m \<and> m \<le> n \<longrightarrow> \<not> passes hf height m)"
  using n acc
proof (induction n arbitrary: acc)
  case 0
  then show ?case by simp
next
  case (Suc n)
  let ?p = "hf_heights hf ! Suc n" and ?acc = "acc + hf_last_versions hf (fp_version (hf_heights hf ! Suc n))"
  have fo: "forks_ok (hf_heights hf)" and vo: "votes_ok hf" and w: "unat (hf_window_size hf) < 2 ^ 32"
    using ok by (simp_all add: hf_ok_def)
  have "votes_for hf (Suc n) \<le> length (hf_versions hf)"
    by (simp add: votes_for_def)
  then have lt: "votes_for hf (Suc n) < 2 ^ 32"
    using vo w by (simp add: votes_ok_def)
  then have "unat ?acc = votes_for hf (Suc n)"
    using votes_for_Suc [OF fo Suc.prems(1)] Suc.prems(2) vo by (simp add: votes_ok_def unat_word_ariths)
  then have pass: "fp_height ?p \<le> height \<and> fork_threshold hf ?p \<le> ?acc \<longleftrightarrow> passes hf height (Suc n)"
    and IH: "hf_current_fork_index hf \<le> voted_loop hf height n ?acc \<and>
    voted_loop hf height n ?acc \<le> max (hf_current_fork_index hf) n \<and>
    (hf_current_fork_index hf < voted_loop hf height n ?acc \<longrightarrow> passes hf height (voted_loop hf height n ?acc)) \<and>
    (\<forall>m. voted_loop hf height n ?acc < m \<and> m \<le> n \<longrightarrow> \<not> passes hf height m)"
    using Suc by (simp_all add: passes_def word_le_nat_alt)
  show ?case
  proof (cases "hf_current_fork_index hf < Suc n \<and> \<not> passes hf height (Suc n)")
    case True
    then have "voted_loop hf height (Suc n) acc = voted_loop hf height n ?acc"
      using pass by (auto simp: Let_def)
    with IH True show ?thesis
      by (auto simp: le_Suc_eq)
  next
    case False
    then show ?thesis
      using pass by (auto simp: Let_def)
  qed
qed

lemma voted_index_correct:
  assumes ok: "hf_ok hf"
  shows "hf_current_fork_index hf \<le> get_voted_fork_index hf height"
    and "get_voted_fork_index hf height < length (hf_heights hf)"
    and "hf_current_fork_index hf < get_voted_fork_index hf height \<Longrightarrow> passes hf height (get_voted_fork_index hf height)"
    and "get_voted_fork_index hf height < m \<Longrightarrow> m < length (hf_heights hf) \<Longrightarrow> \<not> passes hf height m"
proof -
  let ?n = "length (hf_heights hf) - 1"
  have n: "?n < length (hf_heights hf)" "hf_current_fork_index hf < length (hf_heights hf)"
    using ok by (auto simp: hf_ok_def forks_ok_def)
  have "unat (0 :: u32) = votes_for hf (Suc ?n)"
    using n by (simp add: votes_for_def)
  note c = voted_loop_correct [OF ok n(1) this, of height, folded get_voted_fork_index_def]
  show "hf_current_fork_index hf \<le> get_voted_fork_index hf height"
    "get_voted_fork_index hf height < length (hf_heights hf)"
    "hf_current_fork_index hf < get_voted_fork_index hf height \<Longrightarrow> passes hf height (get_voted_fork_index hf height)"
    "get_voted_fork_index hf height < m \<Longrightarrow> m < length (hf_heights hf) \<Longrightarrow> \<not> passes hf height m"
    using c n by auto
qed

lemma apply_voted_eq:
  assumes "hf_ok hf"
  shows "apply_voted height hf = hf\<lparr>hf_current_fork_index := get_voted_fork_index hf height\<rparr>"
proof -
  have "get_voted_fork_index hf height < 256"
    using voted_index_correct(2) [OF assms, of height] forks_at_most_256 [of "hf_heights hf"] assms by (auto simp: hf_ok_def)
  then show ?thesis
    using voted_index_correct(1) [OF assms, of height] by (cases hf) (auto simp: apply_voted_def Let_def)
qed

lemma hf_ok_apply_voted:
  assumes "hf_ok hf"
  shows "hf_ok (apply_voted height hf)"
  using voted_index_correct(2) [OF assms, of height] assms
  by (simp add: apply_voted_eq [OF assms] hf_ok_def votes_ok_def)

section \<open>Adding blocks\<close>

lemma add_vote_split:
  assumes "add_vote bv v height hf = (True, hf')"
  shows "do_check hf bv v"
    and "hf' = apply_voted (height + 1) (push_vote (get_effective_version hf v)
      (drop_votes (hf\<lparr>hf_recorded := (hf_recorded hf)(height \<mapsto> fp_version (current_params hf))\<rparr>)))"
  using assms by (auto simp: add_vote_def Let_def get_effective_version_def split: if_splits)

lemma hf_ok_push:
  assumes "hf_ok hf"
  shows "hf_ok (push_vote v (drop_votes hf))"
  using assms add_window [of hf v] by (simp add: hf_ok_def) (simp add: push_vote_def)

lemma hf_ok_recorded [simp]: "hf_ok (hf\<lparr>hf_recorded := r\<rparr>) = hf_ok hf" "hf_ok (hf\<lparr>hf_blocks := bs\<rparr>) = hf_ok hf"
  by (simp_all add: hf_ok_def votes_ok_def)

lemma hf_ok_add: "hf_ok hf \<Longrightarrow> add_vote bv v height hf = (True, hf') \<Longrightarrow> hf_ok hf'"
  using add_vote_split(2) [of bv v height hf hf'] by (auto intro!: hf_ok_apply_voted hf_ok_push)

section \<open>What a restart finds again\<close>

definition window_votes :: "hard_fork \<Rightarrow> u8 list" where
  "window_votes hf =
     map (\<lambda>b. get_effective_version hf (get_block_vote b)) (drop (length (hf_blocks hf) - unat (hf_window_size hf)) (hf_blocks hf))"

text \<open>
  The state follows from the database: the votes are those of the last blocks, and the current
  fork is what the votes make of the fork recorded for the last block.
\<close>

definition follows_db :: "hard_fork \<Rightarrow> bool" where
  "follows_db hf \<longleftrightarrow>
     hf_blocks hf \<noteq> [] \<and> length (hf_blocks hf) < 2 ^ 64 \<and> hf_recorded hf 0 \<noteq> None \<and> hf_versions hf = window_votes hf \<and>
     (\<exists>c < length (hf_heights hf). hf_recorded hf (db_height hf - 1) = Some (fp_version (hf_heights hf ! c)) \<and>
        fp_height (hf_heights hf ! c) \<le> db_height hf \<and>
        hf = apply_voted (db_height hf) (hf\<lparr>hf_current_fork_index := c\<rparr>))"

lemma count_votes_eq:
  "length bs < 2 ^ 32 \<Longrightarrow> hf_versions hf = [] \<Longrightarrow> hf_last_versions hf = (\<lambda>_. 0) \<Longrightarrow>
   \<exists>f. count_votes bs hf = hf\<lparr>hf_versions := map (\<lambda>b. get_effective_version hf (get_block_vote b)) bs, hf_last_versions := f\<rparr> \<and>
     (\<forall>v. unat (f v) = count_list (map (\<lambda>b. get_effective_version hf (get_block_vote b)) bs) v)"
proof (induction bs rule: rev_induct)
  case Nil
  then show ?case
    by (cases hf) (simp add: count_votes_def)
next
  case (snoc b bs)
  let ?vs = "map (\<lambda>b. get_effective_version hf (get_block_vote b)) bs"
  obtain f where f: "count_votes bs hf = hf\<lparr>hf_versions := ?vs, hf_last_versions := f\<rparr>" "\<forall>v. unat (f v) = count_list ?vs v"
    using snoc by auto
  let ?v = "get_effective_version hf (get_block_vote b)"
  have ev: "get_effective_version (hf\<lparr>hf_versions := vs, hf_last_versions := g\<rparr>) = get_effective_version hf" for vs g
    by (intro ext) (simp add: get_effective_version_def)
  have step: "count_votes (bs @ [b]) hf = push_vote ?v (hf\<lparr>hf_versions := ?vs, hf_last_versions := f\<rparr>)"
    using f(1) by (simp add: count_votes_def ev)
  have "\<forall>w. unat (hf_last_versions (push_vote ?v (hf\<lparr>hf_versions := ?vs, hf_last_versions := f\<rparr>)) w) =
      count_list (hf_versions (push_vote ?v (hf\<lparr>hf_versions := ?vs, hf_last_versions := f\<rparr>))) w"
    using f(2) snoc.prems(1) by (intro push_vote_ok) simp_all
  then show ?case
    unfolding step by (intro exI [of _ "f(?v := f ?v + 1)"]) (cases hf, simp add: push_vote_def count_list_append fun_upd_def)
qed

lemma counts_unique:
  assumes "\<forall>v. unat (f v) = count_list vs v" and "\<forall>v. unat (g v) = count_list vs v"
  shows "f = (g :: u8 \<Rightarrow> u32)"
  using assms by (intro ext) (simp add: word_unat_eq_iff)

lemma find_index_nth:
  "sorted_wrt (\<lambda>p q. fp_version p < fp_version q) ps \<Longrightarrow> c < length ps \<Longrightarrow> find_index ps (fp_version (ps ! c)) = c"
proof (induction ps arbitrary: c)
  case (Cons p ps)
  show ?case
  proof (cases c)
    case 0
    then show ?thesis by (cases ps) simp_all
  next
    case (Suc k)
    then obtain q qs where ps: "ps = q # qs" using Cons.prems(2) by (cases ps) auto
    have "fp_version p < fp_version (ps ! k)"
      using Cons.prems Suc by simp
    then have "fp_version p \<noteq> fp_version ((q # qs) ! k)"
      using ps by auto
    with Cons Suc ps show ?thesis by simp
  qed
qed simp

lemma unat_db_height: "length (hf_blocks hf) < 2 ^ 64 \<Longrightarrow> unat (db_height hf) = length (hf_blocks hf)"
  by (simp add: db_height_def unat_of_nat)

lemma apply_voted_cong:
  assumes "hf_heights hf = hf_heights hf'" and "hf_versions hf = hf_versions hf'" "hf_last_versions hf = hf_last_versions hf'"
    and "hf_window_size hf = hf_window_size hf'" "hf_current_fork_index hf = hf_current_fork_index hf'"
  shows "get_voted_fork_index hf height = get_voted_fork_index hf' height"
proof -
  have "voted_loop hf height n acc = voted_loop hf' height n acc" for n acc
    using assms by (induction n arbitrary: acc) (simp_all add: fork_threshold_def Let_def)
  then show ?thesis
    using assms(1) by (simp add: get_voted_fork_index_def)
qed

lemma window_length: "length (window_votes hf) \<le> unat (hf_window_size hf)"
  by (simp add: window_votes_def)

lemma rescan_blocks:
  assumes len: "length (hf_blocks hf) < 2 ^ 64" "hf_blocks hf \<noteq> []" and w: "0 < hf_window_size hf"
    and height: "height = (if hf_window_size hf < db_height hf then db_height hf - (hf_window_size hf - 1) else 1)"
  shows "height \<noteq> 0" and "\<not> db_height hf \<le> height - 1"
    and "blocks_between hf (unat (height - 1)) (length (hf_blocks hf)) =
      drop (length (hf_blocks hf) - unat (hf_window_size hf)) (hf_blocks hf)"
proof -
  note u = unat_db_height [OF len(1)]
  have w0: "hf_window_size hf \<noteq> 0" "0 < unat (hf_window_size hf)"
    using w by (simp_all add: unat_gt_0)
  have pos: "0 < length (hf_blocks hf)" using len(2) by simp
  have h1: "unat (height - 1) = length (hf_blocks hf) - unat (hf_window_size hf) \<and> height \<noteq> 0"
  proof (cases "hf_window_size hf < db_height hf")
    case True
    then have e: "height - 1 = db_height hf - hf_window_size hf"
      by (simp add: height)
    have "unat (db_height hf - hf_window_size hf) = length (hf_blocks hf) - unat (hf_window_size hf)"
      using True u by (simp add: unat_sub)
    moreover have "height \<noteq> 0"
    proof
      assume "height = 0"
      then have "db_height hf - hf_window_size hf = - 1"
        using e by simp
      then have "db_height hf = hf_window_size hf - 1"
        by (simp add: diff_eq_eq)
      then have "unat (db_height hf) = unat (hf_window_size hf) - 1"
        using unat_dec_pos [OF w0(1)] by simp
      with True show False by (simp add: word_less_nat_alt)
    qed
    ultimately show ?thesis using e by simp
  next
    case False
    then have "length (hf_blocks hf) \<le> unat (hf_window_size hf)"
      using u by (simp add: word_less_nat_alt)
    with False show ?thesis by (simp add: height)
  qed
  then show "height \<noteq> 0" by simp
  show "\<not> db_height hf \<le> height - 1"
    using h1 u diff_less [OF w0(2) pos] by (simp add: word_le_nat_alt)
  show "blocks_between hf (unat (height - 1)) (length (hf_blocks hf)) =
      drop (length (hf_blocks hf) - unat (hf_window_size hf)) (hf_blocks hf)"
    using h1 by (simp add: blocks_between_def)
qed

text \<open>What \<open>init\<close> computes from a database with recorded versions.\<close>

lemma init_hard_fork_eq:
  assumes fo: "forks_ok (hf_heights hf)" and w: "0 < hf_window_size hf" "unat (hf_window_size hf) < 2 ^ 32"
    and db: "hf_blocks hf \<noteq> []" "length (hf_blocks hf) < 2 ^ 64" "hf_recorded hf 0 \<noteq> None"
    and c: "c < length (hf_heights hf)" "hf_recorded hf (db_height hf - 1) = Some (fp_version (hf_heights hf ! c))"
  shows "\<exists>f. init_hard_fork hf = Some (apply_voted (db_height hf)
      (hf\<lparr>hf_versions := window_votes hf, hf_last_versions := f, hf_current_fork_index := c\<rparr>)) \<and>
    (\<forall>v. unat (f v) = count_list (window_votes hf) v)"
proof -
  define hf0 where "hf0 = (clear_votes hf)\<lparr>hf_current_fork_index := 0\<rparr>"
  define height where "height = (if hf_window_size hf0 < db_height hf0 then db_height hf0 - (hf_window_size hf0 - 1) else 1)"
  have same: "hf_blocks hf0 = hf_blocks hf" "hf_window_size hf0 = hf_window_size hf" "hf_heights hf0 = hf_heights hf"
      "hf_recorded hf0 = hf_recorded hf" "db_height hf0 = db_height hf"
      "hf_versions (clear_votes hf0) = []" "hf_last_versions (clear_votes hf0) = (\<lambda>_. 0)"
    by (simp_all add: hf0_def clear_votes_def db_height_def)
  have ne: "hf_heights hf \<noteq> []" using fo by (simp add: forks_ok_def)
  have "length (hf_blocks hf0) < 2 ^ 64" "hf_blocks hf0 \<noteq> []" "0 < hf_window_size hf0"
    using db w by (simp_all add: same)
  note r = rescan_blocks [OF this height_def]
  let ?bs = "drop (length (hf_blocks hf) - unat (hf_window_size hf)) (hf_blocks hf)"
  have ev: "get_effective_version (clear_votes hf0) = get_effective_version hf"
    by (intro ext) (simp add: get_effective_version_def clear_votes_def hf0_def)
  have "length ?bs < 2 ^ 32" using w(2) by simp
  from count_votes_eq [OF this same(6,7)]
  obtain f where f: "count_votes ?bs (clear_votes hf0) =
      (clear_votes hf0)\<lparr>hf_versions := window_votes hf, hf_last_versions := f\<rparr>" "\<forall>v. unat (f v) = count_list (window_votes hf) v"
    unfolding ev window_votes_def by blast
  have "find_index (hf_heights hf) (fp_version (hf_heights hf ! c)) = c"
    using find_index_nth fo c(1) by (simp add: forks_ok_def)
  then have "rescan_from_block_height (height - 1) hf0 = Some (True, apply_voted (db_height hf)
      (hf\<lparr>hf_versions := window_votes hf, hf_last_versions := f, hf_current_fork_index := c\<rparr>))"
    using r(2,3) f(1) c(2)
    by (simp add: rescan_from_block_height_def same Let_def blocks_between_def clear_votes_def hf0_def db_height_def)
  moreover have "init_hard_fork hf = map_option snd (rescan_from_chain_height height hf0)"
    using ne db(3) by (auto simp: init_hard_fork_def Let_def height_def hf0_def clear_votes_def)
  ultimately have "init_hard_fork hf = Some (apply_voted (db_height hf)
      (hf\<lparr>hf_versions := window_votes hf, hf_last_versions := f, hf_current_fork_index := c\<rparr>))"
    using r(1) by (simp add: rescan_from_chain_height_def)
  with f(2) show ?thesis by blast
qed

lemma follows_db_restart:
  assumes ok: "hf_ok hf" and fdb: "follows_db hf"
  shows "init_hard_fork (hf\<lparr>hf_versions := vs, hf_last_versions := g, hf_current_fork_index := n\<rparr>) = Some hf"
proof -
  let ?hf = "hf\<lparr>hf_versions := vs, hf_last_versions := g, hf_current_fork_index := n\<rparr>"
  have fo: "forks_ok (hf_heights hf)" and w: "0 < hf_window_size hf" "unat (hf_window_size hf) < 2 ^ 32"
    using ok by (simp_all add: hf_ok_def)
  obtain c where db: "hf_blocks hf \<noteq> []" "length (hf_blocks hf) < 2 ^ 64" "hf_recorded hf 0 \<noteq> None"
      "hf_versions hf = window_votes hf"
    and c: "c < length (hf_heights hf)" "hf_recorded hf (db_height hf - 1) = Some (fp_version (hf_heights hf ! c))"
    and cur: "hf = apply_voted (db_height hf) (hf\<lparr>hf_current_fork_index := c\<rparr>)"
    using fdb by (auto simp: follows_db_def)
  have same: "db_height ?hf = db_height hf" "window_votes ?hf = window_votes hf"
    by (simp_all add: db_height_def window_votes_def get_effective_version_def)
  obtain f where f: "init_hard_fork ?hf = Some (apply_voted (db_height hf)
      (?hf\<lparr>hf_versions := window_votes hf, hf_last_versions := f, hf_current_fork_index := c\<rparr>))"
    "\<forall>v. unat (f v) = count_list (window_votes hf) v"
    using init_hard_fork_eq [of ?hf c] fo w db(1-3) c same by auto
  have "\<forall>v. unat (hf_last_versions hf v) = count_list (window_votes hf) v"
    using ok db(4) by (simp add: hf_ok_def votes_ok_def)
  then have "f = hf_last_versions hf"
    using counts_unique [OF f(2)] by simp
  then have "?hf\<lparr>hf_versions := window_votes hf, hf_last_versions := f, hf_current_fork_index := c\<rparr> = hf\<lparr>hf_current_fork_index := c\<rparr>"
    using db(4) by (cases hf) simp
  with f(1) cur show ?thesis by simp
qed

text \<open>The fork in force is not ahead of the chain.\<close>

lemma voted_height:
  assumes ok: "hf_ok hf" and c: "fp_height (hf_heights hf ! hf_current_fork_index hf) \<le> height"
  shows "fp_height (hf_heights hf ! hf_current_fork_index (apply_voted height hf)) \<le> height"
proof (cases "hf_current_fork_index hf < get_voted_fork_index hf height")
  case True
  then show ?thesis
    using voted_index_correct(3) [OF ok True] by (simp add: apply_voted_eq [OF ok] passes_def)
next
  case False
  then have "get_voted_fork_index hf height = hf_current_fork_index hf"
    using voted_index_correct(1) [OF ok, of height] by simp
  then show ?thesis using c by (simp add: apply_voted_eq [OF ok])
qed

lemma follows_db_height:
  assumes ok: "hf_ok hf" and fdb: "follows_db hf"
  shows "fp_height (current_params hf) \<le> db_height hf"
proof -
  obtain c where c: "c < length (hf_heights hf)" "fp_height (hf_heights hf ! c) \<le> db_height hf"
      "hf = apply_voted (db_height hf) (hf\<lparr>hf_current_fork_index := c\<rparr>)"
    using fdb by (auto simp: follows_db_def)
  have "hf_ok (hf\<lparr>hf_current_fork_index := c\<rparr>)"
    using ok c(1) by (simp add: hf_ok_def votes_ok_def)
  from voted_height [OF this, of "db_height hf"] show ?thesis
    using c(2) by (simp add: current_params_def flip: c(3))
qed

lemma window_append:
  fixes xs :: "'a list"
  assumes "0 < w"
  shows "drop (length (drop (length xs - w) xs) + 1 - w) (drop (length xs - w) xs @ [x]) = drop (length xs + 1 - w) (xs @ [x])"
proof (cases "w \<le> length xs")
  case True
  then have "drop (length xs + 1 - w) (xs @ [x]) = drop (length xs + 1 - w) xs @ [x]"
    using assms by simp
  moreover have "length xs + 1 - w = Suc (length xs - w)"
    using True by simp
  ultimately show ?thesis
    using True assms by (simp add: drop_drop)
qed simp

lemma follows_dbI:
  assumes "hf_ok m" "c = hf_current_fork_index m" and "hf_blocks m \<noteq> []" "length (hf_blocks m) < 2 ^ 64" "hf_recorded m 0 \<noteq> None"
    and "hf_versions m = window_votes m" "hf_recorded m (db_height m - 1) = Some (fp_version (hf_heights m ! c))"
    and "fp_height (hf_heights m ! c) \<le> db_height m"
  shows "hf_ok (apply_voted (db_height m) m) \<and> follows_db (apply_voted (db_height m) m)"
proof -
  let ?hf = "apply_voted (db_height m) m"
  have av: "?hf = m\<lparr>hf_current_fork_index := get_voted_fork_index m (db_height m)\<rparr>"
    by (rule apply_voted_eq [OF assms(1)])
  have reset: "?hf\<lparr>hf_current_fork_index := c\<rparr> = m"
    by (simp add: av assms(2))
  have same: "window_votes ?hf = window_votes m" "hf_versions ?hf = hf_versions m" "db_height ?hf = db_height m"
      "hf_heights ?hf = hf_heights m" "hf_recorded ?hf = hf_recorded m" "hf_blocks ?hf = hf_blocks m"
    unfolding av by (simp_all add: window_votes_def get_effective_version_def db_height_def)
  have "c < length (hf_heights m)"
    using assms(1,2) by (simp add: hf_ok_def)
  then have "follows_db ?hf"
    unfolding follows_db_def same using assms(3-8) reset by (intro conjI exI [of _ c]) (simp_all only: not_False_eq_True)
  then show ?thesis
    using hf_ok_apply_voted [OF assms(1)] by simp
qed

lemma add_block_follows:
  assumes ok: "hf_ok hf" and fdb: "follows_db hf" and len: "Suc (length (hf_blocks hf)) < 2 ^ 64"
    and add: "add_block b (db_height hf) (hf\<lparr>hf_blocks := hf_blocks hf @ [b]\<rparr>) = (True, hf')"
  shows "hf_ok hf' \<and> follows_db hf'"
proof -
  let ?hf = "hf\<lparr>hf_blocks := hf_blocks hf @ [b]\<rparr>" and ?h = "db_height hf" and ?v = "get_effective_version hf (get_block_vote b)"
  let ?cur = "fp_version (current_params hf)" and ?w = "unat (hf_window_size hf)"
  define m where "m = push_vote ?v (drop_votes (?hf\<lparr>hf_recorded := (hf_recorded hf)(?h \<mapsto> ?cur)\<rparr>))"
  have e: "get_effective_version ?hf = get_effective_version hf" "current_params ?hf = current_params hf"
    by (simp_all add: fun_eq_iff get_effective_version_def current_params_def)
  have hf': "hf' = apply_voted (?h + 1) m"
    using add_vote_split(2) [OF add [unfolded add_block_def]] by (simp add: e m_def)
  have okm: "hf_ok m" using ok by (simp add: hf_ok_push m_def)
  have db: "hf_blocks hf \<noteq> []" "hf_recorded hf 0 \<noteq> None" "hf_versions hf = window_votes hf"
    using fdb by (auto simp: follows_db_def)
  have w: "0 < ?w" "0 < hf_window_size hf" "?w < 2 ^ 32" and vo: "votes_ok hf"
    using ok by (auto simp: hf_ok_def unat_gt_0)
  have fields: "hf_blocks m = hf_blocks hf @ [b]" "hf_recorded m = (hf_recorded hf)(?h \<mapsto> ?cur)" "hf_heights m = hf_heights hf"
      "hf_window_size m = hf_window_size hf" "hf_current_fork_index m = hf_current_fork_index hf"
    by (simp_all add: push_vote_def m_def)
  have dbh: "db_height m = ?h + 1"
    by (simp add: db_height_def fields)
  have u: "n < 2 ^ 64 \<Longrightarrow> unat (of_nat n :: u64) = n" for n
    by (simp add: unat_of_nat)
  have "?h + 1 = of_nat (Suc (length (hf_blocks hf)))"
    by (simp add: db_height_def)
  then have "unat (?h + 1) = Suc (length (hf_blocks hf))" "unat ?h = length (hf_blocks hf)"
    using u [OF len] u [of "length (hf_blocks hf)"] len by (simp_all only: db_height_def)
  then have h0: "?h \<le> ?h + 1"
    by (simp add: word_le_nat_alt)
  have vs: "hf_versions m = window_votes m"
  proof -
    let ?f = "\<lambda>b. get_effective_version hf (get_block_vote b)"
    have gm: "get_effective_version m = get_effective_version hf"
      by (simp add: fun_eq_iff get_effective_version_def fields)
    have "votes_ok (?hf\<lparr>hf_recorded := (hf_recorded hf)(?h \<mapsto> ?cur)\<rparr>)"
      using vo by (simp add: votes_ok_def)
    from add_window [OF this, of ?v] w
    have "hf_versions m = drop (length (window_votes hf) + 1 - ?w) (window_votes hf @ [?v])"
      by (simp add: db(3) m_def)
    also have "window_votes hf = drop (length (map ?f (hf_blocks hf)) - ?w) (map ?f (hf_blocks hf))"
      by (simp add: window_votes_def drop_map)
    also note window_append [OF w(1)]
    also have "drop (length (map ?f (hf_blocks hf)) + 1 - ?w) (map ?f (hf_blocks hf) @ [?v]) = window_votes m"
    proof -
      have "map ?f (hf_blocks hf) @ [?v] = map ?f (hf_blocks hf @ [b])" by simp
      then show ?thesis by (simp only: window_votes_def fields gm drop_map length_append length_map list.size) simp
    qed
    finally show ?thesis .
  qed
  have "hf_recorded m (db_height m - 1) = Some (fp_version (hf_heights m ! hf_current_fork_index m))"
    by (simp add: fields dbh current_params_def)
  moreover have "fp_height (hf_heights m ! hf_current_fork_index m) \<le> db_height m"
    using order_trans [OF follows_db_height [OF ok fdb] h0] by (simp add: fields dbh current_params_def)
  moreover have "hf_recorded m 0 \<noteq> None"
    using db(2) by (simp add: fields)
  ultimately show ?thesis
    using follows_dbI [OF okm refl _ _ _ vs] len by (simp add: hf' fields dbh)
qed

lemma init_follows:
  assumes fo: "forks_ok (hf_heights hf)" and w: "0 < hf_window_size hf" "unat (hf_window_size hf) < 2 ^ 32"
    and db: "hf_blocks hf \<noteq> []" "length (hf_blocks hf) < 2 ^ 64" "hf_recorded hf 0 \<noteq> None"
    and c: "c < length (hf_heights hf)" "hf_recorded hf (db_height hf - 1) = Some (fp_version (hf_heights hf ! c))"
      "fp_height (hf_heights hf ! c) \<le> db_height hf"
    and init: "init_hard_fork hf = Some hf'"
  shows "hf_ok hf' \<and> follows_db hf'"
proof -
  obtain f where f: "hf' = apply_voted (db_height hf)
      (hf\<lparr>hf_versions := window_votes hf, hf_last_versions := f, hf_current_fork_index := c\<rparr>)"
    and counts: "\<forall>v. unat (f v) = count_list (window_votes hf) v"
    using init_hard_fork_eq [OF fo w db c(1,2)] init by auto
  let ?m = "hf\<lparr>hf_versions := window_votes hf, hf_last_versions := f, hf_current_fork_index := c\<rparr>"
  have okm: "hf_ok ?m"
    using fo w c counts window_length [of hf] by (simp add: hf_ok_def votes_ok_def)
  have same: "window_votes ?m = window_votes hf" "db_height ?m = db_height hf"
    by (simp_all add: window_votes_def get_effective_version_def db_height_def)
  show ?thesis
    unfolding f same(2) [symmetric] using db c by (intro follows_dbI [OF okm, of c]) (simp_all add: same)
qed

section \<open>The states of a running node\<close>

text \<open>
  The node starts from its database, in which the version of every block is recorded, and then
  adds blocks, each stored in the database before it is reported to the fork handler.
\<close>

inductive hf_reach :: "hard_fork \<Rightarrow> bool" where
  start: "forks_ok (hf_heights hf) \<Longrightarrow> 0 < hf_window_size hf \<Longrightarrow> hf_window_size hf < 2 ^ 32 \<Longrightarrow>
    hf_blocks hf \<noteq> [] \<Longrightarrow> length (hf_blocks hf) < 2 ^ 64 \<Longrightarrow> hf_recorded hf 0 \<noteq> None \<Longrightarrow>
    p \<in> set (hf_heights hf) \<Longrightarrow> hf_recorded hf (db_height hf - 1) = Some (fp_version p) \<Longrightarrow> fp_height p \<le> db_height hf \<Longrightarrow>
    init_hard_fork hf = Some hf' \<Longrightarrow> hf_reach hf'"
| add: "hf_reach hf \<Longrightarrow> Suc (length (hf_blocks hf)) < 2 ^ 64 \<Longrightarrow>
    add_block b (db_height hf) (hf\<lparr>hf_blocks := hf_blocks hf @ [b]\<rparr>) = (True, hf') \<Longrightarrow> hf_reach hf'"

lemma hf_reach_follows: "hf_reach hf \<Longrightarrow> hf_ok hf \<and> follows_db hf"
proof (induction rule: hf_reach.induct)
  case (start hf p hf')
  obtain c where "c < length (hf_heights hf)" "hf_heights hf ! c = p"
    using start.hyps(7) by (auto simp: in_set_conv_nth)
  moreover have "unat (hf_window_size hf) < 2 ^ 32"
    using start.hyps(3) by (simp add: word_less_nat_alt)
  ultimately show ?case
    using init_follows [of hf c hf'] start.hyps by auto
next
  case (add hf b hf')
  then show ?case using add_block_follows by blast
qed

lemmas hf_reach_ok = hf_reach_follows [THEN conjunct1]
lemmas hf_reach_db = hf_reach_follows [THEN conjunct2]

lemma follows_db_ideal:
  assumes ok: "hf_ok hf" and fdb: "follows_db hf"
    and zero: "\<forall>p \<in> set (hf_heights hf). fp_threshold p = 0" and n: "n < length (hf_heights hf)"
    and nh: "fp_height (hf_heights hf ! n) \<le> db_height hf"
  shows "n \<le> hf_current_fork_index hf"
proof (rule ccontr)
  assume *: "\<not> n \<le> hf_current_fork_index hf"
  obtain c where c: "c < length (hf_heights hf)" and cur: "hf = apply_voted (db_height hf) (hf\<lparr>hf_current_fork_index := c\<rparr>)"
    using fdb by (auto simp: follows_db_def)
  let ?m = "hf\<lparr>hf_current_fork_index := c\<rparr>"
  have okm: "hf_ok ?m"
    using ok c by (simp add: hf_ok_def votes_ok_def)
  have "fp_threshold (hf_heights hf ! n) = 0"
    using zero n by (simp add: nth_mem)
  then have "passes ?m (db_height hf) n"
    using nh by (simp add: passes_def fork_threshold_def)
  moreover have "get_voted_fork_index ?m (db_height hf) < n"
    using * arg_cong [OF cur, of hf_current_fork_index] by (simp add: apply_voted_eq [OF okm])
  ultimately show False
    using voted_index_correct(4) [OF okm] n by (auto simp flip: One_nat_def)
qed

lemma ideal_version_loop_at:
  assumes "forks_ok (hf_heights hf)" and "n < length (hf_heights hf)" and "c \<le> n"
    and "fp_height (hf_heights hf ! c) \<le> height" and "\<And>k. c < k \<Longrightarrow> k \<le> n \<Longrightarrow> height < fp_height (hf_heights hf ! k)"
    and "fp_version (hf_heights hf ! 0) = hf_original_version hf"
  shows "ideal_version_loop hf height n = fp_version (hf_heights hf ! c)"
  using assms
proof (induction n)
  case (Suc n)
  show ?case
  proof (cases "c = Suc n")
    case False
    then have "\<not> fp_height (hf_heights hf ! Suc n) \<le> height"
      using Suc.prems(3,5) by (simp add: not_le)
    with False show ?thesis using Suc by simp
  qed (use Suc.prems in simp)
qed simp

lemma current_is_ideal:
  assumes ok: "hf_ok hf" and fdb: "follows_db hf" and zero: "\<forall>p \<in> set (hf_heights hf). fp_threshold p = 0"
    and orig: "fp_version (hf_heights hf ! 0) = hf_original_version hf"
  shows "get_current_version hf = get_ideal_version_for_height hf (db_height hf)"
proof -
  let ?c = "hf_current_fork_index hf"
  have c: "?c < length (hf_heights hf)" and fo: "forks_ok (hf_heights hf)"
    using ok by (simp_all add: hf_ok_def)
  have later: "db_height hf < fp_height (hf_heights hf ! k)" if "?c < k" "k < length (hf_heights hf)" for k
    using follows_db_ideal [OF ok fdb zero that(2)] that(1) by (meson leI leD)
  have "ideal_version_loop hf (db_height hf) (length (hf_heights hf) - 1) = fp_version (hf_heights hf ! ?c)"
    using c later follows_db_height [OF ok fdb] by (intro ideal_version_loop_at [OF fo]) (auto simp: orig current_params_def)
  then show ?thesis
    by (simp add: get_current_version_def get_ideal_version_for_height_def current_params_def)
qed


text \<open>
  C28. Restarting a node changes nothing: whatever the members held before, \<open>init\<close>
  computes from the database the state in which the node was, the counters, the window and the fork
  in force.
\<close>

theorem restart_restores_hard_fork:
  assumes "hf_reach hf"
  shows "init_hard_fork (hf\<lparr>hf_versions := vs, hf_last_versions := f, hf_current_fork_index := n\<rparr>) = Some hf"
  using follows_db_restart hf_reach_follows [OF assms] by blast

text \<open>
  C30. The fork that the votes select for a height is the newest one whose height is reached
  and whose votes in the window, for it or for a later fork, reach its threshold, and never one
  older than the fork in force.
\<close>

theorem voted_fork_is_newest_passing:
  assumes "hf_reach hf"
  shows "get_voted_fork_index hf height =
    Max (insert (hf_current_fork_index hf)
      {n. n < length (hf_heights hf) \<and> fp_height (hf_heights hf ! n) \<le> height \<and>
          unat (fork_threshold hf (hf_heights hf ! n)) \<le>
            length (filter (\<lambda>v. v \<in> fp_version ` set (drop n (hf_heights hf))) (hf_versions hf))})"
    (is "_ = Max (insert _ ?S)")
proof -
  note g = voted_index_correct [OF hf_reach_ok [OF assms], of height]
  have S: "?S = {n. n < length (hf_heights hf) \<and> passes hf height n}"
    by (auto simp: passes_def votes_for_def)
  show ?thesis
    unfolding S
  proof (intro Max_eqI [symmetric])
    fix n assume "n \<in> insert (hf_current_fork_index hf) {n. n < length (hf_heights hf) \<and> passes hf height n}"
    then show "n \<le> get_voted_fork_index hf height"
      using g(1) g(4) [of n] by (auto simp: not_less [symmetric])
  next
    show "get_voted_fork_index hf height \<in> insert (hf_current_fork_index hf) {n. n < length (hf_heights hf) \<and> passes hf height n}"
      using g(1,2,3) by (cases "hf_current_fork_index hf < get_voted_fork_index hf height") auto
  qed simp
qed

text \<open>
  C27. When no fork of the table asks for votes, as in the tables of the three networks, the
  version in force is the scheduled one at every height: a new block is accepted if and only if its
  major version is the version of the newest fork whose height the chain has reached and its minor
  version does not vote for an older one.
\<close>

theorem scheduled_version_in_force:
  assumes "hf_reach hf" and "\<forall>p \<in> set (hf_heights hf). fp_threshold p = 0"
    and "fp_version (hf_heights hf ! 0) = hf_original_version hf"
  shows "get_version hf (db_height hf) = Some (get_ideal_version_for_height hf (db_height hf)) \<and>
    (fst (add_block b (db_height hf) hf) \<longleftrightarrow>
      major_version b = get_ideal_version_for_height hf (db_height hf) \<and>
      get_ideal_version_for_height hf (db_height hf) \<le> get_block_vote b)"
  using current_is_ideal [OF hf_reach_ok [OF assms(1)] hf_reach_db [OF assms(1)] assms(2,3)]
  by (auto simp: get_version_def add_block_def add_vote_def do_check_def get_current_version_def get_block_version_def Let_def)

section \<open>The main network\<close>

text \<open>A node of the main network that starts with the genesis block and adds the first block.\<close>

definition example_fork_block :: "u8 \<Rightarrow> block" where
  "example_fork_block v = example_block\<lparr>major_version := v, minor_version := v\<rparr>"

definition mainnet_genesis :: hard_fork where
  "mainnet_genesis =
     add_forks mainnet_hard_forks (the (new_hard_fork [example_fork_block 1] [0 \<mapsto> 1] 1 1 31557600 15778800 10080 80))"

definition mainnet_started :: hard_fork where
  "mainnet_started = the (init_hard_fork mainnet_genesis)"

definition mainnet_first :: hard_fork where
  "mainnet_first =
     snd (add_block (example_fork_block 7) 1
       (mainnet_started\<lparr>hf_blocks := hf_blocks mainnet_started @ [example_fork_block 7]\<rparr>))"

lemma add_forks_all:
  "sorted_wrt (\<lambda>p q. fp_version p < fp_version q \<and> fp_height p < fp_height q \<and> fp_time p < fp_time q) (hf_heights hf @ ps) \<Longrightarrow>
   \<forall>p \<in> set ps. fp_version p \<noteq> 0 \<and> fp_threshold p \<le> 100 \<Longrightarrow>
   add_forks ps hf = hf\<lparr>hf_heights := hf_heights hf @ ps\<rparr>"
proof (induction ps arbitrary: hf)
  case (Cons p ps)
  have "\<forall>q \<in> set (hf_heights hf). fp_version q < fp_version p \<and> fp_height q < fp_height p \<and> fp_time q < fp_time p"
    using Cons.prems(1) by (auto simp: sorted_wrt_append)
  then have "snd (add_fork (fp_version p) (fp_height p) (fp_threshold p) (fp_time p) hf) = hf\<lparr>hf_heights := hf_heights hf @ [p]\<rparr>"
    using Cons.prems(2) last_in_set [of "hf_heights hf"] by (fastforce simp: add_fork_def not_le not_less)
  then show ?case
    using Cons.IH [of "hf\<lparr>hf_heights := hf_heights hf @ [p]\<rparr>"] Cons.prems by (simp add: add_forks_def)
qed (simp add: add_forks_def)

lemma network_tables:
  "sorted_wrt (\<lambda>p q. fp_version p < fp_version q \<and> fp_height p < fp_height q \<and> fp_time p < fp_time q) mainnet_hard_forks \<and>
   (\<forall>p \<in> set mainnet_hard_forks. fp_version p \<noteq> 0 \<and> fp_threshold p = 0)"
  "sorted_wrt (\<lambda>p q. fp_version p < fp_version q \<and> fp_height p < fp_height q \<and> fp_time p < fp_time q) testnet_hard_forks \<and>
   (\<forall>p \<in> set testnet_hard_forks. fp_version p \<noteq> 0 \<and> fp_threshold p = 0)"
  "sorted_wrt (\<lambda>p q. fp_version p < fp_version q \<and> fp_height p < fp_height q \<and> fp_time p < fp_time q) stagenet_hard_forks \<and>
   (\<forall>p \<in> set stagenet_hard_forks. fp_version p \<noteq> 0 \<and> fp_threshold p = 0)"
  by (simp_all add: mainnet_hard_forks_def testnet_hard_forks_def stagenet_hard_forks_def fork_entry_def)

lemma forks_okI:
  assumes "sorted_wrt (\<lambda>p q. fp_version p < fp_version q \<and> fp_height p < fp_height q \<and> fp_time p < fp_time q) ps" and "ps \<noteq> []"
  shows "forks_ok ps"
  unfolding forks_ok_def using assms by (auto elim: sorted_wrt_mono_rel [rotated])

lemma mainnet_genesis_eq:
  "mainnet_genesis = (the (new_hard_fork [example_fork_block 1] [0 \<mapsto> 1] 1 1 31557600 15778800 10080 80))
     \<lparr>hf_heights := mainnet_hard_forks\<rparr>"
  unfolding mainnet_genesis_def using network_tables(1) by (subst add_forks_all) (auto simp: new_hard_fork_def)

lemma mainnet_started_reach: "hf_reach mainnet_started" "init_hard_fork mainnet_genesis = Some mainnet_started"
proof -
  have fo: "forks_ok mainnet_hard_forks"
    using network_tables(1) by (intro forks_okI) (simp_all add: mainnet_hard_forks_def)
  have g: "hf_heights mainnet_genesis = mainnet_hard_forks" "hf_blocks mainnet_genesis = [example_fork_block 1]"
      "hf_recorded mainnet_genesis = [0 \<mapsto> 1]" "hf_window_size mainnet_genesis = 10080" "db_height mainnet_genesis = 1"
    by (simp_all add: mainnet_genesis_eq new_hard_fork_def db_height_def)
  have h: "mainnet_hard_forks \<noteq> []" "fp_version (mainnet_hard_forks ! 0) = 1" "fp_height (mainnet_hard_forks ! 0) = 0"
    by (simp_all add: mainnet_hard_forks_def fork_entry_def)
  obtain hf where hf: "init_hard_fork mainnet_genesis = Some hf"
    using init_hard_fork_eq [of mainnet_genesis 0] fo g h by auto
  then show i: "init_hard_fork mainnet_genesis = Some mainnet_started"
    by (simp add: mainnet_started_def)
  show "hf_reach mainnet_started"
    by (rule hf_reach.start [OF _ _ _ _ _ _ _ _ _ i, of "mainnet_hard_forks ! 0"]) (simp_all add: fo g h)
qed

lemma apply_voted_fields [simp]:
  "hf_heights (apply_voted h hf) = hf_heights hf" "hf_blocks (apply_voted h hf) = hf_blocks hf"
  "hf_original_version (apply_voted h hf) = hf_original_version hf" "hf_window_size (apply_voted h hf) = hf_window_size hf"
  by (simp_all add: apply_voted_def Let_def)

lemma add_block_fields:
  assumes "add_block b h hf = (True, hf')"
  shows "hf_heights hf' = hf_heights hf" "hf_blocks hf' = hf_blocks hf" "hf_original_version hf' = hf_original_version hf"
    "hf_window_size hf' = hf_window_size hf"
  using add_vote_split(2) [OF assms [unfolded add_block_def]] by (simp_all add: push_vote_def)

lemma mainnet_started_fields:
  "hf_heights mainnet_started = mainnet_hard_forks" "hf_blocks mainnet_started = [example_fork_block 1]"
  "hf_original_version mainnet_started = 1" "db_height mainnet_started = 1" "hf_window_size mainnet_started = 10080"
proof -
  have fo: "forks_ok mainnet_hard_forks"
    using network_tables(1) by (intro forks_okI) (simp_all add: mainnet_hard_forks_def)
  have g: "hf_heights mainnet_genesis = mainnet_hard_forks" "hf_blocks mainnet_genesis = [example_fork_block 1]" "hf_original_version mainnet_genesis = 1"
      "hf_recorded mainnet_genesis = [0 \<mapsto> 1]" "hf_window_size mainnet_genesis = 10080" "db_height mainnet_genesis = 1"
    by (simp_all add: mainnet_genesis_eq new_hard_fork_def db_height_def)
  have h: "mainnet_hard_forks \<noteq> []" "fp_version (mainnet_hard_forks ! 0) = 1" "fp_height (mainnet_hard_forks ! 0) = 0"
    by (simp_all add: mainnet_hard_forks_def fork_entry_def)
  obtain f where st: "mainnet_started = apply_voted 1
      (mainnet_genesis\<lparr>hf_versions := window_votes mainnet_genesis, hf_last_versions := f, hf_current_fork_index := 0\<rparr>)"
    using init_hard_fork_eq [of mainnet_genesis 0] fo g h mainnet_started_reach(2) by auto
  show "hf_heights mainnet_started = mainnet_hard_forks" "hf_blocks mainnet_started = [example_fork_block 1]"
    "hf_original_version mainnet_started = 1" "db_height mainnet_started = 1" "hf_window_size mainnet_started = 10080"
    unfolding st using g by (simp_all add: db_height_def)
qed

lemma mainnet_forks_ok: "forks_ok mainnet_hard_forks"
  using network_tables(1) by (intro forks_okI) (simp_all add: mainnet_hard_forks_def)

lemma mainnet_entries:
  "length mainnet_hard_forks = 12" "mainnet_hard_forks ! 0 = fork_entry 1 0 1341378000" "mainnet_hard_forks ! 1 = fork_entry 7 1 1503046577"
  "mainnet_hard_forks ! 2 = fork_entry 8 64445 1523570400" "mainnet_hard_forks ! 3 = fork_entry 9 68000 1524229900"
  by (simp_all add: mainnet_hard_forks_def)

lemma mainnet_first_version: "fp_version (mainnet_hard_forks ! 0) = 1"
  by (simp add: mainnet_entries(2) fork_entry_def)

lemma mainnet_later:
  assumes "n < 12" "m < n"
  shows "fp_height (mainnet_hard_forks ! Suc m) \<le> fp_height (mainnet_hard_forks ! n)"
  using forks_ok_versions(2) [OF mainnet_forks_ok, of "Suc m" n] assms mainnet_entries(1) by (cases "n = Suc m") auto

lemma mainnet_ideal:
  assumes hf: "hf_heights hf = mainnet_hard_forks" "hf_original_version hf = 1" and height: "1 \<le> height" "height < 64445"
  shows "get_ideal_version_for_height hf height = 7"
proof -
  have "height < fp_height (mainnet_hard_forks ! k)" if "1 < k" "k \<le> 11" for k
    using mainnet_later [of k 1] that height(2) mainnet_entries(4) by (simp add: fork_entry_def numeral_2_eq_2)
  then have "ideal_version_loop hf height 11 = fp_version (mainnet_hard_forks ! 1)"
    using height(1) mainnet_forks_ok mainnet_first_version
    by (subst ideal_version_loop_at [of _ _ 1]) (simp_all add: hf mainnet_entries fork_entry_def del: One_nat_def)
  then show ?thesis
    by (simp add: get_ideal_version_for_height_def hf mainnet_entries fork_entry_def del: One_nat_def)
qed

lemma mainnet_first_reach:
  "add_block (example_fork_block 7) 1 (mainnet_started\<lparr>hf_blocks := hf_blocks mainnet_started @ [example_fork_block 7]\<rparr>) =
     (True, mainnet_first)"
  "hf_reach mainnet_first"
proof -
  let ?hf = "mainnet_started\<lparr>hf_blocks := hf_blocks mainnet_started @ [example_fork_block 7]\<rparr>"
  note reach = mainnet_started_reach(1)
  have "get_current_version mainnet_started = get_ideal_version_for_height mainnet_started (db_height mainnet_started)"
    using network_tables(1) mainnet_first_version
    by (intro current_is_ideal hf_reach_ok [OF reach] hf_reach_db [OF reach]) (simp_all add: mainnet_started_fields)
  then have "fp_version (current_params ?hf) = 7"
    by (simp add: get_current_version_def current_params_def mainnet_ideal mainnet_started_fields)
  then have "fst (add_block (example_fork_block 7) 1 ?hf)"
    by (simp add: add_block_def add_vote_def do_check_def example_fork_block_def get_block_version_def get_block_vote_def Let_def)
  then show add: "add_block (example_fork_block 7) 1 ?hf = (True, mainnet_first)"
    by (simp add: mainnet_first_def prod_eq_iff)
  show "hf_reach mainnet_first"
    using hf_reach.add [OF reach, of "example_fork_block 7" mainnet_first] add by (simp add: mainnet_started_fields)
qed

lemma mainnet_first_fields:
  "hf_heights mainnet_first = mainnet_hard_forks" "hf_blocks mainnet_first = [example_fork_block 1, example_fork_block 7]"
  "hf_original_version mainnet_first = 1" "db_height mainnet_first = 2" "hf_window_size mainnet_first = 10080"
  using add_block_fields [OF mainnet_first_reach(1)] by (simp_all add: db_height_def mainnet_started_fields)


theorem restart_restores_hard_fork_witness:
  "hf_reach mainnet_first \<and>
   init_hard_fork (mainnet_first\<lparr>hf_versions := [], hf_last_versions := (\<lambda>_. 0), hf_current_fork_index := 0\<rparr>) = Some mainnet_first"
  using restart_restores_hard_fork mainnet_first_reach(2) by blast

theorem scheduled_version_in_force_witness:
  "hf_reach mainnet_first \<and> get_version mainnet_first 2 = Some 7 \<and> fst (add_block (example_fork_block 7) 2 mainnet_first) \<and>
   \<not> fst (add_block (example_fork_block 8) 2 mainnet_first)"
  using scheduled_version_in_force [OF mainnet_first_reach(2)] network_tables(1) mainnet_first_version mainnet_first_reach(2)
  by (simp add: mainnet_first_fields mainnet_ideal) (simp add: example_fork_block_def get_block_vote_def)

text \<open>With the votes of one block, the main network selects fork 8 (index 2) at its height.\<close>

theorem voted_fork_is_newest_passing_witness:
  "hf_reach mainnet_first \<and> get_voted_fork_index mainnet_first 64445 = 2"
proof -
  let ?hf = mainnet_first
  have late: "n \<le> 2" if "n < 12" "fp_height (mainnet_hard_forks ! n) \<le> 64445" for n
  proof (rule ccontr)
    assume "\<not> n \<le> 2"
    then have "fp_height (mainnet_hard_forks ! 3) \<le> fp_height (mainnet_hard_forks ! n)"
      using mainnet_later [of n 2] that(1) by (simp add: numeral_3_eq_3 numeral_2_eq_2)
    from order_trans [OF this that(2)] show False
      by (simp add: mainnet_entries(5) fork_entry_def)
  qed
  have cur: "hf_current_fork_index ?hf \<le> 2"
    using follows_db_height [OF hf_reach_ok [OF mainnet_first_reach(2)] hf_reach_db [OF mainnet_first_reach(2)]]
      hf_reach_ok [OF mainnet_first_reach(2)] order_trans [of _ 2 "64445 :: u64"]
    by (intro late) (auto simp: hf_ok_def current_params_def mainnet_first_fields mainnet_entries)
  show ?thesis
    using voted_fork_is_newest_passing [OF mainnet_first_reach(2), of 64445] mainnet_first_reach(2) cur late
    by (subst (asm) Max_eqI [of _ 2]) (auto simp: mainnet_first_fields mainnet_entries fork_entry_def fork_threshold_def)
qed

end
