(* ===== verification/Parsed_Values.thy ===== *)
theory Parsed_Values
  imports Transaction
begin

text \<open>
  What the parsers of transactions and blocks can return for arbitrary bytes. \<open>yields\<close> states
  it for one loader and is closed under the sequencing of fields; the locale \<open>typed_codec\<close>
  adds to the contract of a codec that the loader returns only values the saver can write.
\<close>

section \<open>What a loader can return\<close>

definition yields :: "'a loader \<Rightarrow> ('a \<Rightarrow> bool) \<Rightarrow> bool" where
  "yields load P \<longleftrightarrow> (\<forall>bs x rest. load bs = Some (x, rest) \<longrightarrow> P x)"

lemma yields_mono: "yields load P \<Longrightarrow> (\<And>x. P x \<Longrightarrow> Q x) \<Longrightarrow> yields load Q"
  by (auto simp: yields_def)

lemma yields_bind:
  "yields load P \<Longrightarrow> (\<And>x. P x \<Longrightarrow> yields (k x) Q) \<Longrightarrow> yields (load_bind load k) Q"
  by (fastforce simp: yields_def load_bind_def split: option.splits)

lemma yields_return: "P x \<Longrightarrow> yields (load_return x) P"
  by (simp add: yields_def load_return_def)

lemma yields_guard: "yields (load_guard b) (\<lambda>_. b)"
  by (simp add: yields_def load_guard_def)

lemma yields_remaining: "yields (load_remaining n) (\<lambda>_. True)"
  by (simp add: yields_def)

lemma yields_any: "yields load (\<lambda>_. True)"
  by (simp add: yields_def)

lemma yields_blob: "yields (load_blob n) (blob_fits n)"
  by (auto simp: yields_def load_blob_def blob_fits_def split: if_splits)

lemma yields_map: "yields load P \<Longrightarrow> (\<And>x. P x \<Longrightarrow> Q (f x)) \<Longrightarrow> yields (load_map f load) Q"
  unfolding load_map_def by (erule yields_bind) (rule yields_return, blast)

lemma yields_elements: "yields load P \<Longrightarrow> yields (load_elements load n) (\<lambda>v. list_all P v \<and> length v = n)"
proof (induction n)
  case (Suc n)
  show ?case
    unfolding load_elements.simps
    by (rule yields_bind [OF Suc.prems], rule yields_bind [OF Suc.IH [OF Suc.prems]], rule yields_return) simp
qed (simp add: yields_return)

lemma yields_sized: "yields load P \<Longrightarrow> yields (load_sized n load) (sized_fits n P)"
  using yields_elements [of load P n] by (simp add: load_sized_def sized_fits_def [abs_def])

lemma yields_container:
  assumes "yields load P"
  shows "yields (load_container load) (container_fits P)"
proof -
  have "yields (load_elements load (unat cnt)) (container_fits P)" for cnt :: u64
    by (rule yields_mono [OF yields_elements [OF assms]]) (use unsigned_less [of cnt] in \<open>auto simp: container_fits_def\<close>)
  then show ?thesis
    unfolding load_container_def by (blast intro: yields_bind yields_any)
qed

lemma yields_tagged:
  assumes "\<forall>(t, load) \<in> set alternatives. yields load P"
  shows "yields (load_tagged alternatives) P"
  unfolding load_tagged_def
proof (rule yields_bind [OF yields_any])
  fix t
  show "yields (case map_of alternatives t of None \<Rightarrow> load_fail | Some load \<Rightarrow> load) P"
    using assms map_of_SomeD [of alternatives t] by (fastforce simp: yields_def load_fail_def split: option.splits)
qed

text \<open>A loader that returns only values its saver can write again.\<close>

locale typed_codec = codec +
  assumes typed: "yields load fits"
begin

lemma parsed_fits: "parse_binary load b = Some x \<Longrightarrow> fits x"
  using typed by (auto simp: parse_binary_def yields_def split: option.splits prod.splits if_splits)

lemma parse_dump:
  "parse_binary load b = Some x \<Longrightarrow> \<exists>b'. dump_binary save x = Some b' \<and> parse_binary load b' = Some x"
  using parsed_fits dump_parse by blast

end

section \<open>Prefixes\<close>

lemma yields_bytes: "yields load_bytes vector_fits"
  unfolding load_bytes_def
  by (rule yields_mono [OF yields_container [OF yields_any]]) (simp add: container_fits_def vector_fits_def)

lemma yields_u64s: "yields load_u64s vector_fits"
  unfolding load_u64s_def
  by (rule yields_mono [OF yields_container [OF yields_any]]) (simp add: container_fits_def vector_fits_def)

lemmas yields_basic = yields_bytes yields_u64s yields_blob yields_container [OF yields_blob] yields_sized [OF yields_blob] yields_guard

lemma yields_script: "yields load_script script_fits"
  unfolding load_script_def by (rule yields_bind yields_basic yields_return | simp add: script_fits_def)+

lemma yields_target: "yields load_target target_fits"
  unfolding load_target_def
  by (rule yields_tagged) (auto intro!: yields_map [OF yields_script] yields_map [OF yields_blob])

lemma yields_tx_out: "yields load_tx_out tx_out_fits"
  unfolding load_tx_out_def
  by (rule yields_bind [OF yields_any] yields_bind [OF yields_target] yields_return | simp add: tx_out_fits_def)+

lemma yields_txin: "yields load_txin txin_fits"
  unfolding load_txin_def
  by (rule yields_tagged)
    (auto intro!: yields_bind [OF yields_any [of load_varint]] yields_bind [OF yields_blob] yields_bind [OF yields_bytes]
      yields_bind [OF yields_u64s] yields_bind [OF yields_script] yields_return)

lemma yields_prefix: "yields load_transaction_prefix prefix_fits"
  unfolding load_transaction_prefix_def
  by (rule yields_bind [OF yields_any], rule yields_bind [OF yields_guard], rule yields_bind [OF yields_any],
    rule yields_bind [OF yields_container [OF yields_txin]], rule yields_bind [OF yields_container [OF yields_tx_out]],
    rule yields_bind [OF yields_bytes], rule yields_return) (simp add: prefix_fits_def)

section \<open>Ring signatures\<close>

lemma yields_ecdh: "yields load_ecdh_tuple ecdh_tuple_fits"
  unfolding load_ecdh_tuple_def
  by (rule yields_bind [OF yields_blob], rule yields_bind [OF yields_blob], rule yields_return) (simp add: ecdh_tuple_fits_def)

lemma yields_out_pk: "yields load_out_pk out_pk_fits"
  unfolding load_out_pk_def by (rule yields_map [OF yields_blob]) (simp add: out_pk_fits_def)

lemma yields_rctsig_base: "yields (load_rctsig_base inputs outputs) (rctsig_base_fits inputs outputs)"
  unfolding load_rctsig_base_def
proof (rule yields_bind [OF yields_any], goal_cases)
  case (1 t)
  have pseudo: "yields (if t = RCTTypeSimple then load_sized inputs (load_blob 32) else load_return [])
      (\<lambda>v. if t = RCTTypeSimple then sized_fits inputs (blob_fits 32) v else v = [])"
    by (auto intro: yields_sized yields_blob yields_return)
  show ?case
  proof (cases "t = RCTTypeNull")
    case True
    then show ?thesis by (simp add: yields_return rctsig_base_fits_def null_rct_base_def)
  next
    case False
    show ?thesis
      unfolding if_not_P [OF False]
      by (rule yields_bind [OF yields_guard], rule yields_bind [OF yields_any], rule yields_bind [OF pseudo],
        rule yields_bind [OF yields_sized [OF yields_ecdh]], rule yields_bind [OF yields_sized [OF yields_out_pk]],
        rule yields_return) (simp add: rctsig_base_fits_def False)
  qed
qed

lemma yields_range_sig: "yields load_range_sig range_sig_fits"
  unfolding load_range_sig_def
  by (rule yields_bind [OF yields_blob], rule yields_bind [OF yields_blob], rule yields_return) (simp add: range_sig_fits_def)

lemma yields_bulletproof: "yields load_bulletproof bulletproof_fits"
  unfolding load_bulletproof_def
  by ((rule yields_bind [OF yields_blob] yields_bind [OF yields_container [OF yields_blob]] yields_bind [OF yields_guard])+,
    rule yields_return) (simp add: bulletproof_fits_def)

lemma yields_mg: "yields (load_mg rows columns) (mg_fits rows columns)"
  unfolding load_mg_def
  by (rule yields_bind [OF yields_sized [OF yields_sized [OF yields_blob]]], rule yields_bind [OF yields_blob], rule yields_return)
    (simp add: mg_fits_def)

lemma yields_proofs: "yields (load_proofs t outputs) (proofs_fits t outputs)"
proof (cases "t = RCTTypeBulletproof")
  case True
  show ?thesis
    unfolding load_proofs_def if_P [OF True]
  proof (rule yields_bind [OF yields_any], rule yields_bind [OF yields_guard], goal_cases)
    case (1 nbp u)
    show ?case
      by (rule yields_bind [OF yields_sized [OF yields_bulletproof]], rule yields_bind [OF yields_guard], rule yields_return)
        (use 1 unsigned_less [of nbp] in \<open>auto simp: proofs_fits_def True sized_fits_def not_less\<close>)
  qed
next
  case False
  show ?thesis
    unfolding load_proofs_def if_not_P [OF False]
    by (rule yields_map [OF yields_sized [OF yields_range_sig]]) (simp add: proofs_fits_def False)
qed

lemma yields_rctsig_prunable:
  assumes "t \<noteq> RCTTypeNull"
  shows "yields (load_rctsig_prunable t inputs outputs mixin) (rctsig_prunable_fits t inputs outputs mixin)"
proof -
  have pseudo: "yields (if t = RCTTypeBulletproof then load_sized inputs (load_blob 32) else load_return [])
      (\<lambda>v. if t = RCTTypeBulletproof then sized_fits inputs (blob_fits 32) v else v = [])"
    by (auto intro: yields_sized yields_blob yields_return)
  show ?thesis
    unfolding load_rctsig_prunable_def if_not_P [OF assms]
  proof (rule yields_bind [OF yields_guard], rule yields_bind [OF yields_proofs], goal_cases)
    case (1 u v)
    show ?case
      unfolding split_beta
      by (rule yields_bind [OF yields_sized [OF yields_mg]], rule yields_bind [OF pseudo], rule yields_return)
        (use 1 in \<open>simp add: rctsig_prunable_fits_def\<close>)
  qed
qed

lemma yields_signatures1: "yields (load_signatures1 n) (sized_fits n (blob_fits 64))"
  unfolding load_signatures1_def
  by (rule yields_bind [OF yields_any]) (use yields_elements [OF yields_blob] in \<open>simp add: sized_fits_def [abs_def]\<close>)

lemma yields_signatures: "yields (load_signatures ins) (signatures_fit ins)"
proof (induction ins)
  case Nil
  show ?case by (simp add: yields_return signatures_fit_def)
next
  case (Cons i ins)
  show ?case
    unfolding load_signatures.simps
    by (rule yields_bind [OF yields_signatures1], rule yields_bind [OF Cons.IH], rule yields_return) (simp add: signatures_fit_def)
qed

lemma yields_rct: "yields (load_rct p) (rct_fits p)"
proof (cases "vin p = []")
  case True
  then show ?thesis by (simp add: load_rct_def yields_return rct_fits_def)
next
  case False
  have prunable: "yields
      (if rct_type b \<noteq> RCTTypeNull
       then load_rctsig_prunable (rct_type b) (length (vin p)) (length (vout p)) (mixin_of (vin p))
       else load_return null_rct_p)
      (\<lambda>r. if rct_type b = RCTTypeNull then r = null_rct_p
           else rctsig_prunable_fits (rct_type b) (length (vin p)) (length (vout p)) (mixin_of (vin p)) r)" for b
    using yields_rctsig_prunable [of "rct_type b"] by (simp add: yields_return)
  show ?thesis
    unfolding load_rct_def if_not_P [OF False]
    by (rule yields_bind [OF yields_rctsig_base], rule yields_bind [OF prunable], rule yields_return)
      (auto simp: rct_fits_def False)
qed

section \<open>Transactions and blocks\<close>

lemma yields_transaction_body: "yields (load_transaction_body p) (body_fits p)"
  unfolding load_transaction_body_def
  by (auto simp: body_fits_def intro!: yields_map [OF yields_signatures] yields_map [OF yields_rct] yields_return)

lemma yields_rta_part: "yields (load_rta_part p) (rta_part_fits p)"
  unfolding load_rta_part_def
  by (auto simp: rta_part_fits_def intro!: yields_bind [OF yields_any [of load_uint]] yields_bind [OF yields_bytes] yields_return)

lemma yields_transaction: "yields load_transaction transaction_fits"
  unfolding load_transaction_def
proof (rule yields_bind [OF yields_prefix], rule yields_bind [OF yields_transaction_body], goal_cases)
  case (1 p v)
  show ?case
    unfolding split_beta
    by (rule yields_bind [OF yields_rta_part], rule yields_return) (use 1 in \<open>simp add: transaction_fits_def\<close>)
qed

lemma yields_block: "yields load_block block_fits"
  unfolding load_block_def
  by (rule yields_bind [OF yields_any], rule yields_bind [OF yields_any], rule yields_bind [OF yields_any], rule yields_bind [OF yields_blob],
    rule yields_bind [OF yields_any], rule yields_bind [OF yields_transaction], rule yields_bind [OF yields_container [OF yields_blob]],
    rule yields_return) (simp add: block_fits_def)

interpretation transaction_typed: typed_codec save_transaction load_transaction transaction_fits
  by unfold_locales (rule yields_transaction)

interpretation block_typed: typed_codec save_block load_block block_fits
  by unfold_locales (rule yields_block)

section \<open>Expanded transactions\<close>

lemma outPk_fits_null:
  assumes "transaction_fits tx"
  shows "\<forall>k \<in> set (outPk (rct_base tx)). ct_dest k = null_key" and "\<forall>bp \<in> set (bulletproofs (rct_p tx)). bp_V bp = []"
  using assms
  by (auto simp: transaction_fits_def body_fits_def rct_fits_def rctsig_base_fits_def rctsig_prunable_fits_def proofs_fits_def
      sized_fits_def list_all_iff out_pk_fits_def bulletproof_fits_def null_rct_base_def null_rct_p_def split: if_splits)

lemma strip_fits:
  assumes "transaction_fits tx"
  shows "strip tx = tx"
proof -
  have "map (\<lambda>k. k\<lparr>ct_dest := null_key\<rparr>) (outPk (rct_base tx)) = outPk (rct_base tx)"
    using outPk_fits_null(1) [OF assms] by (intro map_idI) auto
  moreover have "map (\<lambda>bp. bp\<lparr>bp_V := []\<rparr>) (bulletproofs (rct_p tx)) = bulletproofs (rct_p tx)"
    using outPk_fits_null(2) [OF assms] by (intro map_idI) auto
  ultimately show ?thesis by (simp add: strip_def)
qed

lemma set_dests_result:
  "set_dests ks outs = Some ks' \<Longrightarrow> length ks = length outs \<Longrightarrow>
   list_all2 (\<lambda>k out. target_key (out_target out) = Some (ct_dest k)) ks' outs \<and>
   map (\<lambda>k. k\<lparr>ct_dest := null_key\<rparr>) ks' = map (\<lambda>k. k\<lparr>ct_dest := null_key\<rparr>) ks"
  by (induction ks outs arbitrary: ks' rule: set_dests.induct) (auto split: option.splits)

lemma expand_result:
  assumes fits: "transaction_fits tx0" and ex: "expand_transaction_1 f False tx0 = Some tx"
  shows "strip tx = tx0 \<and> expanded f tx"
proof (cases "2 \<le> version (tx_prefix tx0) \<and> \<not> is_coinbase tx0")
  case False
  then have "tx = tx0" using ex by (auto simp: expand_transaction_1_def split: if_splits)
  then show ?thesis using False strip_fits [OF fits] by (auto simp: expanded_def)
next
  case True
  let ?outs = "vout (tx_prefix tx0)"
  note V = outPk_fits_null(2) [OF fits]
  obtain pks where len: "length (outPk (rct_base tx0)) = length ?outs"
    and pks: "set_dests (outPk (rct_base tx0)) ?outs = Some pks"
    using ex True by (auto simp: expand_transaction_1_def split: if_splits option.splits)
  let ?tx = "tx0\<lparr>rct_base := (rct_base tx0)\<lparr>outPk := pks\<rparr>\<rparr>"
  note dests = set_dests_result [OF pks len]
  have strip: "strip (tx0\<lparr>rct_base := (rct_base tx0)\<lparr>outPk := pks\<rparr>, rct_p := (rct_p tx0)\<lparr>bulletproofs := bps\<rparr>\<rparr>) = strip tx0"
    if "map (\<lambda>bp. bp\<lparr>bp_V := []\<rparr>) bps = map (\<lambda>bp. bp\<lparr>bp_V := []\<rparr>) (bulletproofs (rct_p tx0))" for bps
    using dests that by (simp add: strip_def)
  show ?thesis
  proof (cases "rct_type (rct_base tx0) = RCTTypeBulletproof")
    case False
    then have "tx = ?tx"
      using ex True len pks by (simp add: expand_transaction_1_def)
    moreover have "strip ?tx = strip tx0"
      using strip [of "bulletproofs (rct_p tx0)"] by simp
    ultimately show ?thesis
      using False True V dests strip_fits [OF fits] by (auto simp: expanded_def list_all_iff)
  next
    case bp: True
    then obtain bp where bps: "bulletproofs (rct_p tx0) = [bp]" "\<not> length (bp_L bp) < 6"
        "\<not> 2 ^ (length (bp_L bp) - 6) < length ?outs"
      and tx: "tx = ?tx\<lparr>rct_p := (rct_p tx0)\<lparr>bulletproofs := [bp\<lparr>bp_V := map (\<lambda>k. f (ct_mask k)) pks\<rparr>]\<rparr>\<rparr>"
      using ex True len pks by (auto simp: expand_transaction_1_def Let_def split: list.splits if_splits)
    have "strip tx = tx0"
      unfolding tx using strip [of "[bp\<lparr>bp_V := map (\<lambda>k. f (ct_mask k)) pks\<rparr>]"] bps(1) strip_fits [OF fits] by simp
    then show ?thesis
      using True bp bps dests by (simp add: expanded_def tx)
  qed
qed

section \<open>Claims\<close>

text \<open>
  C34. Whatever bytes it is given, the parser returns only well-formed transactions: every key,
  hash and signature has its length, there are as many signatures, commitments and amounts as the
  inputs and outputs ask for, the version is supported and the restored data agree with the
  outputs. So a parsed transaction can be serialized again, and is parsed back from that blob.
\<close>

theorem parsed_transaction_well_formed:
  assumes "parse_and_validate_tx_from_blob scalarmult8 tx_blob = Some tx"
  shows "transaction_fits (strip tx) \<and> expanded scalarmult8 tx \<and>
    (\<exists>b. dump_binary save_transaction tx = Some b \<and> parse_and_validate_tx_from_blob scalarmult8 b = Some tx)"
proof -
  obtain tx0 where p: "parse_binary load_transaction tx_blob = Some tx0" and ex: "expand_transaction_1 scalarmult8 False tx0 = Some tx"
    using assms by (auto simp: parse_and_validate_tx_from_blob_def split: option.splits)
  note fits = transaction_typed.parsed_fits [OF p]
  have strip: "strip tx = tx0" "expanded scalarmult8 tx"
    using expand_result [OF fits ex] by simp_all
  moreover obtain b where "dump_binary save_transaction tx0 = Some b" "parse_binary load_transaction b = Some tx0"
    using transaction_typed.parse_dump [OF p] by blast
  ultimately have "dump_binary save_transaction tx = Some b \<and> parse_and_validate_tx_from_blob scalarmult8 b = Some tx"
    using ex save_strip [of tx] by (simp add: parse_and_validate_tx_from_blob_def dump_binary_def)
  then show ?thesis
    using fits strip by blast
qed

text \<open>The version of a transaction as one byte, and with an empty second byte.\<close>

lemma version_cases: "version_supported v \<Longrightarrow> v = 1 \<or> v = 2 \<or> v = 3"
proof -
  assume "version_supported v"
  then have "unat v \<noteq> 0" "unat v \<le> 3"
    by (simp_all add: version_supported_def CURRENT_TRANSACTION_VERSION_def not_less word_le_nat_alt unat_eq_0)
  then have "unat v = 1 \<or> unat v = 2 \<or> unat v = 3" by arith
  then show ?thesis by (simp add: word_unat_eq_iff)
qed

lemma load_version:
  assumes "version_supported v"
  shows "write_varint v = [ucast v]" and "load_varint (ucast v # bs) = Some (v, bs)"
    and "load_varint ((ucast v OR 0x80) # 0 # bs) = Some (v, bs)"
  using version_cases [OF assms]
  by (auto simp: write_varint.simps load_varint_def read_varint_def)

lemma load_transaction_version:
  assumes "load_varint bs = (load_varint bs' :: (u64 \<times> byte list) option)"
  shows "load_transaction bs = load_transaction bs'"
  unfolding load_transaction_def load_transaction_prefix_def load_bind_def assms ..

text \<open>
  C35. The blob of a transaction is not unique: the loader ignores that \<open>read_varint\<close>
  refuses an encoding with an empty last byte, so that every transaction that has a blob is also
  parsed from a second one, which is one byte longer.
\<close>

theorem transaction_blob_not_unique:
  assumes "parse_and_validate_tx_from_blob scalarmult8 tx_blob = Some tx"
  shows "\<exists>b b'. dump_binary save_transaction tx = Some b \<and> length b' = length b + 1 \<and>
    parse_and_validate_tx_from_blob scalarmult8 b = Some tx \<and> parse_and_validate_tx_from_blob scalarmult8 b' = Some tx"
proof -
  obtain tx0 where p: "parse_binary load_transaction tx_blob = Some tx0" and ex: "expand_transaction_1 scalarmult8 False tx0 = Some tx"
    using assms by (auto simp: parse_and_validate_tx_from_blob_def split: option.splits)
  note fits = transaction_typed.parsed_fits [OF p]
  have save: "save_transaction tx = save_transaction tx0"
    using expand_result [OF fits ex] save_strip [of tx] by simp
  have v: "version_supported (version (tx_prefix tx0))"
    using fits by (simp add: transaction_fits_def prefix_fits_def)
  obtain b where b: "save_transaction tx0 = Some b" "parse_binary load_transaction b = Some tx0"
    using transaction_typed.parse_dump [OF p] by (auto simp: dump_binary_def)
  obtain bs where bs: "b = ucast (version (tx_prefix tx0)) # bs"
    using b(1) load_version(1) [OF v]
    by (auto simp: save_transaction_def save_transaction_prefix_def save_varint_def elim!: save_all_ConsE)
  let ?b' = "(ucast (version (tx_prefix tx0)) OR 0x80) # 0 # bs"
  have "load_transaction ?b' = load_transaction b"
    unfolding bs by (rule load_transaction_version) (simp only: load_version [OF v])
  then have "parse_binary load_transaction ?b' = Some tx0"
    using b(2) by (simp only: parse_binary_def)
  then show ?thesis
    using b ex save
    by (intro exI [of _ b] exI [of _ ?b']) (simp add: dump_binary_def parse_and_validate_tx_from_blob_def, simp add: bs)
qed

theorem parsed_transaction_well_formed_witness:
  "\<exists>b. parse_and_validate_tx_from_blob (\<lambda>k. k) b = Some example_transaction \<and>
     (\<exists>b. dump_binary save_transaction example_transaction = Some b \<and>
       parse_and_validate_tx_from_blob (\<lambda>k. k) b = Some example_transaction)"
  using example_parses parsed_transaction_well_formed by blast

theorem transaction_blob_not_unique_witness:
  "\<exists>b b'. length b' = length b + 1 \<and> parse_and_validate_tx_from_blob (\<lambda>k. k) b = Some example_transaction \<and>
     parse_and_validate_tx_from_blob (\<lambda>k. k) b' = Some example_transaction"
  using example_parses transaction_blob_not_unique by blast

end
