(* ===== verification/Block_Hash.thy ===== *)
theory Block_Hash
  imports Tree_Hash Parsed_Values Addresses
begin

text \<open>
  Model of the hashes of transactions and blocks in
  \<^verbatim>\<open>src/cryptonote_basic/cryptonote_format_utils.cpp\<close>, composed of the serializers, of
  \<open>cn_fast_hash\<close> and of \<open>tree_hash\<close>, with the hashes that the objects keep. The theorems show
  what a hash binds, and that the type and the second extra field of an RTA transaction are not
  part of its hash.
\<close>

section \<open>Hashes of transactions\<close>

text \<open>
  The value \<open>None\<close> is a failure to serialize. The hash of a prefix is \<open>get_transaction_prefix_hash\<close>.
\<close>

definition null_hash :: hash where "null_hash = replicate 32 0"

definition get_blob_hash :: "blob \<Rightarrow> hash" where
  "get_blob_hash blob = cn_fast_hash blob"

definition base_blob :: "transaction \<Rightarrow> blob option" where
  "base_blob t = save_rctsig_base (length (vin (tx_prefix t))) (length (vout (tx_prefix t))) (rct_base t)"

definition prunable_blob :: "transaction \<Rightarrow> blob option" where
  "prunable_blob t =
     save_rctsig_prunable (rct_type (rct_base t)) (length (vin (tx_prefix t))) (length (vout (tx_prefix t)))
       (mixin_of (vin (tx_prefix t))) (rct_p t)"

definition calculate_transaction_prunable_hash :: "transaction \<Rightarrow> hash option" where
  "calculate_transaction_prunable_hash t =
     (if version (tx_prefix t) = 1 then None else map_option get_blob_hash (prunable_blob t))"

text \<open>\<open>None\<close> is the exception.\<close>

definition get_pruned_transaction_hash :: "transaction \<Rightarrow> hash \<Rightarrow> hash option" where
  "get_pruned_transaction_hash t pruned_data_hash =
     (if \<not> 1 < version (tx_prefix t) then None
      else let h0 = get_transaction_prefix_hash (tx_prefix t) in
        case map_option get_blob_hash (base_blob t) of
          None \<Rightarrow> None
        | Some h1 \<Rightarrow> Some (cn_fast_hash (h0 @ h1 @ pruned_data_hash)))"

definition calculate_transaction_hash :: "transaction \<Rightarrow> hash option" where
  "calculate_transaction_hash t =
     (if version (tx_prefix t) = 1 then map_option get_blob_hash (save_transaction t)
      else let h0 = get_transaction_prefix_hash (tx_prefix t) in
        case map_option get_blob_hash (base_blob t) of
          None \<Rightarrow> None
        | Some h1 \<Rightarrow>
            (case (if rct_type (rct_base t) = RCTTypeNull then Some null_hash
                   else calculate_transaction_prunable_hash t) of
               None \<Rightarrow> None
             | Some h2 \<Rightarrow> Some (cn_fast_hash (h0 @ h1 @ h2))))"

definition get_object_blobsize :: "transaction \<Rightarrow> nat" where
  "get_object_blobsize t = (case save_transaction t of None \<Rightarrow> 0 | Some b \<Rightarrow> length b)"

definition parse_and_validate_tx_with_hashes :: "(blob \<Rightarrow> blob) \<Rightarrow> blob \<Rightarrow> (transaction \<times> hash option \<times> hash) option" where
  "parse_and_validate_tx_with_hashes scalarmult8 tx_blob =
     (case parse_binary load_transaction tx_blob of
        None \<Rightarrow> None
      | Some tx \<Rightarrow>
          (case expand_transaction_1 scalarmult8 False tx of
             None \<Rightarrow> None
           | Some tx \<Rightarrow> Some (tx, calculate_transaction_hash tx, get_transaction_prefix_hash (tx_prefix tx))))"

subsection \<open>The hash that a transaction keeps\<close>

record hash_cache =
  hash_valid :: bool
  cached_hash :: hash
  blob_size_valid :: bool
  cached_blob_size :: nat

record hash_stats =
  tx_hashes_calculated_count :: u64
  tx_hashes_cached_count :: u64
  block_hashes_calculated_count :: u64
  block_hashes_cached_count :: u64

definition invalidate_hashes :: "hash_cache \<Rightarrow> hash_cache" where
  "invalidate_hashes c = c\<lparr>hash_valid := False, blob_size_valid := False\<rparr>"

text \<open>\<open>with_size\<close> is whether the caller asks for the size, that is whether the pointer is not null.\<close>

definition get_transaction_hash ::
  "bool \<Rightarrow> transaction \<Rightarrow> hash_cache \<Rightarrow> hash_stats \<Rightarrow> (hash \<times> nat option) option \<times> hash_cache \<times> hash_stats" where
  "get_transaction_hash with_size t c st =
     (if hash_valid c
      then
        let c = (if with_size \<and> \<not> blob_size_valid c
                 then c\<lparr>cached_blob_size := get_object_blobsize t, blob_size_valid := True\<rparr> else c)
        in (Some (cached_hash c, if with_size then Some (cached_blob_size c) else None), c,
            st\<lparr>tx_hashes_cached_count := tx_hashes_cached_count st + 1\<rparr>)
      else
        let st = st\<lparr>tx_hashes_calculated_count := tx_hashes_calculated_count st + 1\<rparr>
        in case calculate_transaction_hash t of
             None \<Rightarrow> (None, c, st)
           | Some res \<Rightarrow>
               let c = c\<lparr>cached_hash := res, hash_valid := True\<rparr>
               in if with_size
                  then (Some (res, Some (get_object_blobsize t)),
                        c\<lparr>cached_blob_size := get_object_blobsize t, blob_size_valid := True\<rparr>, st)
                  else (Some (res, None), c, st))"

section \<open>Hashes of blocks\<close>

definition save_block_header :: "block saver" where
  "save_block_header b =
     save_all [save_varint (major_version b), save_varint (minor_version b), save_varint (timestamp b),
       save_blob (prev_id b), save_uint (nonce b)]"

text \<open>
  The hash of the miner transaction is the null hash if it cannot be computed. The code takes it from
  \<open>get_transaction_hash\<close>, which gives the calculated hash (\<open>get_transaction_hash_coherent\<close>).
\<close>

definition block_tx_ids :: "block \<Rightarrow> hash list" where
  "block_tx_ids b =
     (case calculate_transaction_hash (miner_tx b) of None \<Rightarrow> null_hash | Some h \<Rightarrow> h) # tx_hashes b"

definition get_tx_tree_hash :: "block \<Rightarrow> hash option" where
  "get_tx_tree_hash b = tree_hash (block_tx_ids b)"

definition get_block_hashing_blob :: "block \<Rightarrow> blob option" where
  "get_block_hashing_blob b =
     (case save_block_header b of
        None \<Rightarrow> None
      | Some blob \<Rightarrow>
          (case get_tx_tree_hash b of
             None \<Rightarrow> None
           | Some tree_root_hash \<Rightarrow>
               Some (blob @ tree_root_hash @ write_varint (word_of_nat (length (tx_hashes b)) + 1 :: u64))))"

text \<open>The blob is hashed as an object, a string, whose serialization starts with its length.\<close>

definition string_object_blob :: "blob \<Rightarrow> blob option" where
  "string_object_blob blob = save_string (map char_of_byte blob)"

definition calculate_block_hash :: "block \<Rightarrow> hash option" where
  "calculate_block_hash b =
     (case get_block_hashing_blob b of
        None \<Rightarrow> None
      | Some blob \<Rightarrow> map_option get_blob_hash (string_object_blob blob))"

definition get_block_hash :: "block \<Rightarrow> hash_cache \<Rightarrow> hash_stats \<Rightarrow> hash option \<times> hash_cache \<times> hash_stats" where
  "get_block_hash b c st =
     (if hash_valid c
      then (Some (cached_hash c), c, st\<lparr>block_hashes_cached_count := block_hashes_cached_count st + 1\<rparr>)
      else
        let st = st\<lparr>block_hashes_calculated_count := block_hashes_calculated_count st + 1\<rparr>
        in case calculate_block_hash b of
             None \<Rightarrow> (None, c, st)
           | Some res \<Rightarrow> (Some res, c\<lparr>cached_hash := res, hash_valid := True\<rparr>, st))"

section \<open>The kept hash is the hash\<close>

definition cache_coherent :: "transaction \<Rightarrow> hash_cache \<Rightarrow> bool" where
  "cache_coherent t c \<longleftrightarrow>
     (hash_valid c \<longrightarrow> calculate_transaction_hash t = Some (cached_hash c)) \<and>
     (blob_size_valid c \<longrightarrow> cached_blob_size c = get_object_blobsize t)"

lemma get_transaction_hash_coherent:
  assumes "cache_coherent t c" "get_transaction_hash with_size t c st = (res, c', st')"
  shows "cache_coherent t c' \<and> map_option fst res = calculate_transaction_hash t \<and>
    (\<forall>h s. res = Some (h, Some s) \<longrightarrow> s = get_object_blobsize t)"
  using assms
  by (auto simp: cache_coherent_def get_transaction_hash_def Let_def split: if_splits option.splits)

section \<open>What the hash of a transaction binds\<close>

text \<open>The transaction without the fields of RTA transactions.\<close>

definition without_rta :: "transaction \<Rightarrow> transaction" where
  "without_rta t = t\<lparr>tx_type := tx_type_generic, extra2 := []\<rparr>"

lemma hash_without_rta:
  assumes "version (tx_prefix t) \<noteq> 1"
  shows "calculate_transaction_hash (t\<lparr>tx_type := ty, extra2 := e\<rparr>) = calculate_transaction_hash t"
  using assms by (simp add: calculate_transaction_hash_def base_blob_def prunable_blob_def calculate_transaction_prunable_hash_def
      cong: option.case_cong)

text \<open>The strings that are hashed for a transaction of version 2 or above.\<close>

definition hash_input :: "transaction \<Rightarrow> blob option" where
  "hash_input t =
     (case (map_option get_blob_hash (base_blob t),
            if rct_type (rct_base t) = RCTTypeNull then Some null_hash else calculate_transaction_prunable_hash t) of
        (Some h1, Some h2) \<Rightarrow> Some (get_transaction_prefix_hash (tx_prefix t) @ h1 @ h2)
      | _ \<Rightarrow> None)"

definition tx_preimages :: "transaction \<Rightarrow> blob set" where
  "tx_preimages t =
     set_option (save_transaction_prefix (tx_prefix t)) \<union> set_option (base_blob t) \<union> set_option (prunable_blob t) \<union>
     set_option (hash_input t)"

lemma calculate_transaction_hash_input:
  "version (tx_prefix t) \<noteq> 1 \<Longrightarrow> calculate_transaction_hash t = map_option cn_fast_hash (hash_input t)"
  by (auto simp: calculate_transaction_hash_def hash_input_def Let_def split: option.split)

lemma fits_rct:
  assumes "transaction_fits t" "version (tx_prefix t) \<noteq> 1"
  shows "rct_fits (tx_prefix t) (rct_base t, rct_p t)" and "signatures t = []" and "prefix_fits (tx_prefix t)"
  using assms version_cases [of "version (tx_prefix t)"]
  by (auto simp: transaction_fits_def body_fits_def prefix_fits_def)

lemma base_codes:
  assumes "transaction_fits t" "version (tx_prefix t) \<noteq> 1"
  shows "codes (base_blob t) (load_rctsig_base (length (vin (tx_prefix t))) (length (vout (tx_prefix t)))) (rct_base t)"
  unfolding base_blob_def using fits_rct(1) [OF assms]
  by (intro codes_rctsig_base) (auto simp: rct_fits_def rctsig_base_fits_def null_rct_base_def split: if_splits)

lemma prunable_codes:
  assumes "transaction_fits t" "version (tx_prefix t) \<noteq> 1" "rct_type (rct_base t) \<noteq> RCTTypeNull"
  shows "codes (prunable_blob t) (load_rctsig_prunable (rct_type (rct_base t)) (length (vin (tx_prefix t)))
      (length (vout (tx_prefix t))) (mixin_of (vin (tx_prefix t)))) (rct_p t)"
  unfolding prunable_blob_def using fits_rct(1) [OF assms(1,2)] assms(3)
  by (intro codes_rctsig_prunable) (auto simp: rct_fits_def null_rct_base_def split: if_splits)

lemma null_prunable:
  assumes "transaction_fits t" "version (tx_prefix t) \<noteq> 1" "rct_type (rct_base t) = RCTTypeNull"
  shows "rct_p t = null_rct_p"
  using fits_rct(1) [OF assms(1,2)] assms(3) by (auto simp: rct_fits_def split: if_splits)

lemma hash_input_Some:
  assumes "transaction_fits t" "version (tx_prefix t) \<noteq> 1"
  obtains p b q where "save_transaction_prefix (tx_prefix t) = Some p" "base_blob t = Some b"
    "rct_type (rct_base t) \<noteq> RCTTypeNull \<longrightarrow> prunable_blob t = Some q"
    "hash_input t = Some (cn_fast_hash p @ cn_fast_hash b @ (if rct_type (rct_base t) = RCTTypeNull then null_hash else cn_fast_hash q))"
proof -
  obtain p where p: "save_transaction_prefix (tx_prefix t) = Some p"
    using prefix_codec.codes [OF fits_rct(3) [OF assms]] by (auto simp: codes_def)
  then have h0: "get_transaction_prefix_hash (tx_prefix t) = cn_fast_hash p"
    by (simp add: get_transaction_prefix_hash_def t_serializable_object_to_blob_def dump_binary_def)
  obtain b where b: "base_blob t = Some b"
    using base_codes [OF assms] by (auto simp: codes_def)
  show ?thesis
  proof (cases "rct_type (rct_base t) = RCTTypeNull")
    case True
    with p b h0 that show ?thesis by (simp add: hash_input_def get_blob_hash_def)
  next
    case False
    then obtain q where "prunable_blob t = Some q"
      using prunable_codes [OF assms] by (auto simp: codes_def)
    with p b h0 False assms(2) that show ?thesis
      by (simp add: hash_input_def get_blob_hash_def calculate_transaction_prunable_hash_def)
  qed
qed

lemma codes_same: "codes s load x \<Longrightarrow> codes s' load y \<Longrightarrow> s = s' \<Longrightarrow> x = y"
  by (auto dest: codes_unique)

lemma length_null_hash [simp]: "length null_hash = 32"
  by (simp add: null_hash_def)

lemma transaction_hash_binds:
  assumes fits: "transaction_fits t" "transaction_fits u"
    and v: "version (tx_prefix t) \<noteq> 1" "version (tx_prefix u) \<noteq> 1"
    and eq: "calculate_transaction_hash t = calculate_transaction_hash u"
  shows "without_rta t = without_rta u \<or> collision (tx_preimages t) (tx_preimages u)"
proof (rule disjCI)
  assume no: "\<not> collision (tx_preimages t) (tx_preimages u)"
  have inj: "x = y" if "cn_fast_hash x = cn_fast_hash y" "x \<in> tx_preimages t" "y \<in> tx_preimages u" for x y
    using same_hash [OF that] no by blast
  obtain p b q where t: "save_transaction_prefix (tx_prefix t) = Some p" "base_blob t = Some b"
      "rct_type (rct_base t) \<noteq> RCTTypeNull \<longrightarrow> prunable_blob t = Some q"
      "hash_input t = Some (cn_fast_hash p @ cn_fast_hash b @ (if rct_type (rct_base t) = RCTTypeNull then null_hash else cn_fast_hash q))"
    by (rule hash_input_Some [OF fits(1) v(1)])
  obtain p' b' q' where u: "save_transaction_prefix (tx_prefix u) = Some p'" "base_blob u = Some b'"
      "rct_type (rct_base u) \<noteq> RCTTypeNull \<longrightarrow> prunable_blob u = Some q'"
      "hash_input u = Some (cn_fast_hash p' @ cn_fast_hash b' @ (if rct_type (rct_base u) = RCTTypeNull then null_hash else cn_fast_hash q'))"
    by (rule hash_input_Some [OF fits(2) v(2)])
  have pre: "p \<in> tx_preimages t" "b \<in> tx_preimages t" "the (hash_input t) \<in> tx_preimages t"
      "p' \<in> tx_preimages u" "b' \<in> tx_preimages u" "the (hash_input u) \<in> tx_preimages u"
    using t u by (simp_all add: tx_preimages_def)
  have "cn_fast_hash (the (hash_input t)) = cn_fast_hash (the (hash_input u))"
    using eq unfolding calculate_transaction_hash_input [OF v(1)] calculate_transaction_hash_input [OF v(2)] t(4) u(4) by simp
  from inj [OF this pre(3,6)] have "the (hash_input t) = the (hash_input u)" .
  then have h: "cn_fast_hash p = cn_fast_hash p'" "cn_fast_hash b = cn_fast_hash b'"
      "(if rct_type (rct_base t) = RCTTypeNull then null_hash else cn_fast_hash q) =
       (if rct_type (rct_base u) = RCTTypeNull then null_hash else cn_fast_hash q')"
    unfolding t(4) u(4) by (auto dest: append_eq_append_conv [THEN iffD1, rotated])
  from inj [OF h(1) pre(1,4)] have "p = p'" .
  with t(1) u(1) have prefix: "tx_prefix t = tx_prefix u"
    by (intro codes_same [OF prefix_codec.codes [OF fits_rct(3) [OF fits(1) v(1)]] prefix_codec.codes [OF fits_rct(3) [OF fits(2) v(2)]]]) simp
  from inj [OF h(2) pre(2,5)] have "b = b'" .
  with t(2) u(2) have base: "rct_base t = rct_base u"
    by (intro codes_same [OF base_codes [OF fits(1) v(1)] base_codes [OF fits(2) v(2), folded prefix]]) simp
  have "rct_p t = rct_p u"
  proof (cases "rct_type (rct_base t) = RCTTypeNull")
    case True
    with base show ?thesis using null_prunable [OF fits(1) v(1)] null_prunable [OF fits(2) v(2)] by simp
  next
    case False
    then have q: "q \<in> tx_preimages t" "q' \<in> tx_preimages u" using base t(3) u(3) by (simp_all add: tx_preimages_def)
    have "cn_fast_hash q = cn_fast_hash q'" using False h(3) base by simp
    from inj [OF this q] have "q = q'" .
    with False t(3) u(3) base have "prunable_blob t = prunable_blob u" by simp
    then show ?thesis
      by (rule codes_same [OF prunable_codes [OF fits(1) v(1) False] prunable_codes [OF fits(2) v(2), folded prefix base, OF False]])
  qed
  with prefix base show "without_rta t = without_rta u"
    using fits_rct(2) [OF fits(1) v(1)] fits_rct(2) [OF fits(2) v(2)]
    by (intro transaction.equality) (simp_all add: without_rta_def)
qed

section \<open>What the hash of a block binds\<close>

definition load_block_header :: "(u8 \<times> u8 \<times> u64 \<times> hash \<times> u32) loader" where
  "load_block_header =
     load_bind load_varint (\<lambda>major. load_bind load_varint (\<lambda>minor. load_bind load_varint (\<lambda>t.
     load_bind (load_blob 32) (\<lambda>prev. load_bind load_uint (\<lambda>n. load_return (major, minor, t, prev, n))))))"

lemma header_codes:
  assumes "block_fits b"
  shows "codes (save_block_header b) load_block_header (major_version b, minor_version b, timestamp b, prev_id b, nonce b)"
  using assms unfolding save_block_header_def load_block_header_def block_fits_def
  by (elim conjE) (rule codes_Cons codes_ret codes_varint u32_codec.codes key_codec.codes | simp)+

lemma string_object_inj:
  assumes "string_object_blob x = string_object_blob y"
  shows "x = y"
proof -
  have bytes: "string_object_blob z = Some (write_varint (word_of_nat (length z) :: u64) @ z)" for z
    by (simp add: string_object_blob_def save_string_def save_varint_def save_blob_def save_all_Some save_all.simps(1) comp_def)
  have load: "load_varint (write_varint (word_of_nat (length z) :: u64) @ z) = Some (word_of_nat (length z) :: u64, z)" for z
    using codes_varint [of "word_of_nat (length z) :: u64"] by (simp add: codes_def save_varint_def)
  have "write_varint (word_of_nat (length x) :: u64) @ x = write_varint (word_of_nat (length y) :: u64) @ y"
    using assms unfolding bytes by (rule option.inject [THEN iffD1])
  from load [of x, unfolded this load [of y]] show ?thesis by (simp only: option.inject prod.inject)
qed

text \<open>The strings that are hashed for a block.\<close>

definition block_preimages :: "block \<Rightarrow> blob set" where
  "block_preimages b =
     {s. \<exists>blob. get_block_hashing_blob b = Some blob \<and> string_object_blob blob = Some s} \<union>
     {s. \<exists>t. merkle_tree (block_tx_ids b) t \<and> s \<in> hashed_pairs t} \<union> tx_preimages (miner_tx b)"

lemma hashing_blob:
  assumes "block_fits b" "length (tx_hashes b) < 2 ^ 28" "version (tx_prefix (miner_tx b)) \<noteq> 1"
  obtains hdr h r where "save_block_header b = Some hdr" "calculate_transaction_hash (miner_tx b) = Some h" "length h = 32"
    "block_tx_ids b = h # tx_hashes b" "tree_hash (block_tx_ids b) = Some r" "length r = 32"
    "get_block_hashing_blob b = Some (hdr @ r @ write_varint (word_of_nat (length (tx_hashes b)) + 1 :: u64))"
proof -
  obtain hdr where hdr: "save_block_header b = Some hdr"
    using header_codes [OF assms(1)] by (auto simp: codes_def)
  have "transaction_fits (miner_tx b)" using assms(1) by (simp add: block_fits_def)
  then obtain h where h: "calculate_transaction_hash (miner_tx b) = Some h" "length h = 32"
    using hash_input_Some [of "miner_tx b"] assms(3) by (metis calculate_transaction_hash_input option.map(2) length_cn_fast_hash)
  then have ids: "block_tx_ids b = h # tx_hashes b" by (simp add: block_tx_ids_def)
  have "\<forall>x \<in> set (block_tx_ids b). length x = 32"
    using assms(1) h ids by (auto simp: block_fits_def container_fits_def list_all_iff blob_fits_def)
  moreover obtain t where t: "tree_hash (block_tx_ids b) = Some (root t)" "merkle_tree (block_tx_ids b) t"
    using tree_hash_builds [of "length (block_tx_ids b)"] assms(2) ids by auto
  ultimately have "length (root t) = 32" by (intro length_root) (simp add: merkle_tree_def)
  with hdr h ids t that show ?thesis by (simp add: get_block_hashing_blob_def get_tx_tree_hash_def)
qed

lemma varint_count:
  assumes "write_varint (word_of_nat m + 1 :: u64) = write_varint (word_of_nat n + 1 :: u64)" "m < 2 ^ 28" "n < 2 ^ 28"
  shows "m = n"
proof -
  have "word_of_nat m + 1 = (word_of_nat n + 1 :: u64)"
    using codes_varint [of "word_of_nat m + 1 :: u64"] codes_varint [of "word_of_nat n + 1 :: u64"] assms(1)
    by (auto simp: codes_def save_varint_def)
  then have "unat (word_of_nat m :: u64) = unat (word_of_nat n :: u64)" by simp
  with assms(2,3) show ?thesis by (simp add: unsigned_of_nat take_bit_nat_eq_self)
qed

text \<open>The parts of the hashing blob are found again.\<close>

lemma hashing_blob_parts:
  assumes fits: "block_fits b" "block_fits c"
    and saved: "save_block_header b = Some hdr" "save_block_header c = Some hdr'"
    and eq: "hdr @ r @ m = hdr' @ r' @ m'" and len: "length r = 32" "length r' = 32"
  shows "(major_version b, minor_version b, timestamp b, prev_id b, nonce b) =
     (major_version c, minor_version c, timestamp c, prev_id c, nonce c) \<and> r = r' \<and> m = m'"
proof -
  have "load_block_header (hdr @ r @ m) = Some ((major_version b, minor_version b, timestamp b, prev_id b, nonce b), r @ m)"
      "load_block_header (hdr' @ r' @ m') = Some ((major_version c, minor_version c, timestamp c, prev_id c, nonce c), r' @ m')"
    using header_codes [OF fits(1)] header_codes [OF fits(2)] saved by (auto simp: codes_def)
  with eq len show ?thesis by simp
qed

lemma same_hashing_blob:
  assumes "calculate_block_hash b = calculate_block_hash c"
    and "get_block_hashing_blob b = Some x" "get_block_hashing_blob c = Some y"
  shows "x = y \<or> collision (block_preimages b) (block_preimages c)"
proof -
  obtain s s' where s: "string_object_blob x = Some s" "string_object_blob y = Some s'"
    by (simp add: string_object_blob_def save_string_def save_varint_def save_blob_def save_all_Some save_all.simps(1))
  then have "s = s' \<or> collision (block_preimages b) (block_preimages c)"
    using assms by (intro same_hash) (auto simp: calculate_block_hash_def get_blob_hash_def block_preimages_def)
  with s string_object_inj show ?thesis by metis
qed

lemma same_tree:
  assumes fits: "block_fits b" "block_fits c"
    and b: "length h = 32" "block_tx_ids b = h # tx_hashes b" "tree_hash (block_tx_ids b) = Some r"
    and c: "length h' = 32" "block_tx_ids c = h' # tx_hashes c" "tree_hash (block_tx_ids c) = Some r'"
    and eq: "length (tx_hashes b) = length (tx_hashes c)" "r = r'" and len: "length (tx_hashes b) < 2 ^ 28"
  shows "block_tx_ids b = block_tx_ids c \<or> collision (block_preimages b) (block_preimages c)"
proof -
  have "\<forall>h \<in> set (block_tx_ids b) \<union> set (block_tx_ids c). length h = 32"
    using fits b(1,2) c(1,2) by (auto simp: block_fits_def container_fits_def list_all_iff blob_fits_def)
  then have "block_tx_ids b = block_tx_ids c \<or>
      (\<exists>t t'. merkle_tree (block_tx_ids b) t \<and> merkle_tree (block_tx_ids c) t' \<and> collision (hashed_pairs t) (hashed_pairs t'))"
    using b(2,3) c(2,3) eq len by (intro tree_hash_binds) simp_all
  moreover have "hashed_pairs t \<subseteq> block_preimages d" if "merkle_tree (block_tx_ids d) t" for d t
    using that by (auto simp: block_preimages_def)
  ultimately show ?thesis
    by (blast intro: collision_mono)
qed

text \<open>
  C18. The hash of a block binds it: when two parsed blocks, with miner transactions of version 2 or
  above and less than \<open>2 ^ 28\<close> transactions each, have the same hash, then they are equal but for
  the RTA fields of their miner transactions, or among the strings that are hashed for the two
  blocks there are two different ones with the same \<^verbatim>\<open>cn_fast_hash\<close>.
\<close>

theorem block_hash_binding:
  assumes "parse_and_validate_block_from_blob x = Some b" "parse_and_validate_block_from_blob y = Some c"
    and "version (tx_prefix (miner_tx b)) \<noteq> 1" "version (tx_prefix (miner_tx c)) \<noteq> 1"
    and "length (tx_hashes b) < 2 ^ 28" "length (tx_hashes c) < 2 ^ 28"
    and "calculate_block_hash b = calculate_block_hash c"
  shows "b\<lparr>miner_tx := without_rta (miner_tx b)\<rparr> = c\<lparr>miner_tx := without_rta (miner_tx c)\<rparr> \<or>
    (\<exists>s \<in> block_preimages b. \<exists>s' \<in> block_preimages c. s \<noteq> s' \<and> cn_fast_hash s = cn_fast_hash s')"
proof (rule disjCI)
  assume "\<not> (\<exists>s \<in> block_preimages b. \<exists>s' \<in> block_preimages c. s \<noteq> s' \<and> cn_fast_hash s = cn_fast_hash s')"
  then have no: "\<not> collision (block_preimages b) (block_preimages c)" by (simp add: collision_def)
  have fits: "block_fits b" "block_fits c"
    using assms(1,2) block_typed.parsed_fits by (auto simp: parse_and_validate_block_from_blob_def)
  obtain hdr h r where b: "save_block_header b = Some hdr" "calculate_transaction_hash (miner_tx b) = Some h" "length h = 32"
      "block_tx_ids b = h # tx_hashes b" "tree_hash (block_tx_ids b) = Some r" "length r = 32"
      "get_block_hashing_blob b = Some (hdr @ r @ write_varint (word_of_nat (length (tx_hashes b)) + 1 :: u64))"
    by (rule hashing_blob [OF fits(1) assms(5,3)])
  obtain hdr' h' r' where c: "save_block_header c = Some hdr'" "calculate_transaction_hash (miner_tx c) = Some h'" "length h' = 32"
      "block_tx_ids c = h' # tx_hashes c" "tree_hash (block_tx_ids c) = Some r'" "length r' = 32"
      "get_block_hashing_blob c = Some (hdr' @ r' @ write_varint (word_of_nat (length (tx_hashes c)) + 1 :: u64))"
    by (rule hashing_blob [OF fits(2) assms(6,4)])
  have blob: "hdr @ r @ write_varint (word_of_nat (length (tx_hashes b)) + 1 :: u64) =
      hdr' @ r' @ write_varint (word_of_nat (length (tx_hashes c)) + 1 :: u64)"
    using no same_hashing_blob [OF assms(7) b(7) c(7)] by blast
  note parts = hashing_blob_parts [OF fits b(1) c(1) blob b(6) c(6)]
  have n: "length (tx_hashes b) = length (tx_hashes c)"
    using varint_count [OF _ assms(5,6)] parts by blast
  have ids: "block_tx_ids b = block_tx_ids c"
    using no same_tree [OF fits b(3-5) c(3-5)] n parts assms(5) by auto
  then have "calculate_transaction_hash (miner_tx b) = calculate_transaction_hash (miner_tx c)" "tx_hashes b = tx_hashes c"
    using b(2,4) c(2,4) by simp_all
  moreover have "transaction_fits (miner_tx b)" "transaction_fits (miner_tx c)"
    using fits by (simp_all add: block_fits_def)
  ultimately have "without_rta (miner_tx b) = without_rta (miner_tx c)"
    using transaction_hash_binds [OF _ _ assms(3,4)] no collision_mono [of "tx_preimages (miner_tx b)" "tx_preimages (miner_tx c)"]
    unfolding block_preimages_def by blast
  with parts \<open>tx_hashes b = tx_hashes c\<close>
  show "b\<lparr>miner_tx := without_rta (miner_tx b)\<rparr> = c\<lparr>miner_tx := without_rta (miner_tx c)\<rparr>"
    by (intro block.equality) simp_all
qed

lemma example_block_parses: "\<exists>blob. parse_and_validate_block_from_blob blob = Some example_block"
  using block_codec.dump_parse [OF example_block_fits] by (auto simp: parse_and_validate_block_from_blob_def)

theorem block_hash_binding_witness:
  "\<exists>x. parse_and_validate_block_from_blob x = Some example_block \<and>
     (example_block\<lparr>miner_tx := without_rta (miner_tx example_block)\<rparr> = example_block\<lparr>miner_tx := without_rta (miner_tx example_block)\<rparr> \<or>
      (\<exists>s \<in> block_preimages example_block. \<exists>s' \<in> block_preimages example_block. s \<noteq> s' \<and> cn_fast_hash s = cn_fast_hash s'))"
proof -
  obtain x where x: "parse_and_validate_block_from_blob x = Some example_block"
    using example_block_parses by blast
  have "version (tx_prefix (miner_tx example_block)) \<noteq> 1" "length (tx_hashes example_block) < 2 ^ 28"
    by (simp_all add: example_block_def example_miner_tx_def)
  from block_hash_binding [OF x x this(1,1,2,2) refl] x show ?thesis by blast
qed

section \<open>What the hash of a transaction leaves out\<close>

lemma fits_with_rta:
  assumes "transaction_fits (strip tx)" "3 \<le> version (tx_prefix tx)" "vector_fits e"
  shows "transaction_fits (strip (tx\<lparr>tx_type := ty, extra2 := e\<rparr>))"
  using assms by (simp add: transaction_fits_def strip_def rta_part_fits_def)

lemma strip_with_rta: "strip (tx\<lparr>tx_type := ty, extra2 := e\<rparr>) = (strip tx)\<lparr>tx_type := ty, extra2 := e\<rparr>"
  by (simp add: strip_def)

lemma expanded_with_rta: "expanded f tx \<Longrightarrow> expanded f (tx\<lparr>tx_type := ty, extra2 := e\<rparr>)"
  unfolding expanded_def strip_with_rta is_coinbase_def by (simp split: if_splits)

text \<open>
  C19. The type of a transaction of version 3 and its second extra field, which carries the
  signatures of the supernodes, are not part of its hash: for every such transaction and every
  other type and field there is a blob that is parsed to the transaction with these instead, and
  that has the same hash and the same prefix hash.
\<close>

theorem rta_part_not_hashed:
  assumes "parse_and_validate_tx_from_blob scalarmult8 blob = Some tx" "3 \<le> version (tx_prefix tx)" "vector_fits e"
  shows "\<exists>blob'. parse_and_validate_tx_with_hashes scalarmult8 blob' =
    Some (tx\<lparr>tx_type := ty, extra2 := e\<rparr>, calculate_transaction_hash tx, get_transaction_prefix_hash (tx_prefix tx))"
proof -
  let ?tx = "tx\<lparr>tx_type := ty, extra2 := e\<rparr>"
  obtain tx0 where p: "parse_binary load_transaction blob = Some tx0" and ex: "expand_transaction_1 scalarmult8 False tx0 = Some tx"
    using assms(1) by (auto simp: parse_and_validate_tx_from_blob_def split: option.splits)
  have "transaction_fits (strip tx)" "expanded scalarmult8 tx"
    using expand_result [OF transaction_typed.parsed_fits [OF p] ex] transaction_typed.parsed_fits [OF p] by simp_all
  then have fits: "transaction_fits (strip ?tx)" "expanded scalarmult8 ?tx"
    using fits_with_rta expanded_with_rta assms(2,3) by blast+
  have v: "version (tx_prefix tx) \<noteq> 1" using assms(2) by (auto simp: word_le_nat_alt)
  from transaction_codec.dump_parse [OF fits(1)] obtain b where "parse_binary load_transaction b = Some (strip ?tx)" by blast
  with expand_strip [OF fits(2)] show ?thesis
    by (intro exI [of _ b]) (simp add: parse_and_validate_tx_with_hashes_def hash_without_rta [OF v])
qed

theorem rta_part_not_hashed_witness:
  "\<exists>blob blob'. parse_and_validate_tx_from_blob (\<lambda>k. k) blob = Some example_transaction \<and> tx_type example_transaction = 1 \<and>
     parse_and_validate_tx_with_hashes (\<lambda>k. k) blob' =
       Some (example_transaction\<lparr>tx_type := 0, extra2 := []\<rparr>, calculate_transaction_hash example_transaction,
         get_transaction_prefix_hash (tx_prefix example_transaction))"
proof -
  obtain b where b: "parse_and_validate_tx_from_blob (\<lambda>k. k) b = Some example_transaction"
    using example_parses by blast
  have "3 \<le> version (tx_prefix example_transaction)" "vector_fits ([] :: byte list)"
    by (simp_all add: example_transaction_defs vector_fits_def)
  from rta_part_not_hashed [OF b this, of 0] b show ?thesis
    by (auto simp: example_transaction_def)
qed

end
