(* ===== verification/Chacha.thy ===== *)
theory Chacha
  imports Binary_Archive
begin

text \<open>
  Model of the stream cipher of \<^verbatim>\<open>src/crypto/chacha.c\<close>: the 16 words of the state
  are a list, the data and the result are lists of bytes. \<open>chacha_is_xor\<close> shows that the
  cipher xors the data with a stream of bytes that depends only on the key and the initialization
  vector, so that deciphering is enciphering again.
\<close>

unbundle bit_operations_syntax

section \<open>Words and rounds\<close>

definition rol32 :: "u32 \<Rightarrow> nat \<Rightarrow> u32" where
  "rol32 x r = push_bit (r mod 32) x OR drop_bit ((32 - r mod 32) mod 32) x"

definition U8TO32_LITTLE :: "byte list \<Rightarrow> nat \<Rightarrow> u32" where
  "U8TO32_LITTLE p off = foldr (\<lambda>b w. ucast b OR push_bit 8 w) (take 4 (drop off p)) 0"

definition U32TO8_LITTLE :: "u32 \<Rightarrow> byte list" where
  "U32TO8_LITTLE v = uint_bytes 4 v"

definition QUARTERROUND :: "nat \<Rightarrow> nat \<Rightarrow> nat \<Rightarrow> nat \<Rightarrow> u32 list \<Rightarrow> u32 list" where
  "QUARTERROUND a b c d x =
     (let x = x[a := x ! a + x ! b]; x = x[d := rol32 (x ! d XOR x ! a) 16];
          x = x[c := x ! c + x ! d]; x = x[b := rol32 (x ! b XOR x ! c) 12];
          x = x[a := x ! a + x ! b]; x = x[d := rol32 (x ! d XOR x ! a) 8];
          x = x[c := x ! c + x ! d]
      in x[b := rol32 (x ! b XOR x ! c) 7])"

definition double_round :: "u32 list \<Rightarrow> u32 list" where
  "double_round x =
     (let x = QUARTERROUND 0 4 8 12 x; x = QUARTERROUND 1 5 9 13 x;
          x = QUARTERROUND 2 6 10 14 x; x = QUARTERROUND 3 7 11 15 x;
          x = QUARTERROUND 0 5 10 15 x; x = QUARTERROUND 1 6 11 12 x;
          x = QUARTERROUND 2 7 8 13 x
      in QUARTERROUND 3 4 9 14 x)"

text \<open>The loop \<^verbatim>\<open>for (i = rounds; i > 0; i -= 2)\<close>.\<close>

fun chacha_rounds :: "nat \<Rightarrow> u32 list \<Rightarrow> u32 list" where
  "chacha_rounds 0 x = x"
| "chacha_rounds (Suc 0) x = double_round x"
| "chacha_rounds (Suc (Suc i)) x = chacha_rounds i (double_round x)"

definition sigma :: "byte list" where
  "sigma = map byte_of_char ''expand 32-byte k''"

section \<open>The cipher\<close>

definition chacha_init :: "byte list \<Rightarrow> byte list \<Rightarrow> u32 list" where
  "chacha_init key iv =
     map (U8TO32_LITTLE sigma) [0, 4, 8, 12] @
     map (U8TO32_LITTLE key) [0, 4, 8, 12, 16, 20, 24, 28] @
     [0, 0, U8TO32_LITTLE iv 0, U8TO32_LITTLE iv 4]"

definition chacha_block :: "nat \<Rightarrow> u32 list \<Rightarrow> byte list \<Rightarrow> byte list" where
  "chacha_block rounds j data =
     (let x = map2 (+) (chacha_rounds rounds j) j;
          x = map (\<lambda>i. x ! i XOR U8TO32_LITTLE data (4 * i)) [0..<16]
      in concat (map U32TO8_LITTLE x))"

definition next_counter :: "u32 list \<Rightarrow> u32 list" where
  "next_counter j =
     (let j = j[12 := j ! 12 + 1]
      in if j ! 12 = 0 then j[13 := j ! 13 + 1] else j)"

text \<open>
  The last part of less than 64 bytes is copied into a buffer of 64 bytes, and as many bytes are
  copied back; what the rest of the buffer holds does not matter (\<open>chacha_loop_xor\<close>), here it is 0.
\<close>

function chacha_loop :: "nat \<Rightarrow> u32 list \<Rightarrow> byte list \<Rightarrow> byte list" where
  "chacha_loop rounds j data =
     (if length data < 64 then take (length data) (chacha_block rounds j (data @ replicate (64 - length data) 0))
      else if length data \<le> 64 then chacha_block rounds j data
      else chacha_block rounds j (take 64 data) @ chacha_loop rounds (next_counter j) (drop 64 data))"
  by pat_completeness auto

termination
  by (relation "measure (\<lambda>(rounds, j, data). length data)") auto

declare chacha_loop.simps [simp del]

definition chacha :: "nat \<Rightarrow> byte list \<Rightarrow> byte list \<Rightarrow> byte list \<Rightarrow> byte list" where
  "chacha rounds data key iv = (if data = [] then [] else chacha_loop rounds (chacha_init key iv) data)"

definition chacha8 :: "byte list \<Rightarrow> byte list \<Rightarrow> byte list \<Rightarrow> byte list" where
  "chacha8 data key iv = chacha 8 data key iv"

definition chacha20 :: "byte list \<Rightarrow> byte list \<Rightarrow> byte list \<Rightarrow> byte list" where
  "chacha20 data key iv = chacha 20 data key iv"

section \<open>A block is xored with a stream of bytes\<close>

lemma uint_bytes_4:
  "uint_bytes 4 (v :: u32) = [ucast v, ucast (drop_bit 8 v), ucast (drop_bit 16 v), ucast (drop_bit 24 v)]"
proof -
  have low: "ucast (w AND 0xff) = (ucast w :: byte)" for w :: u32
  proof -
    have m: "(0xff :: u32) = mask 8" by (simp add: mask_eq_exp_minus_1)
    show ?thesis unfolding m by (rule bit_word_eqI) (simp add: bit_simps)
  qed
  have four: "(4 :: nat) = Suc (Suc (Suc (Suc 0)))" by simp
  show ?thesis
    unfolding four by (simp add: word_size low drop_bit_drop_bit)
qed

lemma U32TO8_xor: "U32TO8_LITTLE (x XOR y) = map2 (XOR) (U32TO8_LITTLE x) (U32TO8_LITTLE y)"
  by (auto simp: U32TO8_LITTLE_def uint_bytes_4 bit_simps intro!: bit_word_eqI)

lemma bytes_of_word:
  fixes a b c d :: byte
  shows "uint_bytes 4 (foldr (\<lambda>b w. ucast b OR push_bit 8 w) [a, b, c, d] 0 :: u32) = [a, b, c, d]"
proof -
  have high: "\<not> bit x (8 + n)" "\<not> bit x (16 + n)" "\<not> bit x (24 + n)" for x :: byte and n
    by (auto dest: bit_imp_le_length)
  show ?thesis
    unfolding uint_bytes_4 by (auto simp: bit_simps high intro!: bit_word_eqI)
qed

lemma take_4_drop:
  "4 * i + 4 \<le> length data \<Longrightarrow>
   take 4 (drop (4 * i) data) = [data ! (4 * i), data ! (4 * i + 1), data ! (4 * i + 2), data ! (4 * i + 3)]"
  by (intro nth_equalityI) (auto simp: nth_Cons' numeral_eq_Suc less_Suc_eq)

lemma xor_word_bytes:
  assumes "4 * i + 4 \<le> length data"
  shows "U32TO8_LITTLE (x XOR U8TO32_LITTLE data (4 * i)) = map2 (XOR) (U32TO8_LITTLE x) (take 4 (drop (4 * i) data))"
  unfolding U32TO8_xor
  by (simp only: U8TO32_LITTLE_def U32TO8_LITTLE_def take_4_drop [OF assms] bytes_of_word)

definition keystream :: "nat \<Rightarrow> u32 list \<Rightarrow> byte list" where
  "keystream rounds j = concat (map U32TO8_LITTLE (map2 (+) (chacha_rounds rounds j) j))"

lemma length_QUARTERROUND [simp]: "length (QUARTERROUND a b c d x) = length x"
  by (simp add: QUARTERROUND_def Let_def)

lemma length_double_round [simp]: "length (double_round x) = length x"
  by (simp add: double_round_def Let_def)

lemma length_chacha_rounds [simp]: "length (chacha_rounds n x) = length x"
  by (induction n x rule: chacha_rounds.induct) simp_all

lemma length_U32TO8 [simp]: "length (U32TO8_LITTLE v) = 4"
  by (simp add: U32TO8_LITTLE_def)

lemma xor_words_concat:
  "length data = 4 * length ws \<Longrightarrow>
   concat (map (\<lambda>i. U32TO8_LITTLE (ws ! i XOR U8TO32_LITTLE data (4 * i))) [0..<length ws]) =
   map2 (XOR) (concat (map U32TO8_LITTLE ws)) data"
proof (induction ws arbitrary: data)
  case (Cons w ws)
  have d: "length (drop 4 data) = 4 * length ws" "4 * 0 + 4 \<le> length data"
    using Cons.prems by simp_all
  have shift: "U8TO32_LITTLE data (4 * Suc i) = U8TO32_LITTLE (drop 4 data) (4 * i)" for i
    by (simp add: U8TO32_LITTLE_def add.commute)
  have idx: "[0..<length (w # ws)] = 0 # map Suc [0..<length ws]"
    by (simp add: map_Suc_upt upt_conv_Cons del: upt_Suc)
  have "concat (map (\<lambda>i. U32TO8_LITTLE ((w # ws) ! i XOR U8TO32_LITTLE data (4 * i))) [0..<length (w # ws)]) =
      U32TO8_LITTLE (w XOR U8TO32_LITTLE data (4 * 0)) @
      concat (map (\<lambda>i. U32TO8_LITTLE (ws ! i XOR U8TO32_LITTLE (drop 4 data) (4 * i))) [0..<length ws])"
    unfolding idx by (simp add: comp_def shift del: mult_Suc_right)
  also have "\<dots> = map2 (XOR) (U32TO8_LITTLE w) (take 4 data) @ map2 (XOR) (concat (map U32TO8_LITTLE ws)) (drop 4 data)"
    unfolding xor_word_bytes [OF d(2)] Cons.IH [OF d(1)] by simp
  also have "\<dots> = map2 (XOR) (concat (map U32TO8_LITTLE (w # ws))) data"
    using zip_append1 [of "U32TO8_LITTLE w" "concat (map U32TO8_LITTLE ws)" data] by simp
  finally show ?case .
qed simp

lemma chacha_block_xor:
  assumes "length j = 16" "length data = 64"
  shows "chacha_block rounds j data = map2 (XOR) (keystream rounds j) data"
  using xor_words_concat [of data "map2 (+) (chacha_rounds rounds j) j"] assms
  by (simp add: chacha_block_def keystream_def Let_def comp_def)

section \<open>The whole stream\<close>

lemma length_keystream: "length j = 16 \<Longrightarrow> length (keystream rounds j) = 64"
  by (simp add: keystream_def length_concat comp_def sum_list_triv)

lemma length_next_counter [simp]: "length (next_counter j) = length j"
  by (simp add: next_counter_def Let_def)

fun key_bytes :: "nat \<Rightarrow> u32 list \<Rightarrow> nat \<Rightarrow> byte list" where
  "key_bytes rounds j 0 = keystream rounds j"
| "key_bytes rounds j (Suc n) = keystream rounds j @ key_bytes rounds (next_counter j) n"

lemma length_key_bytes: "length j = 16 \<Longrightarrow> length (key_bytes rounds j n) = 64 * Suc n"
  by (induction n arbitrary: j) (simp_all add: length_keystream)

lemma zip_key_bytes:
  assumes "length j = 16" "length data \<le> 64"
  shows "zip (key_bytes rounds j n) data = zip (keystream rounds j) data"
  using assms by (cases n) (simp_all add: zip_append1 length_keystream)

lemma zip_take_left: "zip (take (length ys) xs) ys = zip xs ys"
proof -
  have "zip xs ys = take (length ys) (zip xs ys)" by simp
  then show ?thesis by (simp add: take_zip)
qed

lemma chacha_loop_xor:
  "length j = 16 \<Longrightarrow> length data \<le> 64 * Suc n \<Longrightarrow>
   chacha_loop rounds j data = map2 (XOR) (key_bytes rounds j n) data"
proof (induction n arbitrary: j data)
  case 0
  note ks = length_keystream [OF "0.prems"(1)]
  show ?case
  proof (cases "length data < 64")
    case True
    let ?pad = "data @ replicate (64 - length data) 0"
    have "chacha_loop rounds j data = take (length data) (map2 (XOR) (keystream rounds j) ?pad)"
      using True chacha_block_xor [OF "0.prems"(1), of ?pad] by (subst chacha_loop.simps) simp
    then show ?thesis
      using True by (simp add: take_map take_zip zip_take_left)
  next
    case False
    with "0.prems" have "length data = 64" by simp
    then show ?thesis
      using chacha_block_xor [OF "0.prems"(1)] by (subst chacha_loop.simps) simp
  qed
next
  case (Suc n)
  note ks = length_keystream [OF Suc.prems(1)]
  show ?case
  proof (cases "length data \<le> 64")
    case True
    have "chacha_loop rounds j data = map2 (XOR) (key_bytes rounds j n) data"
      using True Suc.IH [OF Suc.prems(1), of data] by simp
    then show ?thesis
      using zip_key_bytes [OF Suc.prems(1) True] by metis
  next
    case False
    have "chacha_loop rounds j data =
        chacha_block rounds j (take 64 data) @ chacha_loop rounds (next_counter j) (drop 64 data)"
      using False by (subst chacha_loop.simps) simp
    also have "\<dots> = map2 (XOR) (keystream rounds j) (take 64 data) @ map2 (XOR) (key_bytes rounds (next_counter j) n) (drop 64 data)"
      using False Suc.prems by (simp add: chacha_block_xor Suc.IH)
    also have "\<dots> = map2 (XOR) (key_bytes rounds j (Suc n)) data"
      using ks by (simp add: zip_append1)
    finally show ?thesis .
  qed
qed

lemma length_chacha_init [simp]: "length (chacha_init key iv) = 16"
  by (simp add: chacha_init_def)

lemma chacha_is_xor:
  assumes "length data \<le> 64 * Suc n"
  shows "chacha rounds data key iv = map2 (XOR) (key_bytes rounds (chacha_init key iv) n) data"
  using chacha_loop_xor [OF length_chacha_init assms] by (simp add: chacha_def)

lemma length_chacha [simp]: "length (chacha rounds data key iv) = length data"
  using length_key_bytes [OF length_chacha_init, of rounds key iv "length data"]
  by (subst chacha_is_xor [of _ "length data"]) auto

lemma map2_xor_twice:
  fixes ks data :: "byte list"
  shows "length data \<le> length ks \<Longrightarrow> map2 (XOR) ks (map2 (XOR) ks data) = data"
proof (induction data arbitrary: ks)
  case (Cons b data)
  then show ?case by (cases ks) (simp_all flip: xor.assoc)
qed simp

text \<open>Deciphering is enciphering again with the same key and vector.\<close>

lemma chacha_twice: "chacha rounds (chacha rounds data key iv) key iv = data"
proof -
  let ?ks = "key_bytes rounds (chacha_init key iv) (length data)"
  have "chacha rounds (chacha rounds data key iv) key iv = map2 (XOR) ?ks (chacha rounds data key iv)"
    by (rule chacha_is_xor) simp
  also have "\<dots> = map2 (XOR) ?ks (map2 (XOR) ?ks data)"
    by (subst chacha_is_xor [of data "length data"]) simp_all
  also have "\<dots> = data"
    by (rule map2_xor_twice) (simp add: length_key_bytes)
  finally show ?thesis .
qed

end
