(* ===== verification/Cryptmsg.thy ===== *)
theory Cryptmsg
  imports Chacha
begin

text \<open>
  Model of \<^verbatim>\<open>src/utils/cryptmsg.cpp\<close>, the encryption of messages between supernodes: a
  message is enciphered with a random session key, which is enciphered for each recipient with a
  key that only the sender and the recipient can compute. The elliptic curve and the slow hash
  are parameters; the random keys and vectors that the code draws are arguments.
\<close>

unbundle bit_operations_syntax

section \<open>What the code calls\<close>

text \<open>
  \<open>mo_uninit\<close> is what the memory of a key derivation holds when
  \<^verbatim>\<open>generate_key_derivation\<close> fails, which the code does not check.
\<close>

record msg_ops =
  mo_slow_hash :: "blob \<Rightarrow> hash"
  mo_key_derivation :: "blob \<Rightarrow> blob \<Rightarrow> blob option"
  mo_derivation_to_scalar :: "blob \<Rightarrow> nat \<Rightarrow> blob"
  mo_secret_key_to_public_key :: "blob \<Rightarrow> blob option"
  mo_uninit :: blob

record msg_random =
  rnd_x :: blob
  rnd_R :: blob
  rnd_r :: blob
  rnd_iv :: blob
  rnd_ivs :: "blob list"

section \<open>Ciphers\<close>

definition sizeof_iv :: nat where "sizeof_iv = 8"

definition getEncryptChachaSize :: "nat \<Rightarrow> nat" where
  "getEncryptChachaSize plainSize = plainSize + sizeof_iv"

definition generate_chacha_key :: "msg_ops \<Rightarrow> blob \<Rightarrow> blob" where
  "generate_chacha_key ops data = take 32 (mo_slow_hash ops data)"

definition encryptChacha :: "msg_ops \<Rightarrow> blob \<Rightarrow> blob \<Rightarrow> blob \<Rightarrow> blob" where
  "encryptChacha ops iv plain skey = iv @ chacha8 plain (generate_chacha_key ops skey) iv"

definition decryptChacha :: "msg_ops \<Rightarrow> blob \<Rightarrow> blob \<Rightarrow> blob" where
  "decryptChacha ops cipher skey =
     chacha8 (drop sizeof_iv cipher) (generate_chacha_key ops skey) (take sizeof_iv cipher)"

definition cStart :: byte where "cStart = 0xA5"
definition cEnd :: byte where "cEnd = 0x5A"

definition sizeof_SessionX :: nat where "sizeof_SessionX = 1 + 32 + 1"
definition sizeof_XEntry :: nat where "sizeof_XEntry = 4 + (sizeof_SessionX + sizeof_iv)"
definition sizeof_CryptoMessageHead :: nat where "sizeof_CryptoMessageHead = 4 + 32 + 2 + sizeof_XEntry"

definition getBhash :: "blob \<Rightarrow> u32" where
  "getBhash B = fold (\<lambda>i res. res XOR U8TO32_LITTLE B (4 * i)) [0..<8] 0"

text \<open>The secret shared by the owners of a public and a secret key.\<close>

definition shared_key :: "msg_ops \<Rightarrow> blob \<Rightarrow> blob \<Rightarrow> blob" where
  "shared_key ops pub sec =
     mo_derivation_to_scalar ops (case mo_key_derivation ops pub sec of Some d \<Rightarrow> d | None \<Rightarrow> mo_uninit ops) 0"

text \<open>
  The size of the head with the entries of the recipients; the subtraction of the entry in
  \<^verbatim>\<open>sizeof(CryptoMessageHead)\<close> comes last here, since for no recipients the size in the code wraps twice.
\<close>

definition msg_head_size :: "nat \<Rightarrow> nat" where
  "msg_head_size count = sizeof_CryptoMessageHead + count * sizeof_XEntry - sizeof_XEntry"

section \<open>Encryption\<close>

definition x_entry :: "msg_ops \<Rightarrow> msg_random \<Rightarrow> blob \<times> blob \<Rightarrow> blob" where
  "x_entry ops rnd = (\<lambda>(B, iv).
     U32TO8_LITTLE (getBhash B) @
     encryptChacha ops iv (cStart # rnd_x rnd @ [cEnd]) (shared_key ops B (rnd_r rnd)))"

definition crypto_message :: "msg_ops \<Rightarrow> msg_random \<Rightarrow> blob \<Rightarrow> blob list \<Rightarrow> blob" where
  "crypto_message ops rnd input Bkeys =
     U32TO8_LITTLE (word_of_nat (length input)) @ rnd_R rnd @ uint_bytes 2 (word_of_nat (length Bkeys) :: u16) @
     concat (map (x_entry ops rnd) (zip Bkeys (rnd_ivs rnd))) @ encryptChacha ops (rnd_iv rnd) input (rnd_x rnd)"

text \<open>A null pointer is \<open>None\<close>; the result is the returned size and the buffer.\<close>

definition encryptMsg ::
  "msg_ops \<Rightarrow> msg_random \<Rightarrow> nat \<Rightarrow> blob option \<Rightarrow> nat \<Rightarrow> blob list option \<Rightarrow> nat \<Rightarrow> blob option \<Rightarrow> nat \<times> blob option" where
  "encryptMsg ops rnd inputSize input BkeysCount Bkeys outputSize output =
     (if inputSize = 0 \<or> BkeysCount = 0 then (0, output)
      else
        let msgHeadSize = msg_head_size BkeysCount;
            msgSize = msgHeadSize + getEncryptChachaSize inputSize
        in if outputSize < msgSize then (msgSize, output)
           else case (input, Bkeys, output) of
             (Some input, Some Bkeys, Some out) \<Rightarrow> (msgSize, Some (crypto_message ops rnd input Bkeys @ drop msgSize out))
           | _ \<Rightarrow> (0, output))"

text \<open>\<open>None\<close> is a failed assertion.\<close>

definition encryptMessage :: "msg_ops \<Rightarrow> msg_random \<Rightarrow> blob \<Rightarrow> blob list \<Rightarrow> blob option" where
  "encryptMessage ops rnd input Bkeys =
     (if input = [] then None
      else
        let size = fst (encryptMsg ops rnd (length input) None (length Bkeys) None 0 None)
        in if \<not> 0 < size then None
           else
             let (res, output) =
               encryptMsg ops rnd (length input) (Some input) (length Bkeys) (Some Bkeys) size (Some (replicate size 0))
             in if res = size then output else None)"

definition encryptMessage1 :: "msg_ops \<Rightarrow> msg_random \<Rightarrow> blob \<Rightarrow> blob \<Rightarrow> blob option" where
  "encryptMessage1 ops rnd input Bkey = encryptMessage ops rnd input [Bkey]"

section \<open>Decryption\<close>

definition le16_at :: "blob \<Rightarrow> nat \<Rightarrow> u16" where
  "le16_at p off = ucast (p ! off) OR push_bit 8 (ucast (p ! (off + 1)))"

text \<open>The loop that looks for the entry of the recipient.\<close>

fun find_session :: "msg_ops \<Rightarrow> blob \<Rightarrow> blob \<Rightarrow> u32 \<Rightarrow> blob list \<Rightarrow> blob option" where
  "find_session ops R b Bhash [] = None"
| "find_session ops R b Bhash (xe # xes) =
     (if U8TO32_LITTLE xe 0 \<noteq> Bhash then find_session ops R b Bhash xes
      else
        let X = decryptChacha ops (drop 4 xe) (shared_key ops R b)
        in if X ! 0 \<noteq> cStart \<or> X ! (sizeof_SessionX - 1) \<noteq> cEnd then find_session ops R b Bhash xes
           else Some (take 32 (drop 1 X)))"

definition xentries :: "blob \<Rightarrow> nat \<Rightarrow> blob list" where
  "xentries input count = map (\<lambda>i. take sizeof_XEntry (drop (msg_head_size i) input)) [0..<count]"

definition decryptMsg :: "msg_ops \<Rightarrow> blob \<Rightarrow> blob \<Rightarrow> nat \<Rightarrow> blob option \<Rightarrow> nat \<times> blob option" where
  "decryptMsg ops input bkey outputSize output =
     (if length input \<le> sizeof_CryptoMessageHead then (0, output)
      else
        let head_count = unat (le16_at input 36);
            head_plainSize = unat (U8TO32_LITTLE input 0);
            msgHeadSize = msg_head_size head_count;
            msgSize = msgHeadSize + getEncryptChachaSize head_plainSize
        in if length input < msgSize then (0, output)
           else if outputSize < head_plainSize then (head_plainSize, output)
           else case output of
             None \<Rightarrow> (0, output)
           | Some out \<Rightarrow>
               (case mo_secret_key_to_public_key ops bkey of
                  None \<Rightarrow> (0, output)
                | Some B \<Rightarrow>
                    (case find_session ops (take 32 (drop 4 input)) bkey (getBhash B) (xentries input head_count) of
                       None \<Rightarrow> (0, output)
                     | Some x \<Rightarrow>
                         (head_plainSize,
                          Some (decryptChacha ops (take (getEncryptChachaSize head_plainSize) (drop msgHeadSize input)) x @
                            drop head_plainSize out)))))"

text \<open>The result and the output; \<open>None\<close> is a failed assertion.\<close>

definition decryptMessage :: "msg_ops \<Rightarrow> blob \<Rightarrow> blob \<Rightarrow> (bool \<times> blob) option" where
  "decryptMessage ops input bkey =
     (if input = [] then None
      else
        let size = fst (decryptMsg ops input bkey 0 None)
        in if size = 0 then Some (False, [])
           else case decryptMsg ops input bkey size (Some (replicate size 0)) of
             (res, output) \<Rightarrow>
               if res = 0 then Some (False, [])
               else if res = size then map_option (\<lambda>out. (True, out)) output else None)"

section \<open>The layout of a message\<close>

lemmas size_defs = sizeof_iv_def sizeof_SessionX_def sizeof_XEntry_def sizeof_CryptoMessageHead_def

lemma decrypt_encrypt: "length iv = 8 \<Longrightarrow> decryptChacha ops (encryptChacha ops iv plain k) k = plain"
  by (simp add: decryptChacha_def encryptChacha_def sizeof_iv_def chacha8_def chacha_twice)

lemma length_encryptChacha [simp]: "length (encryptChacha ops iv plain k) = length iv + length plain"
  by (simp add: encryptChacha_def chacha8_def)

lemma U8TO32_U32TO8: "U8TO32_LITTLE (U32TO8_LITTLE v @ bs) 0 = v"
proof -
  have "take 4 (U32TO8_LITTLE v @ bs) = U32TO8_LITTLE v"
    by simp
  then have e: "U8TO32_LITTLE (U32TO8_LITTLE v @ bs) 0 = foldr (\<lambda>b w. ucast b OR push_bit 8 w) (uint_bytes 4 v) 0"
    by (simp add: U8TO32_LITTLE_def U32TO8_LITTLE_def)
  show ?thesis
    unfolding e uint_bytes_4
  proof (rule bit_word_eqI)
    fix n assume n: "n < LENGTH(32)"
    consider "n < 8" | "8 \<le> n" "n < 16" | "16 \<le> n" "n < 24" | "24 \<le> n" by arith
    then show "bit (foldr (\<lambda>b w. ucast b OR push_bit 8 w) [ucast v :: byte, ucast (drop_bit 8 v), ucast (drop_bit 16 v), ucast (drop_bit 24 v)] 0 :: u32) n = bit v n"
      using n by cases (auto simp: bit_simps)
  qed
qed

lemma uint_bytes_2: "uint_bytes 2 (v :: u16) = [ucast v, ucast (drop_bit 8 v)]"
proof -
  have low: "ucast (w AND 0xff) = (ucast w :: byte)" for w :: u16
  proof -
    have m: "(0xff :: u16) = mask 8" by (simp add: mask_eq_exp_minus_1)
    show ?thesis unfolding m by (rule bit_word_eqI) (simp add: bit_simps)
  qed
  have two: "(2 :: nat) = Suc (Suc 0)" by simp
  show ?thesis
    unfolding two by (simp add: word_size low)
qed

lemma le16_at_bytes: "length pre = off \<Longrightarrow> le16_at (pre @ uint_bytes 2 v @ bs) off = v"
proof -
  assume "length pre = off"
  then have n: "(pre @ uint_bytes 2 v @ bs) ! off = ucast v" "(pre @ uint_bytes 2 v @ bs) ! (off + 1) = ucast (drop_bit 8 v)"
    by (auto simp: uint_bytes_2 nth_append)
  have high: "bit v n \<Longrightarrow> n < 16" for n
    using bit_imp_le_length [of v n] by simp
  show ?thesis
    unfolding le16_at_def n by (intro bit_word_eqI) (auto simp: bit_simps dest: high)
qed

lemma take_drop_concat:
  "\<forall>x \<in> set xs. length x = k \<Longrightarrow> i < length xs \<Longrightarrow> take k (drop (k * i) (concat xs @ ys)) = xs ! i"
proof (induction xs arbitrary: i)
  case (Cons x xs)
  show ?case
  proof (cases i)
    case 0
    then show ?thesis using Cons.prems by simp
  next
    case (Suc m)
    have "drop (k * i) (concat (x # xs) @ ys) = drop (k * m) (concat xs @ ys)"
      using Cons.prems by (simp add: Suc)
    then show ?thesis using Cons Suc by simp
  qed
qed simp

text \<open>What the random values and the keys must look like.\<close>

definition random_fits :: "msg_random \<Rightarrow> nat \<Rightarrow> bool" where
  "random_fits rnd count \<longleftrightarrow>
     length (rnd_x rnd) = 32 \<and> length (rnd_R rnd) = 32 \<and> length (rnd_iv rnd) = 8 \<and>
     length (rnd_ivs rnd) = count \<and> list_all (\<lambda>iv. length iv = 8) (rnd_ivs rnd)"

lemma length_x_entry:
  "length (rnd_x rnd) = 32 \<Longrightarrow> length iv = 8 \<Longrightarrow> length (x_entry ops rnd (B, iv)) = sizeof_XEntry"
  by (simp add: x_entry_def size_defs)

lemma x_entries_length:
  assumes "random_fits rnd (length Bkeys)"
  shows "\<forall>e \<in> set (map (x_entry ops rnd) (zip Bkeys (rnd_ivs rnd))). length e = sizeof_XEntry"
    and "length (concat (map (x_entry ops rnd) (zip Bkeys (rnd_ivs rnd)))) = length Bkeys * sizeof_XEntry"
proof -
  show *: "\<forall>e \<in> set (map (x_entry ops rnd) (zip Bkeys (rnd_ivs rnd))). length e = sizeof_XEntry"
    using assms by (auto simp: random_fits_def list_all_iff length_x_entry dest: set_zip_rightD)
  have "length (concat es) = length es * k" if "\<forall>e \<in> set es. length e = k" for es :: "blob list" and k
    using that by (induction es) auto
  from this [OF *] show "length (concat (map (x_entry ops rnd) (zip Bkeys (rnd_ivs rnd)))) = length Bkeys * sizeof_XEntry"
    using assms by (simp add: random_fits_def)
qed

lemma crypto_message_layout:
  assumes rnd: "random_fits rnd (length Bkeys)" and msg: "msg = crypto_message ops rnd input Bkeys"
  shows "length msg = msg_head_size (length Bkeys) + getEncryptChachaSize (length input)"
    and "U8TO32_LITTLE msg 0 = word_of_nat (length input)" and "take 32 (drop 4 msg) = rnd_R rnd"
    and "le16_at msg 36 = word_of_nat (length Bkeys)"
    and "n \<le> length Bkeys \<Longrightarrow> xentries msg n = take n (map (x_entry ops rnd) (zip Bkeys (rnd_ivs rnd)))"
    and "drop (msg_head_size (length Bkeys)) msg = encryptChacha ops (rnd_iv rnd) input (rnd_x rnd)"
proof -
  let ?es = "map (x_entry ops rnd) (zip Bkeys (rnd_ivs rnd))" and ?c = "encryptChacha ops (rnd_iv rnd) input (rnd_x rnd)"
  let ?a = "U32TO8_LITTLE (word_of_nat (length input))" and ?n = "uint_bytes 2 (word_of_nat (length Bkeys) :: u16)"
  have m: "msg = ?a @ rnd_R rnd @ ?n @ concat ?es @ ?c"
    by (simp add: msg crypto_message_def)
  have R: "length (rnd_R rnd) = 32" and iv: "length (rnd_iv rnd) = 8" and es: "length ?es = length Bkeys"
    using rnd by (simp_all add: random_fits_def)
  note len = x_entries_length [OF rnd, of ops]
  show "length msg = msg_head_size (length Bkeys) + getEncryptChachaSize (length input)"
    using R iv len(2) by (simp add: m msg_head_size_def getEncryptChachaSize_def size_defs)
  show "U8TO32_LITTLE msg 0 = word_of_nat (length input)"
    by (simp add: m U8TO32_U32TO8)
  show "take 32 (drop 4 msg) = rnd_R rnd"
    using R by (simp add: m)
  show "le16_at msg 36 = word_of_nat (length Bkeys)"
    using le16_at_bytes [of "?a @ rnd_R rnd" 36 "word_of_nat (length Bkeys)" "concat ?es @ ?c"] R by (simp add: m)
  have d38: "drop (38 + k) msg = drop k (concat ?es @ ?c)" for k
    using R by (simp add: m)
  show "xentries msg n = take n ?es" if "n \<le> length Bkeys"
  proof (rule nth_equalityI)
    show "length (xentries msg n) = length (take n ?es)"
      using that es by (simp add: xentries_def)
    fix i assume "i < length (xentries msg n)"
    then have i: "i < n" by (simp add: xentries_def)
    have "take sizeof_XEntry (drop (sizeof_XEntry * i) (concat ?es @ ?c)) = ?es ! i"
      using i that es by (intro take_drop_concat len(1)) simp
    moreover have "msg_head_size i = 38 + sizeof_XEntry * i"
      by (simp add: msg_head_size_def size_defs)
    ultimately show "xentries msg n ! i = take n ?es ! i"
      using i by (simp add: xentries_def d38)
  qed
  have "msg_head_size (length Bkeys) = 38 + length (concat ?es)"
    using len(2) by (simp add: msg_head_size_def size_defs)
  then show "drop (msg_head_size (length Bkeys)) msg = ?c"
    by (simp only: d38) simp
qed

section \<open>Finding the session key\<close>

text \<open>The law of the key exchange: the owners of two key pairs derive the same secret.\<close>

definition key_exchange :: "msg_ops \<Rightarrow> bool" where
  "key_exchange ops \<longleftrightarrow>
     (\<forall>a A c C. mo_secret_key_to_public_key ops a = Some A \<and> mo_secret_key_to_public_key ops c = Some C \<longrightarrow>
        (\<exists>d. mo_key_derivation ops A c = Some d \<and> mo_key_derivation ops C a = Some d))"

lemma shared_key_sym:
  assumes "key_exchange ops" "mo_secret_key_to_public_key ops a = Some A" "mo_secret_key_to_public_key ops c = Some C"
  shows "shared_key ops A c = shared_key ops C a"
proof -
  obtain d where "mo_key_derivation ops A c = Some d" "mo_key_derivation ops C a = Some d"
    using assms unfolding key_exchange_def by blast
  then show ?thesis by (simp add: shared_key_def)
qed

lemma find_session_entry:
  assumes "length (rnd_x rnd) = 32" "length iv = 8" "shared_key ops B (rnd_r rnd) = shared_key ops R b"
  shows "find_session ops R b (getBhash B) (x_entry ops rnd (B, iv) # xes) = Some (rnd_x rnd)"
  using assms
  by (simp add: x_entry_def U8TO32_U32TO8 decrypt_encrypt sizeof_SessionX_def Let_def nth_append)

lemma find_session_other:
  "getBhash B' \<noteq> Bhash \<Longrightarrow> find_session ops R b Bhash (x_entry ops rnd (B', iv) # xes) = find_session ops R b Bhash xes"
  by (simp add: x_entry_def U8TO32_U32TO8)

lemma find_session_recipient:
  assumes "length (rnd_x rnd) = 32" "list_all (\<lambda>iv. length iv = 8) ivs" "length ivs = length Bs"
    and "shared_key ops B (rnd_r rnd) = shared_key ops R b"
    and "B \<in> set Bs" "\<forall>B' \<in> set Bs. getBhash B' = getBhash B \<longrightarrow> B' = B"
  shows "find_session ops R b (getBhash B) (map (x_entry ops rnd) (zip Bs ivs)) = Some (rnd_x rnd)"
  using assms(2,3,5,6)
proof (induction Bs arbitrary: ivs)
  case (Cons B' Bs)
  then obtain iv ivs' where ivs: "ivs = iv # ivs'" by (cases ivs) auto
  show ?case
  proof (cases "B' = B")
    case True
    then show ?thesis
      using Cons.prems assms(1,4) by (simp add: ivs find_session_entry del: find_session.simps)
  next
    case False
    then have "getBhash B' \<noteq> getBhash B" using Cons.prems by auto
    then show ?thesis
      using Cons.IH [of ivs'] Cons.prems False by (simp add: ivs find_session_other del: find_session.simps)
  qed
qed simp

lemma find_session_nobody:
  assumes "\<forall>B' \<in> set Bs. getBhash B' \<noteq> Bhash"
  shows "find_session ops R b Bhash (map (x_entry ops rnd) (zip Bs ivs)) = None"
  using assms
proof (induction Bs arbitrary: ivs)
  case (Cons B' Bs)
  then show ?case
    by (cases ivs) (simp_all add: find_session_other del: find_session.simps(2))
qed simp

section \<open>Whole messages\<close>

lemma encryptMessage_eq:
  assumes "random_fits rnd (length Bkeys)" "input \<noteq> []" "Bkeys \<noteq> []"
  shows "encryptMessage ops rnd input Bkeys = Some (crypto_message ops rnd input Bkeys)"
  using assms by (simp add: encryptMessage_def encryptMsg_def Let_def getEncryptChachaSize_def size_defs)

lemma decryptMessage_eq:
  assumes rnd: "random_fits rnd (length Bkeys)" and input: "input \<noteq> []"
    and "length input < 2 ^ 32" "length Bkeys < 2 ^ 16" "Bkeys \<noteq> []"
    and b: "mo_secret_key_to_public_key ops b = Some B"
  shows "decryptMessage ops (crypto_message ops rnd input Bkeys) b =
    (case find_session ops (rnd_R rnd) b (getBhash B) (map (x_entry ops rnd) (zip Bkeys (rnd_ivs rnd))) of
       None \<Rightarrow> Some (False, [])
     | Some x \<Rightarrow> Some (True, decryptChacha ops (encryptChacha ops (rnd_iv rnd) input (rnd_x rnd)) x))"
proof -
  define msg where "msg = crypto_message ops rnd input Bkeys"
  note lay = crypto_message_layout [OF rnd msg_def]
  have plain: "unat (U8TO32_LITTLE msg 0) = length input" and count: "unat (le16_at msg 36) = length Bkeys"
    using assms(3,4) by (simp_all add: lay(2,4) unat_of_nat take_bit_nat_eq_self)
  have ivl: "length (rnd_iv rnd) = 8" and zl: "length (zip Bkeys (rnd_ivs rnd)) = length Bkeys"
    using rnd by (simp_all add: random_fits_def)
  have big: "sizeof_CryptoMessageHead < length msg"
    using assms(5) by (cases Bkeys) (simp_all add: lay(1) msg_head_size_def getEncryptChachaSize_def size_defs)
  have body: "take (getEncryptChachaSize (length input)) (drop (msg_head_size (length Bkeys)) msg) =
      encryptChacha ops (rnd_iv rnd) input (rnd_x rnd)"
    using ivl by (simp add: lay(6) getEncryptChachaSize_def sizeof_iv_def)
  have entries: "xentries msg (length Bkeys) = map (x_entry ops rnd) (zip Bkeys (rnd_ivs rnd))"
    using lay(5) [of "length Bkeys"] zl by simp
  have first: "fst (decryptMsg ops msg b 0 None) = length input"
    using big input by (simp add: decryptMsg_def plain count Let_def lay(1))
  have second: "decryptMsg ops msg b (length input) (Some (replicate (length input) 0)) =
      (case find_session ops (rnd_R rnd) b (getBhash B) (map (x_entry ops rnd) (zip Bkeys (rnd_ivs rnd))) of
         None \<Rightarrow> (0, Some (replicate (length input) 0))
       | Some x \<Rightarrow> (length input, Some (decryptChacha ops (encryptChacha ops (rnd_iv rnd) input (rnd_x rnd)) x)))"
    using big by (simp add: decryptMsg_def plain count Let_def lay(1,3) b entries body split: option.split)
  have "msg \<noteq> []" using big by auto
  then show ?thesis
    unfolding msg_def [symmetric] decryptMessage_def using first second input by (simp split: option.splits)
qed

section \<open>Claims\<close>

text \<open>
  C36. A message encrypted for several recipients is decrypted by each of them, provided that
  no other recipient's key has the same 32-bit fingerprint; the owner of a key whose fingerprint
  no recipient has gets nothing. The message may have up to 2^32 - 1 bytes and 2^16 - 1 recipients.
\<close>

theorem decrypt_encrypted_message:
  assumes "key_exchange ops" and "mo_secret_key_to_public_key ops (rnd_r rnd) = Some (rnd_R rnd)"
    and "random_fits rnd (length Bkeys)" and "input \<noteq> []" and "length input < 2 ^ 32" and "length Bkeys < 2 ^ 16"
    and "mo_secret_key_to_public_key ops b = Some B" and "B \<in> set Bkeys"
    and "\<forall>B' \<in> set Bkeys. getBhash B' = getBhash B \<longrightarrow> B' = B"
  shows "\<exists>msg. encryptMessage ops rnd input Bkeys = Some msg \<and> decryptMessage ops msg b = Some (True, input) \<and>
    (\<forall>b' B'. mo_secret_key_to_public_key ops b' = Some B' \<and> getBhash B' \<notin> getBhash ` set Bkeys \<longrightarrow>
       decryptMessage ops msg b' = Some (False, []))"
proof -
  have ne: "Bkeys \<noteq> []" using assms(8) by auto
  have fits: "length (rnd_x rnd) = 32" "list_all (\<lambda>iv. length iv = 8) (rnd_ivs rnd)" "length (rnd_ivs rnd) = length Bkeys"
      "length (rnd_iv rnd) = 8"
    using assms(3) by (simp_all add: random_fits_def)
  note dec = decryptMessage_eq [OF assms(3,4,5,6) ne]
  have "find_session ops (rnd_R rnd) b (getBhash B) (map (x_entry ops rnd) (zip Bkeys (rnd_ivs rnd))) = Some (rnd_x rnd)"
    using find_session_recipient [OF fits(1-3) shared_key_sym [OF assms(1,7,2)] assms(8,9)] .
  then have "decryptMessage ops (crypto_message ops rnd input Bkeys) b = Some (True, input)"
    using dec [OF assms(7)] by (simp add: decrypt_encrypt fits(4))
  moreover have "decryptMessage ops (crypto_message ops rnd input Bkeys) b' = Some (False, [])"
    if "mo_secret_key_to_public_key ops b' = Some B'" "getBhash B' \<notin> getBhash ` set Bkeys" for b' B'
  proof -
    have "\<forall>B'' \<in> set Bkeys. getBhash B'' \<noteq> getBhash B'" using that(2) by (metis image_eqI)
    then show ?thesis using dec [OF that(1)] by (simp add: find_session_nobody)
  qed
  ultimately show ?thesis
    using encryptMessage_eq [OF assms(3,4) ne] by blast
qed

text \<open>
  C37. The number of recipients is stored in 16 bits and not checked: a message for a
  multiple of 65536 recipients is encrypted without an error, and none of them can decrypt it.
\<close>

theorem too_many_recipients_unreadable:
  assumes "random_fits rnd (length Bkeys)" and "input \<noteq> []" and "Bkeys \<noteq> []" and "length Bkeys mod 2 ^ 16 = 0"
  shows "\<exists>msg. encryptMessage ops rnd input Bkeys = Some msg \<and> (\<forall>b. decryptMessage ops msg b = Some (False, []))"
proof -
  define msg where "msg = crypto_message ops rnd input Bkeys"
  note lay = crypto_message_layout [OF assms(1) msg_def]
  have "unat (le16_at msg 36) = length Bkeys mod 2 ^ 16"
    by (simp add: lay(4) unat_of_nat take_bit_eq_mod)
  then have count: "unat (le16_at msg 36) = 0"
    using assms(4) by simp
  have big: "sizeof_CryptoMessageHead < length msg"
    using assms(3) by (cases Bkeys) (simp_all add: lay(1) msg_head_size_def getEncryptChachaSize_def size_defs)
  have zero: "fst (decryptMsg ops msg b (unat (U8TO32_LITTLE msg 0)) (Some out)) = 0" for b out
    by (auto simp: decryptMsg_def Let_def count xentries_def split: option.splits)
  have size: "fst (decryptMsg ops msg b 0 None) \<in> {0, unat (U8TO32_LITTLE msg 0)}" for b
    by (auto simp: decryptMsg_def Let_def count)
  have "msg \<noteq> []" using big by auto
  then have "decryptMessage ops msg b = Some (False, [])" for b
  proof (cases "fst (decryptMsg ops msg b 0 None) = 0")
    case False
    then have k: "fst (decryptMsg ops msg b 0 None) = unat (U8TO32_LITTLE msg 0)"
      using size [of b] by simp
    show ?thesis
      using \<open>msg \<noteq> []\<close> False zero unfolding decryptMessage_def Let_def k by (simp add: case_prod_beta)
  qed (simp add: decryptMessage_def)
  then show ?thesis
    using encryptMessage_eq [OF assms(1-3)] msg_def by blast
qed

section \<open>Examples\<close>

definition example_msg_ops :: msg_ops where
  "example_msg_ops =
     \<lparr>mo_slow_hash = (\<lambda>d. d), mo_key_derivation = (\<lambda>A c. Some (map2 (XOR) A c)), mo_derivation_to_scalar = (\<lambda>d n. d),
      mo_secret_key_to_public_key = Some, mo_uninit = []\<rparr>"

definition example_random :: "nat \<Rightarrow> msg_random" where
  "example_random n =
     \<lparr>rnd_x = replicate 32 1, rnd_R = replicate 32 2, rnd_r = replicate 32 2, rnd_iv = replicate 8 3,
      rnd_ivs = replicate n (replicate 8 4)\<rparr>"

lemma example_key_exchange: "key_exchange example_msg_ops"
proof -
  have "map2 (XOR) A c = map2 (XOR) c A" for A c :: blob
    by (induction A c rule: list_induct2') (simp_all add: xor.commute)
  then show ?thesis by (auto simp: key_exchange_def example_msg_ops_def)
qed

lemma example_random_fits: "random_fits (example_random n) n"
  by (simp add: random_fits_def example_random_def list_all_iff)

theorem decrypt_encrypted_message_witness:
  "\<exists>msg. encryptMessage example_msg_ops (example_random 2) [10, 20, 30] [replicate 32 5, 6 # replicate 31 0] = Some msg \<and>
     decryptMessage example_msg_ops msg (6 # replicate 31 0) = Some (True, [10, 20, 30])"
proof -
  let ?Bs = "[replicate 32 5, 6 # replicate 31 0] :: blob list" and ?B = "6 # replicate 31 0 :: blob"
  have hash: "getBhash (replicate 32 5) = 0" "getBhash ?B = 6"
    by code_simp+
  have pk: "mo_secret_key_to_public_key example_msg_ops k = Some k" for k
    by (simp add: example_msg_ops_def)
  have r: "rnd_r (example_random 2) = rnd_R (example_random 2)"
    by (simp add: example_random_def)
  have fits: "random_fits (example_random 2) (length ?Bs)"
    using example_random_fits [of 2] by (simp add: numeral_2_eq_2)
  have unique: "\<forall>B' \<in> set ?Bs. getBhash B' = getBhash ?B \<longrightarrow> B' = ?B"
    using hash by auto
  show ?thesis
    using decrypt_encrypted_message [OF example_key_exchange _ fits _ _ _ pk _ unique, of "[10, 20, 30]"] pk r by auto
qed

theorem too_many_recipients_unreadable_witness:
  "\<exists>msg. encryptMessage example_msg_ops (example_random 65536) [10] (replicate 65536 (replicate 32 5)) = Some msg \<and>
     (\<forall>b. decryptMessage example_msg_ops msg b = Some (False, []))"
  using too_many_recipients_unreadable [of "example_random 65536" "replicate 65536 (replicate 32 5)" "[10]" example_msg_ops]
    example_random_fits [of 65536] by simp

end
