(* ===== verification/Rta_Messages.thy ===== *)
theory Rta_Messages
  imports Prelude "HOL-Library.Multiset"
begin

text \<open>
  Model of the messages between supernodes that the peer-to-peer node relays
  (\<^verbatim>\<open>src/p2p/net_node.inl\<close>, \<^verbatim>\<open>net_node.h\<close>,
  \<^verbatim>\<open>p2p_protocol_defs.h\<close>): announcements, broadcasts, multicasts and unicasts, the
  table of routes, and the cache of requests seen before. A handler takes the node to the node
  after it and the list of what it sends: requests posted to local supernodes and notifications
  of connections, whether they succeed or not.
\<close>

section \<open>Data\<close>

type_synonym peerid = u64
type_synonym conn_id = nat

record peerlist_entry =
  pe_host :: string
  pe_port :: u16
  pe_id :: peerid
  pe_last_seen :: int

record supernode_route =
  last_announce_height :: u64
  last_announce_time :: u64
  max_hop :: u64
  route_peers :: "peerlist_entry list"

text \<open>
  The requests of the supernodes (the \<^verbatim>\<open>COMMAND_RPC_*\<close> structures), and the requests
  between nodes, which extend them.
\<close>

record rpc_announce =
  ann_supernode_public_id :: string
  ann_height :: u64
  ann_signature :: string
  ann_network_address :: string

record announce_request = rpc_announce +
  ann_hop :: u64

record rpc_broadcast =
  bcast_sender_address :: string
  bcast_callback_uri :: string
  bcast_data :: string
  bcast_wait_answer :: bool

record broadcast_request = rpc_broadcast +
  bcast_hop :: u64
  bcast_message_id :: string

record rpc_multicast =
  mcast_receiver_addresses :: "string list"
  mcast_sender_address :: string
  mcast_callback_uri :: string
  mcast_data :: string
  mcast_wait_answer :: bool

record multicast_request = rpc_multicast +
  mcast_hop :: u64
  mcast_message_id :: string

record rpc_unicast =
  ucast_receiver_address :: string
  ucast_sender_address :: string
  ucast_callback_uri :: string
  ucast_data :: string
  ucast_wait_answer :: bool

record unicast_request = rpc_unicast +
  ucast_hop :: u64
  ucast_message_id :: string

datatype rpc_request =
    Rpc_Announce rpc_announce
  | Rpc_Broadcast rpc_broadcast
  | Rpc_Multicast rpc_multicast
  | Rpc_Unicast rpc_unicast

datatype rta_request =
    Announce announce_request
  | Broadcast broadcast_request
  | Multicast multicast_request
  | Unicast unicast_request

record local_supernode =
  http_host :: string
  http_port :: u64
  sn_uri :: string

text \<open>
  What a handler sends: a request posted over HTTP to a local supernode at a path, and a
  notification of a connection.
\<close>

datatype rta_event =
    Post local_supernode string rpc_request
  | Notify conn_id rta_request

text \<open>
  The local supernodes are the entries of \<^verbatim>\<open>m_supernodes\<close>, in the order in which the
  code meets them; the routes are in the order of their addresses; the connections are those
  that \<^verbatim>\<open>foreach_connection\<close> meets, with the id of the peer.
\<close>

record p2p_node =
  m_peer_id :: peerid
  m_supernodes :: "(string \<times> local_supernode) list"
  m_supernode_routes :: "(string \<times> supernode_route) list"
  m_supernode_requests_cache :: "string set"
  m_supernode_requests_timestamps :: "(int \<times> string) list"
  m_connections :: "(conn_id \<times> peerid) list"
  m_peers_white :: "peerlist_entry list"
  m_peers_gray :: "peerlist_entry list"
  m_announce_bytes_in :: u64
  m_announce_bytes_out :: u64
  m_broadcast_bytes_in :: u64
  m_broadcast_bytes_out :: u64
  m_multicast_bytes_in :: u64
  m_multicast_bytes_out :: u64

record connection_context =
  ctx_connection_id :: conn_id
  ctx_peer_id :: peerid
  ctx_normal :: bool

text \<open>
  What a handler reads from outside: the size of a serialized request, the system clock in
  milliseconds, \<^verbatim>\<open>time(nullptr)\<close>, the random subset of the connections, and the hash of a
  request in hexadecimal, which there may be none of.
\<close>

record rta_env =
  command_size :: "rta_request \<Rightarrow> u64"
  clock_ms :: int
  env_time :: u64
  select_subset :: "conn_id list \<Rightarrow> conn_id list"
  message_hash :: "rpc_request \<Rightarrow> string option"

definition MAX_TUNNEL_PEERS :: nat where "MAX_TUNNEL_PEERS = 3"
definition REQUEST_CACHE_TIME :: int where "REQUEST_CACHE_TIME = 2 * 60 * 1000"
definition HOP_RETRIES_MULTIPLIER :: u64 where "HOP_RETRIES_MULTIPLIER = 2"
definition DIFFICULTY_TARGET_SECONDS :: u64 where "DIFFICULTY_TARGET_SECONDS = 120"

section \<open>The cache of requests\<close>

text \<open>
  The clock is kept in an \<^verbatim>\<open>int\<close>, which holds the low 32 bits of it. The sum with
  \<open>REQUEST_CACHE_TIME\<close> is that of unbounded integers: the \<^verbatim>\<open>int\<close> sum of the code is
  undefined for a time in the last two minutes before the clock wraps.
\<close>

definition timestamp_of :: "int \<Rightarrow> int" where
  "timestamp_of ms = sint (word_of_int ms :: 32 word)"

fun insert_timestamp :: "int \<Rightarrow> string \<Rightarrow> (int \<times> string) list \<Rightarrow> (int \<times> string) list" where
  "insert_timestamp t m [] = [(t, m)]"
| "insert_timestamp t m ((t', m') # ts) =
     (if t < t' then (t, m) # (t', m') # ts else (t', m') # insert_timestamp t m ts)"

fun remove_old :: "int \<Rightarrow> (int \<times> string) list \<Rightarrow> string set \<Rightarrow> (int \<times> string) list \<times> string set" where
  "remove_old timestamp [] cache = ([], cache)"
| "remove_old timestamp ((t, m) # ts) cache =
     (if t + REQUEST_CACHE_TIME < timestamp then remove_old timestamp ts (cache - {m}) else ((t, m) # ts, cache))"

definition remove_old_request_cache :: "rta_env \<Rightarrow> p2p_node \<Rightarrow> p2p_node" where
  "remove_old_request_cache env n =
     (let (ts, cache) = remove_old (timestamp_of (clock_ms env)) (m_supernode_requests_timestamps n) (m_supernode_requests_cache n)
      in n\<lparr>m_supernode_requests_timestamps := ts, m_supernode_requests_cache := cache\<rparr>)"

definition remember_request :: "rta_env \<Rightarrow> string \<Rightarrow> p2p_node \<Rightarrow> p2p_node" where
  "remember_request env m n =
     n\<lparr>m_supernode_requests_cache := insert m (m_supernode_requests_cache n),
       m_supernode_requests_timestamps :=
         insert_timestamp (timestamp_of (clock_ms env)) m (m_supernode_requests_timestamps n)\<rparr>"

section \<open>Routes and tunnels\<close>

definition find_connection_id_by_peer :: "p2p_node \<Rightarrow> peerlist_entry \<Rightarrow> conn_id option" where
  "find_connection_id_by_peer n pe = map_option fst (find (\<lambda>(c, p). p = pe_id pe) (m_connections n))"

definition notify_peer_list :: "p2p_node \<Rightarrow> rta_request \<Rightarrow> peerlist_entry list \<Rightarrow> rta_event list" where
  "notify_peer_list n req peers_to_send =
     concat (map (\<lambda>pe. case find_connection_id_by_peer n pe of None \<Rightarrow> [] | Some c \<Rightarrow> [Notify c req]) peers_to_send)"

text \<open>The loop over the peers of one address.\<close>

fun address_tunnels ::
  "p2p_node \<Rightarrow> peerid list \<Rightarrow> nat \<Rightarrow> peerlist_entry list \<Rightarrow> peerlist_entry list \<Rightarrow> peerlist_entry list" where
  "address_tunnels n exclude k [] tunnels = tunnels"
| "address_tunnels n exclude k (pe # pes) tunnels =
     (if find_connection_id_by_peer n pe = None then address_tunnels n exclude k pes tunnels
      else
        let new = (\<not> list_ex (\<lambda>entry. pe_id entry = pe_id pe) tunnels \<and> pe_id pe \<notin> set exclude);
            tunnels = (if new then tunnels @ [pe] else tunnels);
            k = (if new then k + 1 else k)
        in if MAX_TUNNEL_PEERS \<le> k then tunnels else address_tunnels n exclude k pes tunnels)"

definition find_tunnels :: "p2p_node \<Rightarrow> string list \<Rightarrow> peerid list \<Rightarrow> peerlist_entry list" where
  "find_tunnels n addresses exclude =
     fold (\<lambda>addr tunnels.
        case map_of (m_supernode_routes n) addr of
          None \<Rightarrow> tunnels
        | Some route \<Rightarrow> address_tunnels n exclude 0 (route_peers route) tunnels) addresses []"

definition multicast_send ::
  "rta_env \<Rightarrow> rta_request \<Rightarrow> string list \<Rightarrow> peerid list \<Rightarrow> p2p_node \<Rightarrow> p2p_node \<times> rta_event list" where
  "multicast_send env req addresses exclude n =
     (let tunnels = find_tunnels n addresses exclude
      in (n\<lparr>m_multicast_bytes_out := m_multicast_bytes_out n + command_size env req * of_nat (length tunnels)\<rparr>,
          notify_peer_list n req tunnels))"

definition get_max_hop :: "p2p_node \<Rightarrow> string list \<Rightarrow> u64" where
  "get_max_hop n addresses =
     fold (\<lambda>addr mh. case map_of (m_supernode_routes n) addr of
         None \<Rightarrow> mh
       | Some route \<Rightarrow> if mh < max_hop route then max_hop route else mh) addresses 0"

definition get_routes :: "p2p_node \<Rightarrow> string list" where
  "get_routes n = map fst (m_supernode_routes n)"

fun put_route :: "string \<Rightarrow> supernode_route \<Rightarrow> (string \<times> supernode_route) list \<Rightarrow> (string \<times> supernode_route) list" where
  "put_route a r [] = [(a, r)]"
| "put_route a r ((a', r') # rs) =
     (if a = a' then (a, r) # rs
      else if a < a' then (a, r) # (a', r') # rs
      else (a', r') # put_route a r rs)"

definition find_peer :: "p2p_node \<Rightarrow> peerid \<Rightarrow> peerlist_entry option" where
  "find_peer n i = find (\<lambda>pe. pe_id pe = i) (m_peers_white n @ m_peers_gray n)"

section \<open>Local supernodes\<close>

definition update_supernode :: "local_supernode \<Rightarrow> local_supernode \<Rightarrow> local_supernode" where
  "update_supernode new sn =
     (if http_host new \<noteq> http_host sn \<or> http_port new \<noteq> http_port sn then new else sn)"

text \<open>\<open>parsed\<close> is the result of \<^verbatim>\<open>parse_url\<close>.\<close>

definition add_supernode :: "string \<Rightarrow> local_supernode option \<Rightarrow> p2p_node \<Rightarrow> p2p_node" where
  "add_supernode addr parsed n =
     (case parsed of
        None \<Rightarrow> n\<lparr>m_supernodes := filter (\<lambda>(a, sn). a \<noteq> addr) (m_supernodes n)\<rparr>
      | Some new \<Rightarrow>
          if addr \<notin> fst ` set (m_supernodes n) then n\<lparr>m_supernodes := m_supernodes n @ [(addr, new)]\<rparr>
          else n\<lparr>m_supernodes :=
                 map (\<lambda>(a, sn). (a, if a = addr then update_supernode new sn else sn)) (m_supernodes n)\<rparr>)"

definition get_supernodes_addresses :: "p2p_node \<Rightarrow> string list" where
  "get_supernodes_addresses n = map fst (m_supernodes n)"

definition remove_supernode :: "string \<Rightarrow> p2p_node \<Rightarrow> bool \<times> p2p_node" where
  "remove_supernode addr n =
     (addr \<in> fst ` set (m_supernodes n), n\<lparr>m_supernodes := filter (\<lambda>(a, sn). a \<noteq> addr) (m_supernodes n)\<rparr>)"

definition reset_supernodes :: "p2p_node \<Rightarrow> p2p_node" where
  "reset_supernodes n = n\<lparr>m_supernodes := []\<rparr>"

definition post_request_to_supernode ::
  "local_supernode \<Rightarrow> string \<Rightarrow> rpc_request \<Rightarrow> string \<Rightarrow> rta_event" where
  "post_request_to_supernode sn meth body endpoint =
     Post sn (sn_uri sn @ (if endpoint \<noteq> '''' then endpoint else ''/'' @ meth)) body"

definition post_request_to_supernodes ::
  "p2p_node \<Rightarrow> string \<Rightarrow> rpc_request \<Rightarrow> string \<Rightarrow> rta_event list" where
  "post_request_to_supernodes n meth body endpoint =
     map (\<lambda>(a, sn). post_request_to_supernode sn meth body endpoint) (m_supernodes n)"

text \<open>The posts to those of the addresses that are local.\<close>

definition post_to_local :: "p2p_node \<Rightarrow> rpc_multicast \<Rightarrow> string list \<Rightarrow> rta_event list" where
  "post_to_local n req addresses =
     concat (map (\<lambda>addr. case map_of (m_supernodes n) addr of
         None \<Rightarrow> []
       | Some sn \<Rightarrow> [post_request_to_supernode sn ''multicast'' (Rpc_Multicast req) (mcast_callback_uri req)]) addresses)"

definition not_local :: "p2p_node \<Rightarrow> string list \<Rightarrow> string list" where
  "not_local n = filter (\<lambda>addr. map_of (m_supernodes n) addr = None)"

section \<open>Handlers\<close>

definition relay_notify_to_list :: "rta_request \<Rightarrow> conn_id list \<Rightarrow> rta_event list" where
  "relay_notify_to_list req = map (\<lambda>c. Notify c req)"

definition relay_notify_to_all :: "p2p_node \<Rightarrow> rta_request \<Rightarrow> connection_context \<Rightarrow> rta_event list" where
  "relay_notify_to_all n req ctx =
     relay_notify_to_list req
       (map fst (filter (\<lambda>(c, p). p \<noteq> 0 \<and> ctx_connection_id ctx \<noteq> c) (m_connections n)))"

text \<open>
  The route after an announcement that came from the peer \<open>pe\<close>, and whether the handler goes
  on. The time of the comparison is an \<^verbatim>\<open>unsigned\<close> of 32 bits.
\<close>

definition update_route ::
  "rta_env \<Rightarrow> announce_request \<Rightarrow> peerlist_entry \<Rightarrow> supernode_route option \<Rightarrow> supernode_route \<times> bool" where
  "update_route env arg pe old =
     (let new = \<lparr>last_announce_height = ann_height arg, last_announce_time = env_time env,
                 max_hop = ann_hop arg, route_peers = [pe]\<rparr>
      in case old of
           None \<Rightarrow> (new, True)
         | Some route \<Rightarrow>
             if last_announce_height route = ann_height arg \<and>
                ucast (ucast (env_time env) :: 32 word) < last_announce_time route + DIFFICULTY_TARGET_SECONDS
             then
               (if list_ex (\<lambda>p. pe_id pe = pe_id p) (route_peers route) then route
                else route\<lparr>route_peers := route_peers route @ [pe],
                           max_hop := (if max_hop route < ann_hop arg then ann_hop arg else max_hop route)\<rparr>,
                False)
             else (new, True))"

definition announce_to_supernodes :: "p2p_node \<Rightarrow> announce_request \<Rightarrow> rta_event list" where
  "announce_to_supernodes n arg =
     map (\<lambda>(a, sn). post_request_to_supernode sn ''send_supernode_announce'' (Rpc_Announce (rpc_announce.truncate arg)) '''')
       (filter (\<lambda>(a, sn). a \<noteq> ann_supernode_public_id arg) (m_supernodes n))"

definition relay_announce :: "rta_env \<Rightarrow> announce_request \<Rightarrow> p2p_node \<Rightarrow> p2p_node \<times> rta_event list" where
  "relay_announce env arg n =
     (let req = Announce (arg\<lparr>ann_hop := ann_hop arg + 1\<rparr>);
          all_connections = map fst (filter (\<lambda>(c, p). p \<noteq> m_peer_id n) (m_connections n))
      in if all_connections = [] then (n, [])
         else let random_connections = select_subset env all_connections
              in (n\<lparr>m_announce_bytes_out :=
                      m_announce_bytes_out n + command_size env req * of_nat (length random_connections)\<rparr>,
                  relay_notify_to_list req random_connections))"

definition handle_supernode_announce ::
  "rta_env \<Rightarrow> announce_request \<Rightarrow> connection_context \<Rightarrow> p2p_node \<Rightarrow> p2p_node \<times> rta_event list" where
  "handle_supernode_announce env arg ctx n =
     (let n = n\<lparr>m_announce_bytes_in := m_announce_bytes_in n + command_size env (Announce arg)\<rparr>;
          supernode_str = ann_supernode_public_id arg
      in if \<not> ctx_normal ctx then (n, [])
         else if map_of (m_supernodes n) supernode_str \<noteq> None then (n, announce_to_supernodes n arg)
         else
           case find_peer n (ctx_peer_id ctx) of
             None \<Rightarrow> (n, [])
           | Some pe \<Rightarrow>
               let n = remove_old_request_cache env n;
                   (route, go_on) = update_route env arg pe (map_of (m_supernode_routes n) supernode_str);
                   n = n\<lparr>m_supernode_routes := put_route supernode_str route (m_supernode_routes n)\<rparr>
               in if \<not> go_on then (n, [])
                  else let (n', sent) = relay_announce env arg n in (n', announce_to_supernodes n arg @ sent))"

definition handle_broadcast ::
  "rta_env \<Rightarrow> broadcast_request \<Rightarrow> connection_context \<Rightarrow> p2p_node \<Rightarrow> p2p_node \<times> rta_event list" where
  "handle_broadcast env arg ctx n =
     (let n = n\<lparr>m_broadcast_bytes_in := m_broadcast_bytes_in n + command_size env (Broadcast arg)\<rparr>
      in if \<not> ctx_normal ctx then (n, [])
         else if bcast_message_id arg \<in> m_supernode_requests_cache n then (remove_old_request_cache env n, [])
         else
           let n = remember_request env (bcast_message_id arg) n;
               posts = post_request_to_supernodes n ''broadcast'' (Rpc_Broadcast (rpc_broadcast.truncate arg)) (bcast_callback_uri arg)
           in if 0 < bcast_hop arg
              then
                let req = Broadcast (arg\<lparr>bcast_hop := bcast_hop arg - 1\<rparr>);
                    n = n\<lparr>m_broadcast_bytes_out :=
                          m_broadcast_bytes_out n + command_size env req * of_nat (length (m_connections n))\<rparr>
                in (remove_old_request_cache env n, posts @ relay_notify_to_all n req ctx)
              else (remove_old_request_cache env n, posts))"

definition handle_multicast ::
  "rta_env \<Rightarrow> multicast_request \<Rightarrow> connection_context \<Rightarrow> p2p_node \<Rightarrow> p2p_node \<times> rta_event list" where
  "handle_multicast env arg ctx n =
     (let n = n\<lparr>m_multicast_bytes_in := m_multicast_bytes_in n + command_size env (Multicast arg)\<rparr>
      in if \<not> ctx_normal ctx then (n, [])
         else if mcast_message_id arg \<in> m_supernode_requests_cache n then (remove_old_request_cache env n, [])
         else
           let n = remember_request env (mcast_message_id arg) n;
               posts = post_to_local n (rpc_multicast.truncate arg) (mcast_receiver_addresses arg);
               addresses = not_local n (mcast_receiver_addresses arg);
               n = remove_old_request_cache env n
           in if 0 < mcast_hop arg
              then
                let (n, sent) = multicast_send env (Multicast (arg\<lparr>mcast_hop := mcast_hop arg - 1\<rparr>))
                                  addresses [ctx_peer_id ctx] n
                in (n, posts @ sent)
              else (n, posts))"

definition handle_unicast ::
  "rta_env \<Rightarrow> unicast_request \<Rightarrow> connection_context \<Rightarrow> p2p_node \<Rightarrow> p2p_node \<times> rta_event list" where
  "handle_unicast env arg ctx n =
     (let n = n\<lparr>m_multicast_bytes_in := m_multicast_bytes_in n + command_size env (Unicast arg)\<rparr>
      in if \<not> ctx_normal ctx then (n, [])
         else if ucast_message_id arg \<in> m_supernode_requests_cache n then (remove_old_request_cache env n, [])
         else
           let address = ucast_receiver_address arg;
               n = remove_old_request_cache env (remember_request env (ucast_message_id arg) n)
           in case map_of (m_supernodes n) address of
                Some sn \<Rightarrow>
                  (n, [post_request_to_supernode sn ''unicast'' (Rpc_Unicast (rpc_unicast.truncate arg)) (ucast_callback_uri arg)])
              | None \<Rightarrow>
                  if 0 < ucast_hop arg
                  then multicast_send env (Unicast (arg\<lparr>ucast_hop := ucast_hop arg - 1\<rparr>)) [address] [ctx_peer_id ctx] n
                  else (n, []))"

fun handle_request ::
  "rta_env \<Rightarrow> rta_request \<Rightarrow> connection_context \<Rightarrow> p2p_node \<Rightarrow> p2p_node \<times> rta_event list" where
  "handle_request env (Announce arg) ctx n = handle_supernode_announce env arg ctx n"
| "handle_request env (Broadcast arg) ctx n = handle_broadcast env arg ctx n"
| "handle_request env (Multicast arg) ctx n = handle_multicast env arg ctx n"
| "handle_request env (Unicast arg) ctx n = handle_unicast env arg ctx n"

section \<open>Requests of the local supernodes\<close>

text \<open>
  The result of \<^verbatim>\<open>notify\<close> is tested as a truth value where the peers that got the request are
  counted; it is \<open>1\<close> or a negative error, so that every connection counts.
\<close>

definition do_supernode_announce :: "rta_env \<Rightarrow> rpc_announce \<Rightarrow> p2p_node \<Rightarrow> p2p_node \<times> rta_event list" where
  "do_supernode_announce env req n =
     (let p2p_req = Announce (rpc_announce.extend req (announce_request.fields 0));
          posts = post_request_to_supernodes n ''send_supernode_announce'' (Rpc_Announce req) '''';
          announced_peers = snd ` set (m_connections n)
      in (n\<lparr>m_announce_bytes_out := m_announce_bytes_out n + command_size env p2p_req * of_nat (card announced_peers)\<rparr>,
          posts @ relay_notify_to_list p2p_req (map fst (m_connections n))))"

definition do_broadcast :: "rta_env \<Rightarrow> rpc_broadcast \<Rightarrow> p2p_node \<Rightarrow> p2p_node \<times> rta_event list" where
  "do_broadcast env req n =
     (case message_hash env (Rpc_Broadcast req) of
        None \<Rightarrow> (n, [])
      | Some message_id \<Rightarrow>
          let posts = post_request_to_supernodes n ''broadcast'' (Rpc_Broadcast req) (bcast_callback_uri req);
              hop = HOP_RETRIES_MULTIPLIER * get_max_hop n (get_routes n);
              p2p_req = Broadcast (rpc_broadcast.extend req (broadcast_request.fields hop message_id));
              n = remove_old_request_cache env (remember_request env message_id n);
              connections = filter (\<lambda>(c, p). p \<noteq> 0) (m_connections n);
              announced_peers = snd ` set connections;
              peers_to_send = filter (\<lambda>pe. pe_id pe \<notin> announced_peers) (m_peers_white n)
          in (n\<lparr>m_broadcast_bytes_out := m_broadcast_bytes_out n
                  + command_size env p2p_req * of_nat (card announced_peers)
                  + command_size env p2p_req * of_nat (length peers_to_send)\<rparr>,
              posts @ relay_notify_to_list p2p_req (map fst connections) @ notify_peer_list n p2p_req peers_to_send))"

definition do_multicast :: "rta_env \<Rightarrow> rpc_multicast \<Rightarrow> p2p_node \<Rightarrow> p2p_node \<times> rta_event list" where
  "do_multicast env req n =
     (case message_hash env (Rpc_Multicast req) of
        None \<Rightarrow> (n, [])
      | Some message_id \<Rightarrow>
          let posts = post_to_local n req (mcast_receiver_addresses req);
              remaining_addresses = not_local n (mcast_receiver_addresses req)
          in if remaining_addresses = [] then (n, posts)
             else
               let hop = HOP_RETRIES_MULTIPLIER * get_max_hop n remaining_addresses;
                   p2p_req = rpc_multicast.extend (req\<lparr>mcast_receiver_addresses := remaining_addresses\<rparr>)
                               (multicast_request.fields hop message_id);
                   n = remove_old_request_cache env (remember_request env message_id n);
                   (n, sent) = multicast_send env (Multicast p2p_req) remaining_addresses [] n
               in (n, posts @ sent))"

definition do_unicast :: "rta_env \<Rightarrow> rpc_unicast \<Rightarrow> p2p_node \<Rightarrow> p2p_node \<times> rta_event list" where
  "do_unicast env req n =
     (case message_hash env (Rpc_Unicast req) of
        None \<Rightarrow> (n, [])
      | Some message_id \<Rightarrow>
          let addr = ucast_receiver_address req
          in case map_of (m_supernodes n) addr of
               Some sn \<Rightarrow> (n, [post_request_to_supernode sn ''unicast'' (Rpc_Unicast req) (ucast_callback_uri req)])
             | None \<Rightarrow>
                 let hop = HOP_RETRIES_MULTIPLIER * get_max_hop n [addr];
                     p2p_req = Unicast (rpc_unicast.extend req (unicast_request.fields hop message_id))
                 in multicast_send env p2p_req [addr] [] (remove_old_request_cache env (remember_request env message_id n)))"

record peer_data =
  pd_host :: string
  pd_port :: u16
  pd_id :: peerid
  pd_last_seen :: int

record route_data =
  rd_address :: string
  rd_last_announce_height :: u64
  rd_last_announce_time :: u64
  rd_max_hop :: u64
  rd_peers :: "peer_data list"

text \<open>
  The code does not set \<^verbatim>\<open>last_announce_time\<close> of the result; \<open>uninit\<close> is what the
  memory of it holds.
\<close>

definition get_tunnels :: "u64 \<Rightarrow> p2p_node \<Rightarrow> route_data list" where
  "get_tunnels uninit n =
     map (\<lambda>(a, route).
       \<lparr>rd_address = a, rd_last_announce_height = last_announce_height route, rd_last_announce_time = uninit,
        rd_max_hop = max_hop route,
        rd_peers = map (\<lambda>pe. \<lparr>pd_host = pe_host pe, pd_port = pe_port pe, pd_id = pe_id pe, pd_last_seen = pe_last_seen pe\<rparr>)
          (route_peers route)\<rparr>)
       (m_supernode_routes n)"

section \<open>Tunnels\<close>

text \<open>What the loop over the peers of one address adds to the tunnels \<open>old\<close>.\<close>

lemma address_tunnels_keep: "x \<in> set old \<Longrightarrow> x \<in> set (address_tunnels n ex k pes old)"
  by (induction pes arbitrary: k old) (simp_all add: Let_def)

lemma address_tunnels_keeps: "set old \<subseteq> set (address_tunnels n ex k pes old)"
  using address_tunnels_keep by blast

lemma address_tunnels_peer:
  "x \<in> set (address_tunnels n ex k pes old) \<Longrightarrow>
   x \<in> set old \<or> x \<in> set pes \<and> find_connection_id_by_peer n x \<noteq> None \<and> pe_id x \<notin> set ex"
proof (induction pes arbitrary: k old)
  case (Cons p pes)
  from Cons.IH [of k old] Cons.IH [of "Suc k" "old @ [p]"] Cons.prems show ?case
    by (auto simp: Let_def split: if_splits)
qed simp

lemma address_tunnels_distinct:
  "distinct (map pe_id old) \<Longrightarrow> distinct (map pe_id (address_tunnels n ex k pes old))"
proof (induction pes arbitrary: k old)
  case (Cons p pes)
  from Cons.IH [of old k] Cons.IH [of "old @ [p]" "Suc k"] Cons.prems show ?case
    by (fastforce simp: Let_def list_ex_iff)
qed simp

lemma address_tunnels_length:
  "k < MAX_TUNNEL_PEERS \<Longrightarrow> k + length (address_tunnels n ex k pes old) \<le> MAX_TUNNEL_PEERS + length old"
proof (induction pes arbitrary: k old)
  case (Cons p pes)
  from Cons.IH [of k old] Cons.IH [of "Suc k" "old @ [p]"] Cons.prems show ?case by (auto simp: Let_def)
qed simp

lemma address_tunnels_serves:
  "\<lbrakk>k < MAX_TUNNEL_PEERS; pe \<in> set pes; find_connection_id_by_peer n pe \<noteq> None; pe_id pe \<notin> set ex\<rbrakk>
   \<Longrightarrow> \<exists>t \<in> set (address_tunnels n ex k pes old). pe_id t \<in> pe_id ` set pes"
proof (induction pes arbitrary: k old)
  case (Cons p pes)
  let ?new = "\<not> list_ex (\<lambda>entry. pe_id entry = pe_id p) old \<and> pe_id p \<notin> set ex"
  show ?case
  proof (cases "find_connection_id_by_peer n p = None \<or> pe_id p \<in> set ex")
    case True
    with Cons.prems(2-4) have "pe \<in> set pes" by auto
    with Cons.IH [of k old] Cons.prems True show ?thesis by (auto simp: Let_def)
  next
    case False
    have "\<exists>t \<in> set (if ?new then old @ [p] else old). pe_id t = pe_id p"
      using False by (auto simp: list_ex_iff)
    moreover have "set (if ?new then old @ [p] else old) \<subseteq> set (address_tunnels n ex k (p # pes) old)"
      using False address_tunnels_keeps [of "old @ [p]" n ex "Suc k" pes] address_tunnels_keeps [of old n ex k pes]
      by (auto simp: Let_def)
    ultimately obtain t where "t \<in> set (address_tunnels n ex k (p # pes) old)" "pe_id t = pe_id p" by blast
    then show ?thesis by (intro bexI [of _ t]) simp_all
  qed
qed simp

definition add_tunnels :: "p2p_node \<Rightarrow> peerid list \<Rightarrow> string \<Rightarrow> peerlist_entry list \<Rightarrow> peerlist_entry list" where
  "add_tunnels n ex addr tunnels =
     (case map_of (m_supernode_routes n) addr of
        None \<Rightarrow> tunnels
      | Some route \<Rightarrow> address_tunnels n ex 0 (route_peers route) tunnels)"

lemma find_tunnels_fold: "find_tunnels n addresses ex = fold (add_tunnels n ex) addresses []"
  by (simp add: find_tunnels_def add_tunnels_def [abs_def])

text \<open>The peers of the routes of some addresses that a request may go to.\<close>

definition route_candidates :: "p2p_node \<Rightarrow> peerid list \<Rightarrow> string \<Rightarrow> peerlist_entry set" where
  "route_candidates n ex addr =
     {pe. \<exists>route. map_of (m_supernode_routes n) addr = Some route \<and> pe \<in> set (route_peers route) \<and>
          find_connection_id_by_peer n pe \<noteq> None \<and> pe_id pe \<notin> set ex}"

lemma add_tunnels_keeps: "set old \<subseteq> set (add_tunnels n ex a old)"
  by (simp add: add_tunnels_def address_tunnels_keeps split: option.split)

lemma add_tunnels_peers: "set (add_tunnels n ex a old) \<subseteq> set old \<union> route_candidates n ex a"
  by (auto simp: add_tunnels_def route_candidates_def split: option.split dest!: address_tunnels_peer)

lemma add_tunnels_distinct: "distinct (map pe_id old) \<Longrightarrow> distinct (map pe_id (add_tunnels n ex a old))"
  by (simp add: add_tunnels_def address_tunnels_distinct split: option.split)

lemma add_tunnels_length: "length (add_tunnels n ex a old) \<le> MAX_TUNNEL_PEERS + length old"
  using address_tunnels_length [of 0 n ex _ old]
  by (simp add: add_tunnels_def MAX_TUNNEL_PEERS_def split: option.split)

lemma add_tunnels_serves:
  assumes "route_candidates n ex a \<noteq> {}"
  shows "\<exists>t \<in> set (add_tunnels n ex a old). \<exists>route. map_of (m_supernode_routes n) a = Some route \<and> pe_id t \<in> pe_id ` set (route_peers route)"
  using assms address_tunnels_serves [of 0 _ _ n ex old]
  by (auto simp: route_candidates_def add_tunnels_def MAX_TUNNEL_PEERS_def)

lemma fold_tunnels_keeps: "set old \<subseteq> set (fold (add_tunnels n ex) as old)"
proof (induction as arbitrary: old)
  case (Cons a as)
  from subset_trans [OF add_tunnels_keeps Cons] show ?case by simp
qed simp

lemma fold_tunnels_peers:
  "set (fold (add_tunnels n ex) as old) \<subseteq> set old \<union> (\<Union>a \<in> set as. route_candidates n ex a)"
proof (induction as arbitrary: old)
  case (Cons a as)
  from Cons [of "add_tunnels n ex a old"] add_tunnels_peers [of n ex a old] show ?case by auto
qed simp

lemma fold_tunnels_distinct:
  "distinct (map pe_id old) \<Longrightarrow> distinct (map pe_id (fold (add_tunnels n ex) as old))"
  by (induction as arbitrary: old) (simp_all add: add_tunnels_distinct)

lemma fold_tunnels_length: "length (fold (add_tunnels n ex) as old) \<le> MAX_TUNNEL_PEERS * length as + length old"
proof (induction as arbitrary: old)
  case (Cons a as)
  from Cons [of "add_tunnels n ex a old"] add_tunnels_length [of n ex a old] show ?case by simp
qed simp

lemma fold_tunnels_serves:
  assumes "a \<in> set as" "route_candidates n ex a \<noteq> {}"
  shows "\<exists>t \<in> set (fold (add_tunnels n ex) as old). \<exists>route. map_of (m_supernode_routes n) a = Some route \<and> pe_id t \<in> pe_id ` set (route_peers route)"
  using assms(1)
proof (induction as arbitrary: old)
  case (Cons b as)
  show ?case
  proof (cases "a = b")
    case True
    with add_tunnels_serves [OF assms(2), of old] fold_tunnels_keeps [of "add_tunnels n ex b old" n ex as]
    show ?thesis by fastforce
  next
    case False
    with Cons show ?thesis by simp
  qed
qed simp

lemma notify_connected:
  "\<forall>pe \<in> set pes. find_connection_id_by_peer n pe \<noteq> None \<Longrightarrow>
   notify_peer_list n req pes = map (\<lambda>pe. Notify (the (find_connection_id_by_peer n pe)) req) pes"
  by (induction pes) (auto simp: notify_peer_list_def)

lemma find_tunnels_candidates: "set (find_tunnels n as ex) \<subseteq> (\<Union>a \<in> set as. route_candidates n ex a)"
  using fold_tunnels_peers [of n ex as "[]"] by (simp add: find_tunnels_fold)

lemma multicast_send_notifies:
  "snd (multicast_send env req as ex n) =
   map (\<lambda>pe. Notify (the (find_connection_id_by_peer n pe)) req) (find_tunnels n as ex)"
proof -
  have "\<forall>pe \<in> set (find_tunnels n as ex). find_connection_id_by_peer n pe \<noteq> None"
    using find_tunnels_candidates [of n as ex] by (auto simp: route_candidates_def)
  from notify_connected [OF this] show ?thesis by (simp add: multicast_send_def Let_def)
qed

text \<open>
  C40. A request is sent once to each of its tunnels. The tunnels are connected peers of the routes
  of its addresses, none of them excluded and no two with the same id, at most three for each
  address; and every address with a connected peer that is not excluded on its route is served by
  a tunnel on that route.
\<close>

theorem multicast_tunnels:
  "snd (multicast_send env req as ex n) =
     map (\<lambda>pe. Notify (the (find_connection_id_by_peer n pe)) req) (find_tunnels n as ex) \<and>
   distinct (map pe_id (find_tunnels n as ex)) \<and>
   length (find_tunnels n as ex) \<le> MAX_TUNNEL_PEERS * length as \<and>
   set (find_tunnels n as ex) \<subseteq> (\<Union>a \<in> set as. route_candidates n ex a) \<and>
   (\<forall>a \<in> set as. route_candidates n ex a \<noteq> {} \<longrightarrow>
      (\<exists>t \<in> set (find_tunnels n as ex). \<exists>route. map_of (m_supernode_routes n) a = Some route \<and>
         pe_id t \<in> pe_id ` set (route_peers route)))"
proof (intro conjI ballI impI)
  fix a
  assume "a \<in> set as" "route_candidates n ex a \<noteq> {}"
  from fold_tunnels_serves [OF this, of "[]"]
  show "\<exists>t \<in> set (find_tunnels n as ex). \<exists>route. map_of (m_supernode_routes n) a = Some route \<and>
         pe_id t \<in> pe_id ` set (route_peers route)"
    by (simp add: find_tunnels_fold)
qed (use multicast_send_notifies find_tunnels_candidates fold_tunnels_distinct [of "[]" n ex as]
       fold_tunnels_length [of n ex as "[]"] in \<open>simp_all add: find_tunnels_fold\<close>)

definition example_peer :: "u64 \<Rightarrow> peerlist_entry" where
  "example_peer i = \<lparr>pe_host = ''10.0.0.1'', pe_port = 18980, pe_id = i, pe_last_seen = 0\<rparr>"

definition example_route :: "u64 list \<Rightarrow> supernode_route" where
  "example_route ids = \<lparr>last_announce_height = 100, last_announce_time = 0, max_hop = 2, route_peers = map example_peer ids\<rparr>"

text \<open>A node with a local supernode, routes to two others, and four connections.\<close>

definition example_node :: p2p_node where
  "example_node =
     \<lparr>m_peer_id = 99,
      m_supernodes = [(''sn'', \<lparr>http_host = ''127.0.0.1'', http_port = 28690, sn_uri = ''/dapi''\<rparr>)],
      m_supernode_routes = [(''a'', example_route [1, 2, 3, 4]), (''b'', example_route [2, 5])],
      m_supernode_requests_cache = {}, m_supernode_requests_timestamps = [],
      m_connections = [(10, 1), (11, 2), (12, 4), (13, 3)],
      m_peers_white = map example_peer [1, 2, 3], m_peers_gray = map example_peer [4, 5],
      m_announce_bytes_in = 0, m_announce_bytes_out = 0, m_broadcast_bytes_in = 0, m_broadcast_bytes_out = 0,
      m_multicast_bytes_in = 0, m_multicast_bytes_out = 0\<rparr>"

definition example_env :: "int \<Rightarrow> rta_env" where
  "example_env ms =
     \<lparr>command_size = (\<lambda>req. 100), clock_ms = ms, env_time = 1000, select_subset = (\<lambda>cs. cs), message_hash = (\<lambda>req. Some ''h'')\<rparr>"

lemma example_tunnels: "map pe_id (find_tunnels example_node [''a'', ''b''] [1]) = [2, 3, 4]"
  by code_simp

theorem multicast_tunnels_witness:
  "map pe_id (find_tunnels example_node [''a'', ''b''] [1]) = [2, 3, 4] \<and>
   route_candidates example_node [1] ''b'' \<noteq> {} \<and>
   (\<exists>t \<in> set (find_tunnels example_node [''a'', ''b''] [1]). pe_id t \<in> {2, 5})"
proof -
  have route: "map_of (m_supernode_routes example_node) ''b'' = Some (example_route [2, 5])"
    by (simp add: example_node_def)
  have "example_peer 2 \<in> route_candidates example_node [1] ''b''"
    by (simp add: route_candidates_def route example_route_def example_peer_def)
       (simp add: find_connection_id_by_peer_def example_node_def)
  then have some: "route_candidates example_node [1] ''b'' \<noteq> {}" by blast
  with multicast_tunnels [of "example_env 0" "Announce undefined" "[''a'', ''b'']" "[1]" example_node] route
  have "\<exists>t \<in> set (find_tunnels example_node [''a'', ''b''] [1]). pe_id t \<in> {2, 5}"
    by (auto simp: example_route_def example_peer_def)
  with some example_tunnels show ?thesis by blast
qed

section \<open>The cache of requests\<close>

text \<open>The part of a node that the cache consists of, and its invariant.\<close>

definition cache_view :: "p2p_node \<Rightarrow> (int \<times> string) list \<times> string set" where
  "cache_view n = (m_supernode_requests_timestamps n, m_supernode_requests_cache n)"

fun cache_ok :: "(int \<times> string) list \<times> string set \<Rightarrow> bool" where
  "cache_ok (ts, cache) \<longleftrightarrow> sorted (map fst ts) \<and> distinct (map snd ts) \<and> cache = snd ` set ts"

text \<open>
  What an operation may do with the cache: nothing, dropping the old requests, or remembering a
  new request first.
\<close>

definition cache_step :: "rta_env \<Rightarrow> p2p_node \<Rightarrow> p2p_node \<Rightarrow> bool" where
  "cache_step env n n' \<longleftrightarrow>
     cache_view n' = cache_view n \<or>
     cache_view n' = cache_view (remove_old_request_cache env n) \<or>
     (\<exists>m. m \<notin> m_supernode_requests_cache n \<and>
          cache_view n' = cache_view (remove_old_request_cache env (remember_request env m n)))"

lemma view_remove_old:
  "cache_view (remove_old_request_cache env n) =
     remove_old (timestamp_of (clock_ms env)) (fst (cache_view n)) (snd (cache_view n))"
  by (simp add: cache_view_def remove_old_request_cache_def split: prod.split)

lemma view_remember:
  "cache_view (remember_request env m n) =
     (insert_timestamp (timestamp_of (clock_ms env)) m (fst (cache_view n)), insert m (snd (cache_view n)))"
  by (simp add: cache_view_def remember_request_def)

lemma view_other [simp]:
  "cache_view (n\<lparr>m_announce_bytes_in := b\<rparr>) = cache_view n"
  "cache_view (n\<lparr>m_announce_bytes_out := b\<rparr>) = cache_view n"
  "cache_view (n\<lparr>m_broadcast_bytes_in := b\<rparr>) = cache_view n"
  "cache_view (n\<lparr>m_broadcast_bytes_out := b\<rparr>) = cache_view n"
  "cache_view (n\<lparr>m_multicast_bytes_in := b\<rparr>) = cache_view n"
  "cache_view (n\<lparr>m_multicast_bytes_out := b\<rparr>) = cache_view n"
  "cache_view (n\<lparr>m_supernode_routes := rs\<rparr>) = cache_view n"
  "cache_view (n\<lparr>m_supernodes := sns\<rparr>) = cache_view n"
  "cache_view (n\<lparr>m_connections := cs\<rparr>) = cache_view n"
  "cache_view (n\<lparr>m_peers_white := ps\<rparr>) = cache_view n"
  "cache_view (n\<lparr>m_peers_gray := ps\<rparr>) = cache_view n"
  by (simp_all add: cache_view_def)

lemma view_multicast_send [simp]: "cache_view (fst (multicast_send env req as ex n)) = cache_view n"
  by (simp add: multicast_send_def Let_def)

lemma view_relay_announce [simp]: "cache_view (fst (relay_announce env arg n)) = cache_view n"
  by (simp add: relay_announce_def Let_def)

lemmas view_simps = cache_step_def view_remove_old view_remember Let_def case_prod_unfold

lemma announce_cache_step: "cache_step env n (fst (handle_supernode_announce env arg ctx n))"
  by (auto simp: handle_supernode_announce_def view_simps split: option.split)

lemma broadcast_cache_step: "cache_step env n (fst (handle_broadcast env arg ctx n))"
  by (auto simp: handle_broadcast_def view_simps)

lemma multicast_cache_step: "cache_step env n (fst (handle_multicast env arg ctx n))"
  by (auto simp: handle_multicast_def view_simps)

lemma unicast_cache_step: "cache_step env n (fst (handle_unicast env arg ctx n))"
  by (auto simp: handle_unicast_def view_simps split: option.split)

lemma handle_cache_step: "cache_step env n (fst (handle_request env req ctx n))"
  by (cases req) (simp_all add: announce_cache_step broadcast_cache_step multicast_cache_step unicast_cache_step)

lemma do_announce_view: "cache_view (fst (do_supernode_announce env req n)) = cache_view n"
  by (simp add: do_supernode_announce_def Let_def)

text \<open>A request of a local supernode is new when its hash is not in the cache.\<close>

fun do_request :: "rta_env \<Rightarrow> rpc_request \<Rightarrow> p2p_node \<Rightarrow> p2p_node \<times> rta_event list" where
  "do_request env (Rpc_Announce req) n = do_supernode_announce env req n"
| "do_request env (Rpc_Broadcast req) n = do_broadcast env req n"
| "do_request env (Rpc_Multicast req) n = do_multicast env req n"
| "do_request env (Rpc_Unicast req) n = do_unicast env req n"

definition new_request :: "rta_env \<Rightarrow> rpc_request \<Rightarrow> p2p_node \<Rightarrow> bool" where
  "new_request env req n \<longleftrightarrow> (\<forall>m. message_hash env req = Some m \<longrightarrow> m \<notin> m_supernode_requests_cache n)"

lemma do_cache_step:
  assumes "new_request env req n"
  shows "cache_step env n (fst (do_request env req n))"
  using assms
  by (cases req)
     (auto simp: do_announce_view do_broadcast_def do_multicast_def do_unicast_def new_request_def view_simps
       split: option.split)

lemma set_insert_timestamp [simp]: "set (insert_timestamp t m ts) = insert (t, m) (set ts)"
  by (induction ts) (auto split: if_splits)

lemma sorted_insert_timestamp: "sorted (map fst ts) \<Longrightarrow> sorted (map fst (insert_timestamp t m ts))"
  by (induction ts) fastforce+

lemma distinct_insert_timestamp:
  "distinct (map snd ts) \<Longrightarrow> m \<notin> snd ` set ts \<Longrightarrow> distinct (map snd (insert_timestamp t m ts))"
  by (induction ts) auto

lemma remember_cache_ok:
  "cache_ok (ts, cache) \<Longrightarrow> m \<notin> cache \<Longrightarrow> cache_ok (insert_timestamp t m ts, insert m cache)"
  by (simp add: sorted_insert_timestamp distinct_insert_timestamp)

lemma remove_old_cache_ok: "cache_ok (ts, cache) \<Longrightarrow> cache_ok (remove_old now ts cache)"
proof (induction ts arbitrary: cache)
  case (Cons e ts)
  obtain t m where "e = (t, m)" by (cases e)
  moreover have "snd ` set (e # ts) - {snd e} = snd ` set ts" using Cons.prems by auto
  ultimately show ?case using Cons by auto
qed simp

text \<open>Of a sorted list exactly the requests that are too old are dropped.\<close>

lemma remove_old_filter:
  "sorted (map fst ts) \<Longrightarrow> fst (remove_old now ts cache) = filter (\<lambda>e. now \<le> fst e + REQUEST_CACHE_TIME) ts"
proof (induction now ts cache rule: remove_old.induct)
  case (2 now t m ts cache)
  show ?case
  proof (cases "t + REQUEST_CACHE_TIME < now")
    case False
    with 2(2) have "\<forall>e \<in> set ts. now \<le> fst e + REQUEST_CACHE_TIME" by fastforce
    with False show ?thesis by (simp add: filter_id_conv)
  qed (use 2 in simp)
qed simp

lemma cache_step_ok:
  assumes "cache_step env n n'" "cache_ok (cache_view n)"
  shows "cache_ok (cache_view n')"
proof -
  obtain ts cache where view: "cache_view n = (ts, cache)" by (cases "cache_view n")
  then have "m_supernode_requests_cache n = cache" by (simp add: cache_view_def)
  with assms view show ?thesis
    by (auto simp: cache_step_def view_remove_old view_remember intro!: remove_old_cache_ok remember_cache_ok
        simp del: cache_ok.simps)
qed

lemma cache_step_keeps:
  assumes "cache_step env n n'" "cache_ok (cache_view n)"
    and "e \<in> set (fst (cache_view n))" "timestamp_of (clock_ms env) \<le> fst e + REQUEST_CACHE_TIME"
  shows "e \<in> set (fst (cache_view n'))"
proof -
  obtain ts cache where view: "cache_view n = (ts, cache)" by (cases "cache_view n")
  with assms show ?thesis
    by (auto simp: cache_step_def view_remove_old view_remember remove_old_filter sorted_insert_timestamp)
qed

text \<open>
  What happens to a node while the clock, as the node keeps it, is at most \<open>lim\<close>: it handles
  requests, and new requests of local supernodes, and its supernodes, connections and peers change.
\<close>

inductive rta_run :: "int \<Rightarrow> p2p_node \<Rightarrow> p2p_node \<Rightarrow> bool" for lim n where
  start: "rta_run lim n n"
| handle: "\<lbrakk>rta_run lim n n'; timestamp_of (clock_ms env) \<le> lim\<rbrakk>
    \<Longrightarrow> rta_run lim n (fst (handle_request env req ctx n'))"
| local_request: "\<lbrakk>rta_run lim n n'; timestamp_of (clock_ms env) \<le> lim; new_request env req n'\<rbrakk>
    \<Longrightarrow> rta_run lim n (fst (do_request env req n'))"
| peers: "rta_run lim n n' \<Longrightarrow>
    rta_run lim n (n'\<lparr>m_supernodes := sns, m_connections := cs, m_peers_white := white, m_peers_gray := gray\<rparr>)"

lemma rta_run_keeps:
  assumes "rta_run lim n n'" "cache_ok (cache_view n)" "e \<in> set (fst (cache_view n))" "lim \<le> fst e + REQUEST_CACHE_TIME"
  shows "cache_ok (cache_view n') \<and> e \<in> set (fst (cache_view n'))"
  using assms(1)
proof induction
  case start
  with assms show ?case by simp
next
  case (handle n' env req ctx)
  with assms(4) cache_step_ok [OF handle_cache_step] cache_step_keeps [OF handle_cache_step, of n' e env]
  show ?case by simp
next
  case (local_request n' env req)
  with assms(4) cache_step_ok [OF do_cache_step] cache_step_keeps [OF do_cache_step, of env req n' e]
  show ?case by simp
qed simp

fun request_id :: "rta_request \<Rightarrow> string option" where
  "request_id (Announce arg) = None"
| "request_id (Broadcast arg) = Some (bcast_message_id arg)"
| "request_id (Multicast arg) = Some (mcast_message_id arg)"
| "request_id (Unicast arg) = Some (ucast_message_id arg)"

lemma handle_known:
  assumes "request_id req = Some m" "m \<in> m_supernode_requests_cache n"
  shows "snd (handle_request env req ctx n) = []"
  using assms by (cases req) (auto simp: handle_broadcast_def handle_multicast_def handle_unicast_def Let_def)

lemma handle_new_view:
  assumes "request_id req = Some m" "m \<notin> m_supernode_requests_cache n" "ctx_normal ctx"
  shows "cache_view (fst (handle_request env req ctx n)) =
     cache_view (remove_old_request_cache env (remember_request env m n))"
  using assms
  by (cases req)
     (auto simp: handle_broadcast_def handle_multicast_def handle_unicast_def view_remove_old view_remember
       Let_def case_prod_unfold split: option.split)

lemma handle_new_cached:
  assumes "cache_ok (cache_view n)" "request_id req = Some m" "m \<notin> m_supernode_requests_cache n" "ctx_normal ctx"
  shows "(timestamp_of (clock_ms env), m) \<in> set (fst (cache_view (fst (handle_request env req ctx n))))"
proof -
  obtain ts cache where view: "cache_view n = (ts, cache)" by (cases "cache_view n")
  with assms show ?thesis
    by (simp add: handle_new_view view_remove_old view_remember remove_old_filter sorted_insert_timestamp REQUEST_CACHE_TIME_def)
qed


definition example_broadcast :: "string \<Rightarrow> u64 \<Rightarrow> broadcast_request" where
  "example_broadcast m hop =
     \<lparr>bcast_sender_address = ''a'', bcast_callback_uri = ''/cb'', bcast_data = ''data'', bcast_wait_answer = False,
      bcast_hop = hop, bcast_message_id = m\<rparr>"

definition example_ctx :: "conn_id \<Rightarrow> peerid \<Rightarrow> connection_context" where
  "example_ctx c p = \<lparr>ctx_connection_id = c, ctx_peer_id = p, ctx_normal = True\<rparr>"

lemma example_cache_ok: "cache_ok (cache_view example_node)"
  by (simp add: cache_view_def example_node_def)

lemma timestamp_small: "timestamp_of 1000 = 1000" "timestamp_of 61000 = 61000"
  by code_simp+

lemma clock_example: "clock_ms (example_env ms) = ms"
  by (simp add: example_env_def)

lemma example_first_broadcast:
  "snd (handle_request (example_env 1000) (Broadcast (example_broadcast ''m'' 3)) (example_ctx 11 2) example_node) =
   Post \<lparr>http_host = ''127.0.0.1'', http_port = 28690, sn_uri = ''/dapi''\<rparr> ''/dapi/cb''
     (Rpc_Broadcast \<lparr>bcast_sender_address = ''a'', bcast_callback_uri = ''/cb'', bcast_data = ''data'', bcast_wait_answer = False\<rparr>) #
   map (\<lambda>c. Notify c (Broadcast (example_broadcast ''m'' 2))) [10, 12, 13]"
  by (simp add: handle_broadcast_def example_node_def example_ctx_def example_broadcast_def Let_def remember_request_def
      post_request_to_supernodes_def post_request_to_supernode_def relay_notify_to_all_def relay_notify_to_list_def
      rpc_broadcast.defs)


text \<open>
  The clock of 32 bits goes back by \<open>2 ^ 32\<close> milliseconds after about fifty days. A request
  from before that moment is still suppressed days after it, since its time is past the clock.
\<close>

lemma timestamp_wraps: "timestamp_of 2147283647 = 2147283647" "timestamp_of 3011283647 = - 1283683649"
  by code_simp+

lemma request_forgotten_late:
  "let n1 = fst (handle_request (example_env 2147283647) (Broadcast (example_broadcast ''m'' 3)) (example_ctx 11 2) example_node);
       n2 = fst (handle_request (example_env 3011283647) (Broadcast (example_broadcast ''k'' 3)) (example_ctx 10 1) n1)
   in 3011283647 - 2147283647 = (10 * 24 * 60 * 60 * 1000 :: int) \<and>
      snd (handle_request (example_env 3011283647) (Broadcast (example_broadcast ''m'' 3)) (example_ctx 11 2) n2) = []"
proof -
  let ?req = "Broadcast (example_broadcast ''m'' 3)"
  let ?n1 = "fst (handle_request (example_env 2147283647) ?req (example_ctx 11 2) example_node)"
  let ?n2 = "fst (handle_request (example_env 3011283647) (Broadcast (example_broadcast ''k'' 3)) (example_ctx 10 1) ?n1)"
  let ?e = "(timestamp_of (clock_ms (example_env 2147283647)), ''m'')"
  have req: "request_id ?req = Some ''m''" "''m'' \<notin> m_supernode_requests_cache example_node" "ctx_normal (example_ctx 11 2)"
    by (simp_all add: example_broadcast_def example_node_def example_ctx_def)
  have run: "rta_run 0 ?n1 ?n2"
    by (intro rta_run.intros) (simp add: clock_example timestamp_wraps)
  have "cache_ok (cache_view ?n2) \<and> ?e \<in> set (fst (cache_view ?n2))"
    by (rule rta_run_keeps [OF run cache_step_ok [OF handle_cache_step example_cache_ok]
          handle_new_cached [OF example_cache_ok req]])
       (simp add: clock_example timestamp_wraps REQUEST_CACHE_TIME_def)
  then have "''m'' \<in> m_supernode_requests_cache ?n2" by (force simp: cache_view_def)
  from handle_known [OF req(1) this] show ?thesis by (simp only: Let_def) simp
qed

section \<open>Delivery ends\<close>

text \<open>
  The requests on their way, each with the node it goes to and the connection it comes from. A step
  delivers one to its node, in whatever state that is; what the node sends may arrive or be lost.
  \<open>link\<close> is the node and the connection at the other end of a connection.
\<close>

type_synonym in_flight = "(nat \<times> connection_context \<times> rta_request) multiset"

fun deliveries :: "(conn_id \<Rightarrow> (nat \<times> connection_context) option) \<Rightarrow> rta_event list \<Rightarrow> in_flight" where
  "deliveries link [] = {#}"
| "deliveries link (Post sn path req # evs) = deliveries link evs"
| "deliveries link (Notify c req # evs) =
     (case link c of None \<Rightarrow> {#} | Some (i, ctx) \<Rightarrow> {#(i, ctx, req)#}) + deliveries link evs"

fun is_announce :: "rta_request \<Rightarrow> bool" where
  "is_announce (Announce arg) = True"
| "is_announce req = False"

inductive delivery_step :: "in_flight \<Rightarrow> in_flight \<Rightarrow> bool" where
  deliver: "\<lbrakk>\<not> is_announce req; arrived \<subseteq># deliveries link (snd (handle_request env req ctx n))\<rbrakk>
    \<Longrightarrow> delivery_step (add_mset (i, ctx, req) flight) (flight + arrived)"

fun request_hop :: "rta_request \<Rightarrow> u64" where
  "request_hop (Announce arg) = ann_hop arg"
| "request_hop (Broadcast arg) = bcast_hop arg"
| "request_hop (Multicast arg) = mcast_hop arg"
| "request_hop (Unicast arg) = ucast_hop arg"

definition lower_hop :: "rta_request \<Rightarrow> rta_event \<Rightarrow> bool" where
  "lower_hop req ev \<longleftrightarrow> (case ev of Post sn path r \<Rightarrow> True
     | Notify c r \<Rightarrow> unat (request_hop r) < unat (request_hop req) \<and> request_id r = request_id req)"

lemma hop_decreases: "0 < (h :: u64) \<Longrightarrow> unat (h - 1) < unat h"
  by (simp add: measure_unat word_gt_0)

lemma posts_lower_hop:
  "ev \<in> set (post_request_to_supernodes n meth body ep) \<Longrightarrow> lower_hop req ev"
  "ev \<in> set (post_to_local n mc as) \<Longrightarrow> lower_hop req ev"
  by (auto simp: post_request_to_supernodes_def post_to_local_def post_request_to_supernode_def lower_hop_def
      split: option.splits)

lemma handle_lower_hop:
  assumes "\<not> is_announce req" "ev \<in> set (snd (handle_request env req ctx n))"
  shows "lower_hop req ev"
  using assms
  by (cases req)
     (auto simp: handle_broadcast_def handle_multicast_def handle_unicast_def Let_def case_prod_unfold
       relay_notify_to_all_def relay_notify_to_list_def post_request_to_supernode_def multicast_send_notifies lower_hop_def hop_decreases
       split: if_splits option.splits dest: posts_lower_hop)

lemma deliveries_from:
  "x \<in># deliveries link evs \<Longrightarrow> \<exists>c. Notify c (snd (snd x)) \<in> set evs"
  by (induction link evs rule: deliveries.induct) (auto split: option.splits)

lemma delivery_step_decreases:
  assumes "delivery_step flight flight'"
  shows "(image_mset (\<lambda>(i, ctx, req). unat (request_hop req)) flight',
          image_mset (\<lambda>(i, ctx, req). unat (request_hop req)) flight) \<in> mult1 less_than"
  using assms
proof cases
  case (deliver req arrived link env ctx n i rest)
  have "b < unat (request_hop req)" if "b \<in># image_mset (\<lambda>(i, ctx, req). unat (request_hop req)) arrived" for b
  proof -
    from that obtain x where x: "x \<in># arrived" "b = unat (request_hop (snd (snd x)))" by auto
    with deliver(4) have "x \<in># deliveries link (snd (handle_request env req ctx n))" by (blast dest: mset_subset_eqD)
    with x handle_lower_hop [OF deliver(3)] show ?thesis by (fastforce simp: lower_hop_def dest: deliveries_from)
  qed
  with deliver(1,2) show ?thesis
    unfolding mult1_def
    by (intro CollectI case_prodI exI [of _ "unat (request_hop req)"]
        exI [of _ "image_mset (\<lambda>(i, ctx, req). unat (request_hop req)) rest"]
        exI [of _ "image_mset (\<lambda>(i, ctx, req). unat (request_hop req)) arrived"]) auto
qed

text \<open>
  C38. The broadcasts, multicasts and unicasts on their way are delivered in finitely many steps:
  there is no infinite sequence of deliveries, in a network with cycles as well, whatever the
  nodes have in their caches and routes.
\<close>

theorem delivery_terminates: "wfp (\<lambda>flight' flight. delivery_step flight flight')"
proof -
  have "wf (inv_image (mult1 less_than) (image_mset (\<lambda>(i :: nat, ctx :: connection_context, req). unat (request_hop req))))"
    by (intro wf_inv_image wf_mult1 wf_less_than)
  then have "wf {(flight', flight). delivery_step flight flight'}"
    by (rule wf_subset) (auto dest: delivery_step_decreases simp: inv_image_def)
  then show ?thesis by (simp add: wfp_def)
qed

section \<open>Announcements\<close>

text \<open>
  An announcement with the height of the one before it is not passed on for two minutes; the peer
  it came from becomes one more tunnel.
\<close>

lemma map_of_put_route: "map_of (put_route a r rs) = (map_of rs)(a \<mapsto> r)"
  by (induction rs) (auto simp: fun_eq_iff)

lemma routes_remove_old [simp]: "m_supernode_routes (remove_old_request_cache env n) = m_supernode_routes n"
  by (simp add: remove_old_request_cache_def split: prod.split)

lemma supernodes_remove_old [simp]: "m_supernodes (remove_old_request_cache env n) = m_supernodes n"
  by (simp add: remove_old_request_cache_def split: prod.split)

lemma routes_relay_announce [simp]: "m_supernode_routes (fst (relay_announce env arg n)) = m_supernode_routes n"
  by (simp add: relay_announce_def Let_def)

lemma announce_route:
  assumes "ctx_normal ctx" "map_of (m_supernodes n) (ann_supernode_public_id arg) = None"
    and "find_peer n (ctx_peer_id ctx) = Some pe"
  shows "map_of (m_supernode_routes (fst (handle_supernode_announce env arg ctx n))) =
     (map_of (m_supernode_routes n))(ann_supernode_public_id arg \<mapsto>
        fst (update_route env arg pe (map_of (m_supernode_routes n) (ann_supernode_public_id arg))))"
  using assms by (auto simp: handle_supernode_announce_def Let_def find_peer_def map_of_put_route case_prod_unfold)

lemma announce_not_repeated:
  assumes "map_of (m_supernode_routes n) (ann_supernode_public_id arg) = Some route"
    and "map_of (m_supernodes n) (ann_supernode_public_id arg) = None"
    and "last_announce_height route = ann_height arg"
    and "ucast (ucast (env_time env) :: 32 word) < last_announce_time route + DIFFICULTY_TARGET_SECONDS"
  shows "snd (handle_supernode_announce env arg ctx n) = []"
  using assms by (auto simp: handle_supernode_announce_def update_route_def Let_def case_prod_unfold split: option.split)

end
