(* ===== verification/Spec2Isabelle.thy ===== *)
theory Spec2Isabelle
  imports Stake_Synchronization Tree_Hash Block_Reward Difficulty Hard_Fork Block_Hash Cryptmsg
    Rta_Messages
begin

text \<open>
  A verification development for GraftNetwork, the node of a CryptoNote blockchain with
  supernodes that authorize payments in real time (RTA). File names are relative to
  \<^verbatim>\<open>src/\<close> of the repository.

  \<^bold>\<open>The parts of the program.\<close> The node keeps a blockchain. Blocks and transactions arrive
  as blobs, which the binary archives parse. A supernode registers itself by a transaction that
  locks a stake and carries the stake data in its extra field. The stake transaction processor
  reads every block, finds the stake transactions, keeps them in the stake transaction storage,
  and asks the blockchain based list to draw the supernodes that authorize payments at that
  block. When the chain is reorganised both are unrolled. The table of hard forks decides
  which version of the rules a block has to follow, the difficulty and the block reward what
  it has to prove and may create. Supernodes talk to each other through the nodes: a node posts
  requests to its local supernodes and relays announcements, broadcasts, multicasts and
  unicasts to its peers. The contents of such messages are encrypted for their recipients.

  \<^bold>\<open>Shared theories.\<close>
  \<^item> \<open>Prelude\<close>: fixed-width integers as words, text and bytes, list operations.
  \<^item> \<open>Interfaces\<close>: the locale \<open>undo_log\<close>, the contract of a bounded log that can be unrolled;
    the storage and the list interpret it.
  \<^item> \<open>Graft_Config\<close>: the constants of \<^verbatim>\<open>graft_rta_config.h\<close> and
    \<^verbatim>\<open>cryptonote_config.h\<close>.
  \<^item> \<open>Int_Util\<close>: \<^verbatim>\<open>common/int-util.h\<close>, products and quotients of 128 bits, shown exact.
  \<^item> \<open>Std_Random\<close>: \<^verbatim>\<open>std::seed_seq\<close> and \<^verbatim>\<open>std::mt19937_64\<close> as the C++ standard defines them.

  \<^bold>\<open>Serialization.\<close>
  \<^item> \<open>Varint\<close>: \<^verbatim>\<open>common/varint.h\<close>. The reader accepts exactly what the writer writes.
  \<^item> \<open>Binary_Archive\<close>: the archives of \<^verbatim>\<open>serialization/\<close>. A saver gives bytes, a loader takes
    bytes to a value and the bytes left. The locales \<open>codec\<close> and \<open>nonempty_codec\<close> are the
    contract of such a pair; every type of the program that is serialized interprets one of them.
  \<^item> \<open>Cryptonote_Basic\<close> and \<open>Transaction\<close>: \<^verbatim>\<open>cryptonote_basic/cryptonote_basic.h\<close>,
    \<^verbatim>\<open>ringct/rctTypes.h\<close> and the parsing in \<^verbatim>\<open>cryptonote_format_utils.cpp\<close>. A
    serialized transaction or block is parsed to itself, and a parsed bulletproof fits its outputs.
  \<^item> \<open>Parsed_Values\<close>: what parsing can return for arbitrary bytes: well-formed transactions only.
    The blob of a transaction is not unique.
  \<^item> \<open>Tx_Extra\<close>: \<^verbatim>\<open>cryptonote_basic/tx_extra.h\<close> and the functions on it. Stake data that was
    appended is found, removing a field keeps the others, and a long nonce cannot be read back.
  \<^item> \<open>Base58\<close>, \<open>Hex\<close> and \<open>Addresses\<close>: \<^verbatim>\<open>common/base58.cpp\<close>, the hexadecimal texts of
    \<^verbatim>\<open>contrib/epee\<close> and the address texts of \<^verbatim>\<open>cryptonote_basic_impl.cpp\<close>.

  \<^bold>\<open>Hashes and ciphers.\<close>
  \<^item> \<open>Keccak\<close>: \<^verbatim>\<open>crypto/keccak.c\<close> and \<^verbatim>\<open>crypto/hash.c\<close>. When the hash returns, and
    that hashing in parts agrees with hashing at once.
  \<^item> \<open>Tree_Hash\<close>: \<^verbatim>\<open>crypto/tree-hash.c\<close>. The in-place algorithm refines the root of a binary
    tree, and the root binds its leaves.
  \<^item> \<open>Block_Hash\<close>: the hashes of transactions and blocks in \<^verbatim>\<open>cryptonote_format_utils.cpp\<close>,
    composed of the serializers, \<open>Keccak\<close> and \<open>Tree_Hash\<close>. The hash of a block binds the block, up to
    a collision among the strings that are hashed; the fields of RTA transactions are not hashed.
  \<^item> \<open>Chacha\<close> and \<open>Cryptmsg\<close>: \<^verbatim>\<open>crypto/chacha.c\<close> and \<^verbatim>\<open>utils/cryptmsg.cpp\<close>. Every
    recipient reads the message that was encrypted; with 65536 recipients nobody does.

  \<^bold>\<open>Rules of the blockchain.\<close>
  \<^item> \<open>Hard_Fork\<close>: \<^verbatim>\<open>cryptonote_basic/hardfork.cpp\<close> and the tables of
    \<^verbatim>\<open>cryptonote_core/blockchain.cpp\<close>: the window of votes, the voted fork, the scheduled
    version, and that a restarted node finds the state of the running one.
  \<^item> \<open>Difficulty\<close> and \<open>Block_Reward\<close>: \<^verbatim>\<open>difficulty.cpp\<close> and
    \<^verbatim>\<open>cryptonote_basic_impl.cpp\<close>, whose word arithmetic is shown to be exact arithmetic.

  \<^bold>\<open>Supernodes.\<close>
  \<^item> \<open>Stake_Transaction_Storage\<close>, \<open>Blockchain_Based_List\<close> and \<open>Stake_Files\<close>: the classes of the
    same names in \<^verbatim>\<open>cryptonote_core/\<close> and their files. Amounts and intervals of stakes, what a
    list contains, that unrolling undoes applying, and that a stored state is loaded again.
  \<^item> \<open>Stake_Transaction_Processor\<close> and \<open>Stake_Synchronization\<close>: the class
    \<^verbatim>\<open>StakeTransactionProcessor\<close>, composed of the two above, \<open>Tx_Extra\<close> and \<open>Addresses\<close>. In
    every reachable state the storage is the scan of the current chain, repeated
    synchronization reaches the last block, and two failures that the code does not survive.
  \<^item> \<open>Rta_Messages\<close>: the handlers of \<^verbatim>\<open>p2p/net_node.inl\<close>. Delivery ends, a request is handled
    once, and what tunnels are chosen.

  \<^bold>\<open>Conventions.\<close> A class is a record of its members, an operation a function from the state and
  the arguments to the result and the state. Integers of the code are words of their width, so
  that they wrap; where a size cannot wrap for memory it is a natural number. An exception or
  a false result is a value of an option or sum type. Maps are partial functions, or association
  lists where the code iterates over them. Clocks, random values and the answers of other
  components are arguments. Every function is total: loops are recursive with a termination proof,
  and the loop of \<^verbatim>\<open>keccak\<close> that may run forever is a \<^verbatim>\<open>partial_function\<close>, of which it
  is proved when it returns. There is no fuel, except for the bound of 10000 blocks on a round of
  synchronization, which is in the code.

  \<^bold>\<open>Parameters.\<close> The operations on the elliptic curve, the slow hash and the queries to the
  blockchain are functions in records; the theorems name what they need of them
  (\<open>key_exchange\<close> in \<open>Cryptmsg\<close>, the consistency of the chain in \<open>Stake_Synchronization\<close>).

  \<^bold>\<open>Not modelled.\<close> The elliptic curve, ring signatures and the proof-of-work hash, which are
  field arithmetic over generated tables; the database, which is calls of LMDB, and with it
  the parts of the blockchain and of the transaction pool that are queries to it; the wallet, the
  RPC server, the daemon, its protocol handler and the utilities, which are input, output and
  threads; the difficulty of versions 8 and 9, which is computed with floating point numbers;
  locks, since every modelled operation runs under the lock of its component; the JSON archives.
\<close>

end
